(* ===== verification/Prelude.thy ===== *)
theory Prelude
  imports Main "HOL-Library.Word" "HOL-Library.Signed_Division"
begin

text \<open>
  Shared vocabulary of the development: the machine types of \<open>em/csrc/common.hh\<close>, the ways
  in which the emulator can stop (\<open>panic\<close>, a failing \<open>assert\<close>, undefined
  behaviour), the error-propagating composition used by every component, checked array
  accesses, and the generic facts about words, bytes and lists that the component proofs share.
\<close>

unbundle bit_operations_syntax

section \<open>Machine types\<close>

type_synonym u8 = "8 word"
type_synonym u16 = "16 word"
type_synonym u32 = "32 word"
type_synonym u64 = "64 word"

type_synonym cpu_word_t = u32
type_synonym cpu_unsigned_word_t = u32
type_synonym vm_addr_t = u32
type_synonym phy_addr_t = u32
type_synonym insn_t = u32
type_synonym msr_index_t = u16

section \<open>How the emulator stops\<close>

text \<open>
  \<open>Panic c\<close> is \<open>panic(c)\<close>, which ends the process with exit code \<open>c\<close>;
  \<open>AssertFail\<close> is a failing \<open>assert\<close>; \<open>Undefined\<close> is undefined behaviour of
  the C++ program (an access outside an array, the use of an indeterminate value, a shift count
  that is not below the width, a division that traps). Every operation that can stop returns
  \<open>halt + result\<close>.
\<close>

datatype halt = Panic int | AssertFail | Undefined

definition bnd :: "halt + 'a \<Rightarrow> ('a \<Rightarrow> halt + 'b) \<Rightarrow> halt + 'b" where
  "bnd m f = (case m of Inl e \<Rightarrow> Inl e | Inr x \<Rightarrow> f x)"

definition assertE :: "bool \<Rightarrow> halt + 'a \<Rightarrow> halt + 'a" where
  "assertE b m = (if b then m else Inl AssertFail)"

lemma bnd_simps [simp]:
  "bnd (Inl e) f = Inl e"
  "bnd (Inr x) f = f x"
  by (simp_all add: bnd_def)

lemma bnd_ret [simp]: "bnd m Inr = m" "bnd m (\<lambda>x. Inr x) = m"
  by (simp_all add: bnd_def split: sum.splits)

lemma bnd_eq_Inr [simp]: "bnd m f = Inr y \<longleftrightarrow> (\<exists>x. m = Inr x \<and> f x = Inr y)"
  by (cases m) simp_all

lemma bnd_eq_Inl: "bnd m f = Inl e \<longleftrightarrow> m = Inl e \<or> (\<exists>x. m = Inr x \<and> f x = Inl e)"
  by (cases m) simp_all

lemma bnd_assoc: "bnd (bnd m f) g = bnd m (\<lambda>x. bnd (f x) g)"
  by (cases m) simp_all

lemma bnd_cong [fundef_cong]:
  "m = m' \<Longrightarrow> (\<And>x. m' = Inr x \<Longrightarrow> f x = f' x) \<Longrightarrow> bnd m f = bnd m' f'"
  by (cases m') simp_all

lemma assertE_simps [simp]:
  "assertE True m = m"
  "assertE False m = Inl AssertFail"
  by (simp_all add: assertE_def)

lemma assertE_eq_Inr [simp]: "assertE b m = Inr y \<longleftrightarrow> b \<and> m = Inr y"
  by (simp add: assertE_def)

subsection \<open>Iteration\<close>

text \<open>A step that may stop, run \<open>n\<close> times.\<close>

fun iterE :: "('s \<Rightarrow> halt + 's) \<Rightarrow> nat \<Rightarrow> 's \<Rightarrow> halt + 's" where
  "iterE f 0 s = Inr s"
| "iterE f (Suc n) s = bnd (f s) (iterE f n)"

lemma iterE_Suc_right: "iterE f (Suc n) s = bnd (iterE f n s) f"
proof (induction n arbitrary: s)
  case 0
  then show ?case by (cases "f s") simp_all
next
  case (Suc n)
  then have "bnd (f s) (iterE f (Suc n)) = bnd (f s) (\<lambda>x. bnd (iterE f n x) f)"
    by presburger
  then show ?case by (simp add: bnd_assoc)
qed

text \<open>
  Contract of a component's step: \<open>inv\<close> holds after every step that does not stop. A component
  interprets the locale on its own operation and obtains the invariant of whole runs.
\<close>

locale step_invariant =
  fixes stp :: "'s \<Rightarrow> halt + 's" and inv :: "'s \<Rightarrow> bool"
  assumes stp_inv: "inv s \<Longrightarrow> stp s = Inr s' \<Longrightarrow> inv s'"
begin

lemma run_inv: "inv s \<Longrightarrow> iterE stp n s = Inr s' \<Longrightarrow> inv s'"
  by (induction n arbitrary: s) (auto dest: stp_inv)

end

text \<open>The stronger contract of a step that never stops from a state with the invariant.\<close>

locale total_step = step_invariant +
  assumes stp_total: "inv s \<Longrightarrow> \<exists>s'. stp s = Inr s'"
begin

lemma run_total: "inv s \<Longrightarrow> \<exists>s'. iterE stp n s = Inr s' \<and> inv s'"
proof (induction n arbitrary: s)
  case 0
  then show ?case by simp
next
  case (Suc n)
  then obtain t where "stp s = Inr t" using stp_total by blast
  with Suc show ?case using stp_inv by auto
qed

end

section \<open>Arrays\<close>

text \<open>Reading or writing outside an array is undefined in the source, and is so here.\<close>

definition nthE :: "'a list \<Rightarrow> nat \<Rightarrow> halt + 'a" where
  "nthE xs i = (if i < length xs then Inr (xs ! i) else Inl Undefined)"

definition updE :: "'a list \<Rightarrow> nat \<Rightarrow> 'a \<Rightarrow> halt + 'a list" where
  "updE xs i v = (if i < length xs then Inr (xs[i := v]) else Inl Undefined)"

lemma nthE_in [simp]: "i < length xs \<Longrightarrow> nthE xs i = Inr (xs ! i)"
  by (simp add: nthE_def)

lemma updE_in [simp]: "i < length xs \<Longrightarrow> updE xs i v = Inr (xs[i := v])"
  by (simp add: updE_def)

lemma nthE_eq_Inr: "nthE xs i = Inr x \<longleftrightarrow> i < length xs \<and> x = xs ! i"
  by (auto simp: nthE_def)

lemma updE_eq_Inr: "updE xs i v = Inr ys \<longleftrightarrow> i < length xs \<and> ys = xs[i := v]"
  by (auto simp: updE_def)

lemma all_less_2: "(\<forall>k < 2. P k) \<longleftrightarrow> P 0 \<and> P (1::nat)"
  by (simp add: eval_nat_numeral All_less_Suc) blast

lemma all_less_4: "(\<forall>k < 4. P k) \<longleftrightarrow> P 0 \<and> P (1::nat) \<and> P 2 \<and> P 3"
  by (simp add: eval_nat_numeral All_less_Suc) blast

lemma all_less_8:
  "(\<forall>k < 8. P k) \<longleftrightarrow> P 0 \<and> P (1::nat) \<and> P 2 \<and> P 3 \<and> P 4 \<and> P 5 \<and> P 6 \<and> P 7"
  by (simp add: eval_nat_numeral All_less_Suc) blast

lemmas all_less = all_less_2 all_less_4 all_less_8

section \<open>Words\<close>

lemma unat_less_exp: "unat (x :: 'a::len word) < 2 ^ LENGTH('a)"
  by (rule unsigned_less)

lemma unat_ucast_up: "LENGTH('a) \<le> LENGTH('b) \<Longrightarrow> unat (ucast x :: 'b::len word) = unat x"
  for x :: "'a::len word"
  by (simp add: unsigned_ucast_eq take_bit_nat_eq_self_iff)
     (meson less_le_trans one_le_numeral power_increasing unat_less_exp)

lemma unat_and_le_right: "unat (x AND y) \<le> unat (y :: 'a::len word)"
  using word_and_le1 [of x y] by (simp add: word_le_nat_alt)

lemma unat_and_mask_less: "unat (x AND (2 ^ n - 1)) < 2 ^ n" for x :: "'a::len word"
proof -
  have "unat (x AND (2 ^ n - 1)) = unat (take_bit n x)"
    by (simp add: take_bit_eq_mask mask_eq_exp_minus_1)
  also have "\<dots> < 2 ^ n"
    by (simp add: unsigned_take_bit_eq take_bit_nat_less_exp)
  finally show ?thesis .
qed

lemma unat_and_mask_mod: "unat (x AND (2 ^ n - 1)) = unat x mod 2 ^ n" for x :: "'a::len word"
proof -
  have "unat (x AND (2 ^ n - 1)) = unat (take_bit n x)"
    by (simp add: take_bit_eq_mask mask_eq_exp_minus_1)
  also have "\<dots> = unat x mod 2 ^ n"
    by (simp only: unsigned_take_bit_eq) (simp add: take_bit_eq_mod)
  finally show ?thesis .
qed

lemma unat_drop_bit: "unat (drop_bit n x) = unat x div 2 ^ n" for x :: "'a::len word"
  by (simp only: unsigned_drop_bit_eq) (simp add: drop_bit_eq_div take_bit_nat_eq_self)

lemma unat_push_bit: "unat x * 2 ^ n < 2 ^ LENGTH('a) \<Longrightarrow> unat (push_bit n x) = unat x * 2 ^ n" for x :: "'a::len word"
  by (simp only: unsigned_push_bit_eq) (simp add: push_bit_eq_mult take_bit_nat_eq_self)

lemma not_bit_if_less: "unat x < 2 ^ i \<Longrightarrow> \<not> bit x i" for x :: "'a::len word"
proof -
  assume "unat x < 2 ^ i"
  then have "\<not> bit (unat x) i" by (simp add: bit_iff_odd)
  then show ?thesis by (auto simp: bit_simps dest: bit_imp_le_length)
qed

lemma bit_and_not: "bit (x AND NOT y) n \<longleftrightarrow> bit x n \<and> \<not> bit y n" for x y :: "'a::len word"
  by (auto simp: bit_and_iff bit_not_iff dest: bit_imp_le_length)

lemma word_nonzero_iff: "x \<noteq> 0 \<longleftrightarrow> (\<exists>n. bit x n)" for x :: "'a::len word"
  by (metis bit_0_eq bit_eqI bot2E bot_apply)

subsection \<open>Fields and sign extension\<close>

lemma xor_exp_eq: "w XOR 2 ^ n = (if bit w n then w - 2 ^ n else w + 2 ^ n)" for w :: "'a::len word"
proof -
  have "w XOR 2 ^ n = flip_bit n w"
    by (simp add: flip_bit_eq_xor push_bit_eq_mult)
  then show ?thesis
    by (simp add: flip_bit_eq_if unset_bit_eq set_bit_eq)
qed

lemma xor_sub_sext:
  fixes u :: "'a::len word"
  assumes "LENGTH('a) = Suc n" and "Suc n \<le> LENGTH('b)"
  shows "(ucast u XOR 2 ^ n) - 2 ^ n = (scast u :: 'b::len word)"
proof -
  have b: "bit (ucast u :: 'b word) n \<longleftrightarrow> bit u n"
    using assms by (simp add: bit_simps)
  have t: "take_bit (Suc n) (uint u) = uint u"
    using unsigned_less [of u, where 'a = int] assms(1) by (simp add: take_bit_int_eq_self_iff)
  have s: "sint u = uint u - 2 ^ Suc n * of_bool (bit u n)"
    using assms by (simp add: sint_uint signed_take_bit_eq_take_bit_minus bit_simps t)
  have c: "(scast u :: 'b word) = word_of_int (sint u)" by (rule scast_eq)
  show ?thesis
  proof (cases "bit u n")
    case True
    then have "(scast u :: 'b word) = word_of_int (uint u) - word_of_int (2 ^ Suc n)"
      by (simp only: c s) simp
    also have "\<dots> = ucast u - 2 ^ n - 2 ^ n"
      by simp
    finally show ?thesis using True b by (simp add: xor_exp_eq)
  next
    case False
    then have "(scast u :: 'b word) = ucast u"
      by (simp only: c s) simp
    then show ?thesis using False b by (simp add: xor_exp_eq)
  qed
qed

lemma field_bits: "m = push_bit s (mask k) \<Longrightarrow> drop_bit s (x AND m) = take_bit k (drop_bit s x)" for x :: "'a::len word"
  by (rule bit_eqI) (auto simp: bit_simps dest: bit_imp_le_length)

subsection \<open>Little-endian bytes\<close>

text \<open>The bytes a multi-byte store writes, and the value a multi-byte load assembles.\<close>

definition byte_of :: "nat \<Rightarrow> 'a::len word \<Rightarrow> u8" where
  "byte_of k v = ucast (drop_bit (8 * k) v)"

lemma bit_push_byte:
  "bit (push_bit (8 * k) (ucast (byte_of k v)) :: 'a word) n \<longleftrightarrow>
     n < LENGTH('a) \<and> 8 * k \<le> n \<and> n < 8 * k + 8 \<and> bit v n" for v :: "'a::len word"
  by (auto simp: byte_of_def bit_simps) 

lemmas bit_push_bytes = bit_push_byte [of 0, simplified] bit_push_byte [of 1, simplified]
  bit_push_byte [of 2, simplified] bit_push_byte [of 3, simplified]
  bit_push_byte [of 4, simplified] bit_push_byte [of 5, simplified]
  bit_push_byte [of 6, simplified] bit_push_byte [of 7, simplified]

lemma bytes_word16:
  "push_bit 8 (ucast (byte_of 1 v)) OR ucast (byte_of 0 v) = (v :: u16)"
  by (rule bit_eqI) (auto simp: bit_or_iff bit_push_bytes)

lemma bytes_word32:
  "push_bit 24 (ucast (byte_of 3 v)) OR push_bit 16 (ucast (byte_of 2 v))
     OR push_bit 8 (ucast (byte_of 1 v)) OR ucast (byte_of 0 v) = (v :: u32)"
  by (rule bit_eqI) (auto simp: bit_or_iff bit_push_bytes)

lemma bytes_word64:
  "push_bit 56 (ucast (byte_of 7 v)) OR push_bit 48 (ucast (byte_of 6 v))
     OR push_bit 40 (ucast (byte_of 5 v)) OR push_bit 32 (ucast (byte_of 4 v))
     OR push_bit 24 (ucast (byte_of 3 v)) OR push_bit 16 (ucast (byte_of 2 v))
     OR push_bit 8 (ucast (byte_of 1 v)) OR ucast (byte_of 0 v) = (v :: u64)"
  by (rule bit_eqI) (auto simp: bit_or_iff bit_push_bytes)

end
