(* ===== verification/Isa.thy ===== *)
theory Isa
  imports Prelude
begin

text \<open>
  The instruction set as \<open>em/csrc/isa.hh\<close> declares it: opcodes, field masks and shifts, the
  register numbers with a meaning of their own and the numbers of the model-specific registers
  (MSRs); and the field extraction of the first lines of \<open>CPU::step\<close> (\<open>em/csrc/cpu.cc\<close>):
  \<open>decode\<close>, \<open>rel25_sig_ext\<close> and \<open>rel15_sig_ext\<close>. The lemmas show that the
  extraction inverts the instruction formats (\<open>enc_fmt1\<close>, \<open>enc_imm15\<close>, \<open>enc_rel25\<close> are the
  specification of the formats) and that the exclusive-or idiom of the source is two's-complement
  sign extension.
\<close>

section \<open>Opcodes\<close>

abbreviation (input) INS32_OP_AND :: u16 where "INS32_OP_AND \<equiv> 0x0"
abbreviation (input) INS32_OP_AND_I :: u16 where "INS32_OP_AND_I \<equiv> 0x1"
abbreviation (input) INS32_OP_OR :: u16 where "INS32_OP_OR \<equiv> 0x2"
abbreviation (input) INS32_OP_OR_I :: u16 where "INS32_OP_OR_I \<equiv> 0x3"
abbreviation (input) INS32_OP_XOR :: u16 where "INS32_OP_XOR \<equiv> 0x4"
abbreviation (input) INS32_OP_XOR_I :: u16 where "INS32_OP_XOR_I \<equiv> 0x5"
abbreviation (input) INS32_OP_LSL :: u16 where "INS32_OP_LSL \<equiv> 0x6"
abbreviation (input) INS32_OP_LSL_I :: u16 where "INS32_OP_LSL_I \<equiv> 0x7"
abbreviation (input) INS32_OP_LSR :: u16 where "INS32_OP_LSR \<equiv> 0x8"
abbreviation (input) INS32_OP_LSR_I :: u16 where "INS32_OP_LSR_I \<equiv> 0x9"
abbreviation (input) INS32_OP_ADD :: u16 where "INS32_OP_ADD \<equiv> 0xa"
abbreviation (input) INS32_OP_ADD_I :: u16 where "INS32_OP_ADD_I \<equiv> 0xb"
abbreviation (input) INS32_OP_SUB :: u16 where "INS32_OP_SUB \<equiv> 0xc"
abbreviation (input) INS32_OP_JMP :: u16 where "INS32_OP_JMP \<equiv> 0xd"
abbreviation (input) INS32_OP_JMP_I :: u16 where "INS32_OP_JMP_I \<equiv> 0xe"
abbreviation (input) INS32_OP_JMP_I_LNK :: u16 where "INS32_OP_JMP_I_LNK \<equiv> 0xf"
abbreviation (input) INS32_OP_BEQ :: u16 where "INS32_OP_BEQ \<equiv> 0x10"
abbreviation (input) INS32_OP_BNE :: u16 where "INS32_OP_BNE \<equiv> 0x11"
abbreviation (input) INS32_OP_BGT :: u16 where "INS32_OP_BGT \<equiv> 0x12"
abbreviation (input) INS32_OP_BGTU :: u16 where "INS32_OP_BGTU \<equiv> 0x13"
abbreviation (input) INS32_OP_BLE :: u16 where "INS32_OP_BLE \<equiv> 0x14"
abbreviation (input) INS32_OP_BLEU :: u16 where "INS32_OP_BLEU \<equiv> 0x15"
abbreviation (input) INS32_OP_LDWU :: u16 where "INS32_OP_LDWU \<equiv> 0x17"
abbreviation (input) INS32_OP_STW :: u16 where "INS32_OP_STW \<equiv> 0x18"
abbreviation (input) INS32_OP_LDHU :: u16 where "INS32_OP_LDHU \<equiv> 0x19"
abbreviation (input) INS32_OP_LDH :: u16 where "INS32_OP_LDH \<equiv> 0x1a"
abbreviation (input) INS32_OP_STH :: u16 where "INS32_OP_STH \<equiv> 0x1b"
abbreviation (input) INS32_OP_LDBU :: u16 where "INS32_OP_LDBU \<equiv> 0x1c"
abbreviation (input) INS32_OP_LDB :: u16 where "INS32_OP_LDB \<equiv> 0x1d"
abbreviation (input) INS32_OP_STB :: u16 where "INS32_OP_STB \<equiv> 0x1e"
abbreviation (input) INS32_OP_BARR :: u16 where "INS32_OP_BARR \<equiv> 0x20"
abbreviation (input) INS32_OP_SYSCALL :: u16 where "INS32_OP_SYSCALL \<equiv> 0x21"
abbreviation (input) INS32_OP_RETE :: u16 where "INS32_OP_RETE \<equiv> 0x22"
abbreviation (input) INS32_OP_WMSR :: u16 where "INS32_OP_WMSR \<equiv> 0x23"
abbreviation (input) INS32_OP_RMSR :: u16 where "INS32_OP_RMSR \<equiv> 0x24"
abbreviation (input) INS32_OP_ASR :: u16 where "INS32_OP_ASR \<equiv> 0x30"
abbreviation (input) INS32_OP_ASR_I :: u16 where "INS32_OP_ASR_I \<equiv> 0x31"
abbreviation (input) INS32_OP_MUL :: u16 where "INS32_OP_MUL \<equiv> 0x32"
abbreviation (input) INS32_OP_DIV :: u16 where "INS32_OP_DIV \<equiv> 0x33"
abbreviation (input) INS32_OP_DIVU :: u16 where "INS32_OP_DIVU \<equiv> 0x34"
abbreviation (input) INS32_OP_MOD :: u16 where "INS32_OP_MOD \<equiv> 0x35"
abbreviation (input) INS32_OP_MODU :: u16 where "INS32_OP_MODU \<equiv> 0x36"
abbreviation (input) INS32_OP_MHI :: u16 where "INS32_OP_MHI \<equiv> 0x37"
abbreviation (input) INS32_OP_LDWA :: u16 where "INS32_OP_LDWA \<equiv> 0x50"
abbreviation (input) INS32_OP_STWA :: u16 where "INS32_OP_STWA \<equiv> 0x51"

section \<open>Instruction fields\<close>

abbreviation (input) INS32_MASK_OPCODE :: u32 where "INS32_MASK_OPCODE \<equiv> 0x00000fe0"
abbreviation (input) INS32_MASK_RD :: u32 where "INS32_MASK_RD \<equiv> 0x0000001f"
abbreviation (input) INS32_MASK_RS1 :: u32 where "INS32_MASK_RS1 \<equiv> 0x0001f000"
abbreviation (input) INS32_MASK_RS2 :: u32 where "INS32_MASK_RS2 \<equiv> 0x003e0000"
abbreviation (input) INS32_MASK_IMM15 :: u32 where "INS32_MASK_IMM15 \<equiv> 0xfffe0000"
abbreviation (input) INS32_MASK_IMM17 :: u32 where "INS32_MASK_IMM17 \<equiv> 0xffff8000"
abbreviation (input) INS32_MASK_REL15 :: u32 where "INS32_MASK_REL15 \<equiv> 0xfffe0000"

abbreviation (input) INS32_SHIFTRIGHT_OPCODE :: nat where "INS32_SHIFTRIGHT_OPCODE \<equiv> 5"
abbreviation (input) INS32_SHIFTRIGHT_RD :: nat where "INS32_SHIFTRIGHT_RD \<equiv> 0"
abbreviation (input) INS32_SHIFTRIGHT_RS1 :: nat where "INS32_SHIFTRIGHT_RS1 \<equiv> 12"
abbreviation (input) INS32_SHIFTRIGHT_RS2 :: nat where "INS32_SHIFTRIGHT_RS2 \<equiv> 17"
abbreviation (input) INS32_SHIFTRIGHT_IMM15 :: nat where "INS32_SHIFTRIGHT_IMM15 \<equiv> 17"
abbreviation (input) INS32_SHIFTRIGHT_IMM17 :: nat where "INS32_SHIFTRIGHT_IMM17 \<equiv> 15"
abbreviation (input) INS32_SHIFTRIGHT_REL15 :: nat where "INS32_SHIFTRIGHT_REL15 \<equiv> 17"

definition ins32_parse_rel25 :: "insn_t \<Rightarrow> u32" where
  "ins32_parse_rel25 insn = (insn AND 0x1f) OR push_bit 5 (drop_bit 12 insn AND 0xfffff)"

definition INS32_GET_BITS :: "u32 \<Rightarrow> u32 \<Rightarrow> nat \<Rightarrow> u32" where
  "INS32_GET_BITS src field_mask sh = drop_bit sh (src AND field_mask)"

abbreviation (input) INSN_LEN :: u32 where "INSN_LEN \<equiv> 4"
abbreviation (input) INSN_LEN_SHIFT :: nat where "INSN_LEN_SHIFT \<equiv> 2"
abbreviation (input) ADDR_RLNK :: u16 where "ADDR_RLNK \<equiv> 1"

section \<open>MSR numbers\<close>

abbreviation (input) MSR_PSR :: msr_index_t where "MSR_PSR \<equiv> 0x1"
abbreviation (input) MSR_CPUID :: msr_index_t where "MSR_CPUID \<equiv> 0x2"
abbreviation (input) MSR_EPSR :: msr_index_t where "MSR_EPSR \<equiv> 0x4"
abbreviation (input) MSR_EPC :: msr_index_t where "MSR_EPC \<equiv> 0x8"
abbreviation (input) MSR_ELSA :: msr_index_t where "MSR_ELSA \<equiv> 0x10"
abbreviation (input) MSR_COREID :: msr_index_t where "MSR_COREID \<equiv> 0x20"
abbreviation (input) MSR_EVECT :: msr_index_t where "MSR_EVECT \<equiv> 0x40"
abbreviation (input) MSR_IMMID :: msr_index_t where "MSR_IMMID \<equiv> 0x200"
abbreviation (input) MSR_ITLBL :: msr_index_t where "MSR_ITLBL \<equiv> 0x300"
abbreviation (input) MSR_ITLBH :: msr_index_t where "MSR_ITLBH \<equiv> 0x380"
abbreviation (input) MSR_DMMID :: msr_index_t where "MSR_DMMID \<equiv> 0x400"
abbreviation (input) MSR_DTLBL :: msr_index_t where "MSR_DTLBL \<equiv> 0x500"
abbreviation (input) MSR_DTLBH :: msr_index_t where "MSR_DTLBH \<equiv> 0x580"
abbreviation (input) MSR_ICID :: msr_index_t where "MSR_ICID \<equiv> 0x601"
abbreviation (input) MSR_ICINV :: msr_index_t where "MSR_ICINV \<equiv> 0x602"
abbreviation (input) MSR_DCID :: msr_index_t where "MSR_DCID \<equiv> 0x801"
abbreviation (input) MSR_DCINV :: msr_index_t where "MSR_DCINV \<equiv> 0x802"
abbreviation (input) MSR_DCFLS :: msr_index_t where "MSR_DCFLS \<equiv> 0x804"
abbreviation (input) MSR_DBGR_NUMPORT :: msr_index_t where "MSR_DBGR_NUMPORT \<equiv> 0xa01"
abbreviation (input) MSR_DBGR_MSGPORT :: msr_index_t where "MSR_DBGR_MSGPORT \<equiv> 0xa02"
abbreviation (input) MSR_DBGR_TSCL :: msr_index_t where "MSR_DBGR_TSCL \<equiv> 0xa04"
abbreviation (input) MSR_DBGR_TSCH :: msr_index_t where "MSR_DBGR_TSCH \<equiv> 0xa08"
abbreviation (input) MSR_IMR :: msr_index_t where "MSR_IMR \<equiv> 0xc01"
abbreviation (input) MSR_IRR :: msr_index_t where "MSR_IRR \<equiv> 0xc02"
abbreviation (input) MSR_TSR :: msr_index_t where "MSR_TSR \<equiv> 0xe01"
abbreviation (input) MSR_TCR :: msr_index_t where "MSR_TCR \<equiv> 0xe02"
abbreviation (input) MSR_SR_MAX :: msr_index_t where "MSR_SR_MAX \<equiv> 0x100f"
abbreviation (input) MSR_BANK_SR :: msr_index_t where "MSR_BANK_SR \<equiv> 0x1000"

text \<open>Bit numbers of the flags of each register, and the masks of its wider fields.\<close>

abbreviation (input) MSR_PSR_CY_SHIFT :: nat where "MSR_PSR_CY_SHIFT \<equiv> 1"
abbreviation (input) MSR_PSR_OV_SHIFT :: nat where "MSR_PSR_OV_SHIFT \<equiv> 2"
abbreviation (input) MSR_PSR_OE_SHIFT :: nat where "MSR_PSR_OE_SHIFT \<equiv> 3"
abbreviation (input) MSR_PSR_RM_SHIFT :: nat where "MSR_PSR_RM_SHIFT \<equiv> 4"
abbreviation (input) MSR_PSR_IRE_SHIFT :: nat where "MSR_PSR_IRE_SHIFT \<equiv> 5"
abbreviation (input) MSR_PSR_IMME_SHIFT :: nat where "MSR_PSR_IMME_SHIFT \<equiv> 6"
abbreviation (input) MSR_PSR_DMME_SHIFT :: nat where "MSR_PSR_DMME_SHIFT \<equiv> 7"
abbreviation (input) MSR_PSR_ICE_SHIFT :: nat where "MSR_PSR_ICE_SHIFT \<equiv> 8"
abbreviation (input) MSR_PSR_DCE_SHIFT :: nat where "MSR_PSR_DCE_SHIFT \<equiv> 9"
abbreviation (input) MSR_CPUID_VER_SHIFT :: nat where "MSR_CPUID_VER_SHIFT \<equiv> 0"
abbreviation (input) MSR_CPUID_REV_SHIFT :: nat where "MSR_CPUID_REV_SHIFT \<equiv> 8"
abbreviation (input) MSR_CPUID_FIMM_SHIFT :: nat where "MSR_CPUID_FIMM_SHIFT \<equiv> 18"
abbreviation (input) MSR_CPUID_FDMM_SHIFT :: nat where "MSR_CPUID_FDMM_SHIFT \<equiv> 19"
abbreviation (input) MSR_CPUID_FICA_SHIFT :: nat where "MSR_CPUID_FICA_SHIFT \<equiv> 20"
abbreviation (input) MSR_CPUID_FDCA_SHIFT :: nat where "MSR_CPUID_FDCA_SHIFT \<equiv> 21"
abbreviation (input) MSR_CPUID_FDBG_SHIFT :: nat where "MSR_CPUID_FDBG_SHIFT \<equiv> 22"
abbreviation (input) MSR_CPUID_FFPU_SHIFT :: nat where "MSR_CPUID_FFPU_SHIFT \<equiv> 23"
abbreviation (input) MSR_CPUID_FIRQC_SHIFT :: nat where "MSR_CPUID_FIRQC_SHIFT \<equiv> 24"
abbreviation (input) MSR_CPUID_FTSC_SHIFT :: nat where "MSR_CPUID_FTSC_SHIFT \<equiv> 25"
abbreviation (input) MSR_IMMID_STLB_SHIFT :: nat where "MSR_IMMID_STLB_SHIFT \<equiv> 0"
abbreviation (input) MSR_ITLBL_V_SHIFT :: nat where "MSR_ITLBL_V_SHIFT \<equiv> 0"
abbreviation (input) MSR_ITLBL_VPN_SHIFT :: nat where "MSR_ITLBL_VPN_SHIFT \<equiv> 13"
abbreviation (input) MSR_ITLBH_P_SHIFT :: nat where "MSR_ITLBH_P_SHIFT \<equiv> 0"
abbreviation (input) MSR_ITLBH_D_SHIFT :: nat where "MSR_ITLBH_D_SHIFT \<equiv> 1"
abbreviation (input) MSR_ITLBH_A_SHIFT :: nat where "MSR_ITLBH_A_SHIFT \<equiv> 2"
abbreviation (input) MSR_ITLBH_UX_SHIFT :: nat where "MSR_ITLBH_UX_SHIFT \<equiv> 3"
abbreviation (input) MSR_ITLBH_RX_SHIFT :: nat where "MSR_ITLBH_RX_SHIFT \<equiv> 4"
abbreviation (input) MSR_ITLBH_NC_SHIFT :: nat where "MSR_ITLBH_NC_SHIFT \<equiv> 7"
abbreviation (input) MSR_ITLBH_S_SHIFT :: nat where "MSR_ITLBH_S_SHIFT \<equiv> 8"
abbreviation (input) MSR_ITLBH_PPN_SHIFT :: nat where "MSR_ITLBH_PPN_SHIFT \<equiv> 13"
abbreviation (input) MSR_DMMID_STLB_SHIFT :: nat where "MSR_DMMID_STLB_SHIFT \<equiv> 0"
abbreviation (input) MSR_DTLBL_V_SHIFT :: nat where "MSR_DTLBL_V_SHIFT \<equiv> 0"
abbreviation (input) MSR_DTLBL_VPN_SHIFT :: nat where "MSR_DTLBL_VPN_SHIFT \<equiv> 13"
abbreviation (input) MSR_DTLBH_P_SHIFT :: nat where "MSR_DTLBH_P_SHIFT \<equiv> 0"
abbreviation (input) MSR_DTLBH_D_SHIFT :: nat where "MSR_DTLBH_D_SHIFT \<equiv> 1"
abbreviation (input) MSR_DTLBH_A_SHIFT :: nat where "MSR_DTLBH_A_SHIFT \<equiv> 2"
abbreviation (input) MSR_DTLBH_UW_SHIFT :: nat where "MSR_DTLBH_UW_SHIFT \<equiv> 3"
abbreviation (input) MSR_DTLBH_UR_SHIFT :: nat where "MSR_DTLBH_UR_SHIFT \<equiv> 4"
abbreviation (input) MSR_DTLBH_RW_SHIFT :: nat where "MSR_DTLBH_RW_SHIFT \<equiv> 5"
abbreviation (input) MSR_DTLBH_RR_SHIFT :: nat where "MSR_DTLBH_RR_SHIFT \<equiv> 6"
abbreviation (input) MSR_DTLBH_NC_SHIFT :: nat where "MSR_DTLBH_NC_SHIFT \<equiv> 7"
abbreviation (input) MSR_DTLBH_S_SHIFT :: nat where "MSR_DTLBH_S_SHIFT \<equiv> 8"
abbreviation (input) MSR_DTLBH_PPN_SHIFT :: nat where "MSR_DTLBH_PPN_SHIFT \<equiv> 13"
abbreviation (input) MSR_ICID_SS_SHIFT :: nat where "MSR_ICID_SS_SHIFT \<equiv> 0"
abbreviation (input) MSR_ICID_SL_SHIFT :: nat where "MSR_ICID_SL_SHIFT \<equiv> 4"
abbreviation (input) MSR_ICID_SW_SHIFT :: nat where "MSR_ICID_SW_SHIFT \<equiv> 8"
abbreviation (input) MSR_DCID_SS_SHIFT :: nat where "MSR_DCID_SS_SHIFT \<equiv> 0"
abbreviation (input) MSR_DCID_SL_SHIFT :: nat where "MSR_DCID_SL_SHIFT \<equiv> 4"
abbreviation (input) MSR_DCID_SW_SHIFT :: nat where "MSR_DCID_SW_SHIFT \<equiv> 8"
abbreviation (input) MSR_TCR_CNT_SHIFT :: nat where "MSR_TCR_CNT_SHIFT \<equiv> 0"
abbreviation (input) MSR_TCR_EN_SHIFT :: nat where "MSR_TCR_EN_SHIFT \<equiv> 28"
abbreviation (input) MSR_TCR_I_SHIFT :: nat where "MSR_TCR_I_SHIFT \<equiv> 29"
abbreviation (input) MSR_TCR_P_SHIFT :: nat where "MSR_TCR_P_SHIFT \<equiv> 30"
abbreviation (input) MSR_CPUID_VER :: u32 where "MSR_CPUID_VER \<equiv> 0xff"
abbreviation (input) MSR_CPUID_REV :: u32 where "MSR_CPUID_REV \<equiv> 0x3ff00"
abbreviation (input) MSR_IMMID_STLB :: u32 where "MSR_IMMID_STLB \<equiv> 0x7"
abbreviation (input) MSR_DMMID_STLB :: u32 where "MSR_DMMID_STLB \<equiv> 0x7"
abbreviation (input) MSR_ITLBL_VPN :: u32 where "MSR_ITLBL_VPN \<equiv> 0xffffe000"
abbreviation (input) MSR_ITLBH_PPN :: u32 where "MSR_ITLBH_PPN \<equiv> 0xffffe000"
abbreviation (input) MSR_DTLBL_VPN :: u32 where "MSR_DTLBL_VPN \<equiv> 0xffffe000"
abbreviation (input) MSR_DTLBH_PPN :: u32 where "MSR_DTLBH_PPN \<equiv> 0xffffe000"
abbreviation (input) MSR_ICID_SS :: u32 where "MSR_ICID_SS \<equiv> 0xf"
abbreviation (input) MSR_ICID_SL :: u32 where "MSR_ICID_SL \<equiv> 0xf0"
abbreviation (input) MSR_ICID_SW :: u32 where "MSR_ICID_SW \<equiv> 0xf00"
abbreviation (input) MSR_DCID_SS :: u32 where "MSR_DCID_SS \<equiv> 0xf"
abbreviation (input) MSR_DCID_SL :: u32 where "MSR_DCID_SL \<equiv> 0xf0"
abbreviation (input) MSR_DCID_SW :: u32 where "MSR_DCID_SW \<equiv> 0xf00"
abbreviation (input) MSR_TCR_CNT :: u32 where "MSR_TCR_CNT \<equiv> 0xfffffff"
abbreviation (input) MSR_SR_NUM :: nat where "MSR_SR_NUM \<equiv> 4"

section \<open>Decoding\<close>

record decoded =
  opcode :: u16
  rs1 :: u16
  rs2 :: u16
  rd :: u16
  uimm17 :: u32
  uimm15 :: u16
  simm15 :: u16
  rel15 :: u16
  rel25 :: u32

text \<open>
  \<open>uimm15\<close> is converted to \<open>int16_t\<close>, promoted to \<open>int\<close> for the exclusive or and
  the subtraction, and narrowed to \<open>int16_t\<close> again; on 16-bit words this is the same
  computation modulo \<open>2^16\<close>.
\<close>

definition decode :: "insn_t \<Rightarrow> decoded" where
  "decode insn =
     (let u15 = ucast (INS32_GET_BITS insn INS32_MASK_IMM15 INS32_SHIFTRIGHT_IMM15) :: u16 in
      \<lparr>opcode = ucast (INS32_GET_BITS insn INS32_MASK_OPCODE INS32_SHIFTRIGHT_OPCODE),
       rs1 = ucast (INS32_GET_BITS insn INS32_MASK_RS1 INS32_SHIFTRIGHT_RS1),
       rs2 = ucast (INS32_GET_BITS insn INS32_MASK_RS2 INS32_SHIFTRIGHT_RS2),
       rd = ucast (INS32_GET_BITS insn INS32_MASK_RD INS32_SHIFTRIGHT_RD),
       uimm17 = INS32_GET_BITS insn INS32_MASK_IMM17 INS32_SHIFTRIGHT_IMM17,
       uimm15 = u15,
       simm15 = (u15 XOR 0x4000) - 0x4000,
       rel15 = ucast (INS32_GET_BITS insn INS32_MASK_REL15 INS32_SHIFTRIGHT_REL15),
       rel25 = ins32_parse_rel25 insn\<rparr>)"

definition rel25_sig_ext :: "u32 \<Rightarrow> u32" where
  "rel25_sig_ext r = (push_bit INSN_LEN_SHIFT r XOR 0x4000000) - 0x4000000"

definition rel15_sig_ext :: "u16 \<Rightarrow> u32" where
  "rel15_sig_ext r = (push_bit INSN_LEN_SHIFT (ucast r) XOR 0x10000) - 0x10000"

section \<open>The formats and their decoding\<close>

text \<open>
  Specification of the instruction formats, over words of exactly the width of each field:
  bits 0 to 4 hold \<open>rd\<close>, 5 to 11 the opcode, 12 to 16 \<open>rs1\<close>, and the rest \<open>rs2\<close> or an immediate;
  the 25-bit jump offset occupies the \<open>rd\<close> field and bits 12 to 31.
\<close>

definition enc_fmt1 :: "7 word \<Rightarrow> 5 word \<Rightarrow> 5 word \<Rightarrow> 5 word \<Rightarrow> insn_t" where
  "enc_fmt1 opc d s1 s2 =
     ucast d OR push_bit 5 (ucast opc) OR push_bit 12 (ucast s1) OR push_bit 17 (ucast s2)"

definition enc_imm15 :: "7 word \<Rightarrow> 5 word \<Rightarrow> 5 word \<Rightarrow> 15 word \<Rightarrow> insn_t" where
  "enc_imm15 opc d s1 i =
     ucast d OR push_bit 5 (ucast opc) OR push_bit 12 (ucast s1) OR push_bit 17 (ucast i)"

definition enc_imm17 :: "7 word \<Rightarrow> 5 word \<Rightarrow> 17 word \<Rightarrow> insn_t" where
  "enc_imm17 opc d i = ucast d OR push_bit 5 (ucast opc) OR push_bit 15 (ucast i)"

definition enc_rel25 :: "7 word \<Rightarrow> 25 word \<Rightarrow> insn_t" where
  "enc_rel25 opc r =
     take_bit 5 (ucast r) OR push_bit 5 (ucast opc) OR push_bit 12 (drop_bit 5 (ucast r))"

lemma get_bits_field:
  "m = push_bit s (mask k) \<Longrightarrow> INS32_GET_BITS x m s = take_bit k (drop_bit s x)"
  unfolding INS32_GET_BITS_def by (rule field_bits)

lemmas get_bits =
  get_bits_field [of INS32_MASK_OPCODE INS32_SHIFTRIGHT_OPCODE 7]
  get_bits_field [of INS32_MASK_RD INS32_SHIFTRIGHT_RD 5]
  get_bits_field [of INS32_MASK_RS1 INS32_SHIFTRIGHT_RS1 5]
  get_bits_field [of INS32_MASK_RS2 INS32_SHIFTRIGHT_RS2 5]
  get_bits_field [of INS32_MASK_IMM15 INS32_SHIFTRIGHT_IMM15 15]
  get_bits_field [of INS32_MASK_IMM17 INS32_SHIFTRIGHT_IMM17 17]

lemma decode_fields:
  "opcode (decode i) = ucast (take_bit 7 (drop_bit 5 i))"
  "rs1 (decode i) = ucast (take_bit 5 (drop_bit 12 i))"
  "rs2 (decode i) = ucast (take_bit 5 (drop_bit 17 i))"
  "rd (decode i) = ucast (take_bit 5 i)"
  "uimm17 (decode i) = drop_bit 15 i"
  "uimm15 (decode i) = ucast (drop_bit 17 i)"
  "rel15 (decode i) = ucast (drop_bit 17 i)"
  by (simp_all add: decode_def Let_def get_bits mask_eq_exp_minus_1)
     (auto intro!: bit_eqI simp: bit_simps, auto dest!: bit_imp_le_length)

lemma simm15_decode: "simm15 (decode i) = (uimm15 (decode i) XOR 2 ^ 14) - 2 ^ 14"
  by (simp add: decode_def Let_def)

lemmas enc_defs = enc_fmt1_def enc_imm15_def enc_imm17_def enc_rel25_def

text \<open>Register numbers taken from an instruction are always below 32.\<close>

lemma decode_regs_less [simp]:
  "unat (rd (decode i)) < 32" "unat (rs1 (decode i)) < 32" "unat (rs2 (decode i)) < 32"
proof -
  have "unat (ucast (take_bit 5 x) :: u16) < 32" for x :: u32
  proof -
    have "unat (ucast (take_bit 5 x) :: u16) \<le> unat (take_bit 5 x)"
      by (simp add: unsigned_ucast_eq)
    also have "\<dots> < 2 ^ 5"
      by (simp only: unsigned_take_bit_eq) (rule take_bit_nat_less_exp)
    finally show ?thesis by simp
  qed
  then show "unat (rd (decode i)) < 32" "unat (rs1 (decode i)) < 32" "unat (rs2 (decode i)) < 32"
    by (simp_all add: decode_fields)
qed

lemma rel25_sig_ext_scast: "rel25_sig_ext (ucast r) = push_bit 2 (scast (r :: 25 word))"
proof -
  let ?r = "push_bit 2 (ucast r) :: 27 word"
  have "push_bit 2 (ucast r) = (ucast ?r :: u32)"
    by (rule bit_eqI) (auto simp: bit_simps dest: bit_imp_le_length)
  moreover have "(scast ?r :: u32) = push_bit 2 (scast r)"
    by (rule bit_eqI) (auto simp: bit_simps min_def split: if_splits)
  ultimately show ?thesis
    using xor_sub_sext [of 26 ?r, where 'b = 32] by (simp add: rel25_sig_ext_def)
qed

lemma rel15_sig_ext_scast: "rel15_sig_ext (ucast r) = push_bit 2 (scast (r :: 15 word))"
proof -
  let ?r = "push_bit 2 (ucast r) :: 17 word"
  have "push_bit 2 (ucast (ucast r :: u16)) = (ucast ?r :: u32)"
    by (rule bit_eqI) (auto simp: bit_simps dest: bit_imp_le_length)
  moreover have "(scast ?r :: u32) = push_bit 2 (scast r)"
    by (rule bit_eqI) (auto simp: bit_simps min_def split: if_splits)
  ultimately show ?thesis
    using xor_sub_sext [of 16 ?r, where 'b = 32] by (simp add: rel15_sig_ext_def)
qed

lemma parse_rel25_enc: "ins32_parse_rel25 (enc_rel25 opc r) = ucast r"
proof -
  have m: "(0x1f :: u32) = mask 5" "(0xfffff :: u32) = mask 20"
    by (simp_all add: mask_eq_exp_minus_1)
  show ?thesis
    unfolding ins32_parse_rel25_def enc_rel25_def m
    by (rule bit_eqI) (auto simp: bit_simps dest: bit_imp_le_length)
qed

text \<open>The three-register format.\<close>

lemma decode_enc_fmt1:
  "opcode (decode (enc_fmt1 opc d s1 s2)) = ucast opc \<and>
   rd (decode (enc_fmt1 opc d s1 s2)) = ucast d \<and>
   rs1 (decode (enc_fmt1 opc d s1 s2)) = ucast s1 \<and>
   rs2 (decode (enc_fmt1 opc d s1 s2)) = ucast s2"
  unfolding decode_fields enc_defs
  by (intro conjI; rule bit_eqI; auto simp: bit_simps; auto dest!: bit_imp_le_length)

text \<open>The immediate format: the displacement of a branch is the sign-extended immediate times four.\<close>

lemma decode_enc_imm15:
  "opcode (decode (enc_imm15 opc d s1 i)) = ucast opc \<and>
   rd (decode (enc_imm15 opc d s1 i)) = ucast d \<and>
   rs1 (decode (enc_imm15 opc d s1 i)) = ucast s1 \<and>
   uimm15 (decode (enc_imm15 opc d s1 i)) = ucast i \<and>
   simm15 (decode (enc_imm15 opc d s1 i)) = scast i \<and>
   rel15_sig_ext (rel15 (decode (enc_imm15 opc d s1 i))) = push_bit 2 (scast i)"
proof -
  have u: "(ucast (drop_bit 17 (enc_imm15 opc d s1 i)) :: u16) = ucast i"
    unfolding enc_defs
    by (rule bit_eqI; auto simp: bit_simps; auto dest!: bit_imp_le_length)
  have f: "opcode (decode (enc_imm15 opc d s1 i)) = ucast opc \<and>
      rd (decode (enc_imm15 opc d s1 i)) = ucast d \<and>
      rs1 (decode (enc_imm15 opc d s1 i)) = ucast s1"
    unfolding decode_fields enc_defs
    by (intro conjI; rule bit_eqI; auto simp: bit_simps; auto dest!: bit_imp_le_length)
  have "simm15 (decode (enc_imm15 opc d s1 i)) = scast i"
    using xor_sub_sext [of 14 i, where 'b = 16] by (simp add: simm15_decode decode_fields u)
  with f show ?thesis
    by (simp add: decode_fields u rel15_sig_ext_scast)
qed

text \<open>The format with a 17-bit immediate.\<close>

lemma decode_enc_imm17:
  "opcode (decode (enc_imm17 opc d j)) = ucast opc \<and> rd (decode (enc_imm17 opc d j)) = ucast d \<and>
   uimm17 (decode (enc_imm17 opc d j)) = ucast j"
  unfolding decode_fields enc_defs
  by (intro conjI; rule bit_eqI; auto simp: bit_simps; auto dest!: bit_imp_le_length)

text \<open>The long-jump format, whose 25-bit offset is split over two fields.\<close>

lemma decode_enc_rel25:
  "opcode (decode (enc_rel25 opc r)) = ucast opc \<and>
   rel25_sig_ext (rel25 (decode (enc_rel25 opc r))) = push_bit 2 (scast r)"
proof -
  have "opcode (decode (enc_rel25 opc r)) = ucast opc"
    unfolding decode_fields enc_defs
    by (rule bit_eqI; auto simp: bit_simps; auto dest!: bit_imp_le_length)
  moreover have "rel25 (decode i) = ins32_parse_rel25 i" for i
    by (simp add: decode_def Let_def)
  ultimately show ?thesis
    by (simp add: parse_rel25_enc rel25_sig_ext_scast)
qed

text \<open>
  Claim C21: decoding inverts encoding. In the three-register format the opcode and the register numbers are exactly those encoded. In the immediate format
  the unsigned immediate is zero-extended, the signed one is the sign extension of the 15 encoded bits, and the
  branch displacement is the sign-extended immediate times four. In the format with a 17-bit immediate it is zero-extended. In the long-jump format the displacement is the sign-extended 25-bit offset times four.
\<close>

theorem decode_enc:
  "(opcode (decode (enc_fmt1 opc d s1 s2)) = ucast opc \<and> rd (decode (enc_fmt1 opc d s1 s2)) = ucast d \<and>
    rs1 (decode (enc_fmt1 opc d s1 s2)) = ucast s1 \<and> rs2 (decode (enc_fmt1 opc d s1 s2)) = ucast s2) \<and>
   (opcode (decode (enc_imm15 opc d s1 i)) = ucast opc \<and> rd (decode (enc_imm15 opc d s1 i)) = ucast d \<and>
    rs1 (decode (enc_imm15 opc d s1 i)) = ucast s1 \<and> uimm15 (decode (enc_imm15 opc d s1 i)) = ucast i \<and>
    simm15 (decode (enc_imm15 opc d s1 i)) = scast i \<and>
    rel15_sig_ext (rel15 (decode (enc_imm15 opc d s1 i))) = push_bit 2 (scast i)) \<and>
   (opcode (decode (enc_imm17 opc d j)) = ucast opc \<and> rd (decode (enc_imm17 opc d j)) = ucast d \<and>
    uimm17 (decode (enc_imm17 opc d j)) = ucast j) \<and>
   (opcode (decode (enc_rel25 opc r)) = ucast opc \<and>
    rel25_sig_ext (rel25 (decode (enc_rel25 opc r))) = push_bit 2 (scast r))"
  using decode_enc_fmt1 decode_enc_imm15 decode_enc_imm17 decode_enc_rel25 by simp

end
