(* ===== verification/MsrState.thy ===== *)
theory MsrState
  imports Isa
begin

text \<open>
  The architectural state declared in \<open>em/csrc/cpu.hh\<close>: the register structures of the
  model-specific registers, their container \<open>msr_s\<close> and its \<open>reset\<close>; and the interrupt
  controller of \<open>em/csrc/irqc.cc\<close>, whose whole state are the registers \<open>IRR\<close> and \<open>IMR\<close>.
  The one-byte flags of the structures only ever hold 0 or 1 and are only tested for being nonzero,
  so they are \<open>bool\<close>. What \<open>msr_s::reset\<close> does not assign keeps the value it had, which
  after construction is indeterminate: reset is therefore a function of the old state.
\<close>

section \<open>Status codes of \<open>common.hh\<close>\<close>

abbreviation (input) EM_TLB_MISS :: int where "EM_TLB_MISS \<equiv> 3"
abbreviation (input) EM_PAGE_FAULT :: int where "EM_PAGE_FAULT \<equiv> 4"
abbreviation (input) EM_IRQ :: int where "EM_IRQ \<equiv> 5"
abbreviation (input) EM_ALIGN_FAULT :: int where "EM_ALIGN_FAULT \<equiv> 6"

section \<open>Registers\<close>

record psr_s =
  psr_CY :: bool
  psr_OV :: bool
  psr_OE :: bool
  psr_RM :: bool
  psr_IRE :: bool
  psr_IMME :: bool
  psr_DMME :: bool
  psr_ICE :: bool
  psr_DCE :: bool

record itlbl_s =
  itlbl_V :: bool
  itlbl_VPN :: vm_addr_t

record itlbh_s =
  itlbh_P :: bool
  itlbh_D :: bool
  itlbh_A :: bool
  itlbh_UX :: bool
  itlbh_RX :: bool
  itlbh_NC :: bool
  itlbh_S :: bool
  itlbh_PPN :: vm_addr_t

record dtlbl_s =
  dtlbl_V :: bool
  dtlbl_VPN :: vm_addr_t

record dtlbh_s =
  dtlbh_P :: bool
  dtlbh_D :: bool
  dtlbh_A :: bool
  dtlbh_UW :: bool
  dtlbh_UR :: bool
  dtlbh_RW :: bool
  dtlbh_RR :: bool
  dtlbh_NC :: bool
  dtlbh_S :: bool
  dtlbh_PPN :: vm_addr_t

record tcr_s =
  tcr_CNT :: u32
  tcr_EN :: bool
  tcr_I :: bool
  tcr_P :: bool

record msr_s =
  PSR :: psr_s
  EPSR :: psr_s
  EPC :: vm_addr_t
  ELSA :: vm_addr_t
  EVECT :: vm_addr_t
  ITLBL :: "itlbl_s list"
  ITLBH :: "itlbh_s list"
  DTLBL :: "dtlbl_s list"
  DTLBH :: "dtlbh_s list"
  TSR :: cpu_unsigned_word_t
  TCR :: tcr_s
  IMR :: cpu_unsigned_word_t
  IRR :: cpu_unsigned_word_t
  SR :: "cpu_word_t list"

definition psr_reset :: psr_s where
  "psr_reset = \<lparr>psr_CY = False, psr_OV = False, psr_OE = False, psr_RM = True, psr_IRE = False,
     psr_IMME = False, psr_DMME = False, psr_ICE = False, psr_DCE = False\<rparr>"

definition msr_reset :: "msr_s \<Rightarrow> msr_s" where
  "msr_reset m = m\<lparr>PSR := psr_reset, EVECT := 0, TSR := 0, IMR := 0xffffffff, IRR := 0\<rparr>"

text \<open>
  The arrays have the lengths they are allocated with: \<open>immu_tlb_count\<close>,
  \<open>dmmu_tlb_count\<close> and \<open>MSR_SR_NUM\<close>.
\<close>

definition msr_wf :: "nat \<Rightarrow> nat \<Rightarrow> msr_s \<Rightarrow> bool" where
  "msr_wf ni nd m \<longleftrightarrow>
     length (ITLBL m) = ni \<and> length (ITLBH m) = ni \<and>
     length (DTLBL m) = nd \<and> length (DTLBH m) = nd \<and> length (SR m) = MSR_SR_NUM"

text \<open>All-zero registers, used as a concrete state.\<close>

definition msr_zero :: "nat \<Rightarrow> nat \<Rightarrow> msr_s" where
  "msr_zero ni nd =
     \<lparr>PSR = psr_reset, EPSR = psr_reset, EPC = 0, ELSA = 0, EVECT = 0,
      ITLBL = replicate ni \<lparr>itlbl_V = False, itlbl_VPN = 0\<rparr>,
      ITLBH = replicate ni \<lparr>itlbh_P = False, itlbh_D = False, itlbh_A = False, itlbh_UX = False,
        itlbh_RX = False, itlbh_NC = False, itlbh_S = False, itlbh_PPN = 0\<rparr>,
      DTLBL = replicate nd \<lparr>dtlbl_V = False, dtlbl_VPN = 0\<rparr>,
      DTLBH = replicate nd \<lparr>dtlbh_P = False, dtlbh_D = False, dtlbh_A = False, dtlbh_UW = False,
        dtlbh_UR = False, dtlbh_RW = False, dtlbh_RR = False, dtlbh_NC = False, dtlbh_S = False,
        dtlbh_PPN = 0\<rparr>,
      TSR = 0, TCR = \<lparr>tcr_CNT = 0, tcr_EN = False, tcr_I = False, tcr_P = False\<rparr>,
      IMR = 0, IRR = 0, SR = replicate MSR_SR_NUM 0\<rparr>"

lemma msr_wf_zero [simp]: "msr_wf ni nd (msr_zero ni nd)"
  by (simp add: msr_wf_def msr_zero_def)

lemma msr_wf_reset [simp]: "msr_wf ni nd (msr_reset m) = msr_wf ni nd m"
  by (simp add: msr_wf_def msr_reset_def)

text \<open>The scalar registers do not matter for it.\<close>

lemma msr_wf_frame [simp]:
  "msr_wf ni nd (m\<lparr>PSR := p\<rparr>) = msr_wf ni nd m" "msr_wf ni nd (m\<lparr>EPSR := p\<rparr>) = msr_wf ni nd m"
  "msr_wf ni nd (m\<lparr>EPC := a\<rparr>) = msr_wf ni nd m" "msr_wf ni nd (m\<lparr>ELSA := a\<rparr>) = msr_wf ni nd m"
  "msr_wf ni nd (m\<lparr>EVECT := a\<rparr>) = msr_wf ni nd m" "msr_wf ni nd (m\<lparr>TSR := v\<rparr>) = msr_wf ni nd m"
  "msr_wf ni nd (m\<lparr>TCR := t\<rparr>) = msr_wf ni nd m" "msr_wf ni nd (m\<lparr>IMR := v\<rparr>) = msr_wf ni nd m"
  "msr_wf ni nd (m\<lparr>IRR := v\<rparr>) = msr_wf ni nd m"
  by (simp_all add: msr_wf_def)

section \<open>Interrupt controller\<close>

text \<open>
  \<open>channel\<close> is an \<open>int\<close> that can come from the command line (\<open>--irq-tsc\<close>): shifting 1 by
  a count outside 0 to 31 is undefined.
\<close>

definition irq_bit :: "int \<Rightarrow> halt + u32" where
  "irq_bit channel =
     (if 0 \<le> channel \<and> channel < 32 then Inr (push_bit (nat channel) 1) else Inl Undefined)"

definition irqc_set_interrupt :: "int \<Rightarrow> bool \<Rightarrow> msr_s \<Rightarrow> halt + msr_s" where
  "irqc_set_interrupt channel raise m =
     bnd (irq_bit channel) (\<lambda>b.
       if raise then Inr (m\<lparr>IRR := IRR m OR b\<rparr>) else Inr (m\<lparr>IRR := IRR m AND NOT b\<rparr>))"

definition irqc_set_irr :: "cpu_unsigned_word_t \<Rightarrow> msr_s \<Rightarrow> msr_s" where
  "irqc_set_irr val m = m\<lparr>IRR := val\<rparr>"

definition irqc_is_masked :: "int \<Rightarrow> msr_s \<Rightarrow> halt + u32" where
  "irqc_is_masked channel m = bnd (irq_bit channel) (\<lambda>b. Inr (IMR m AND b))"

definition irqc_handle_irqs :: "msr_s \<Rightarrow> int" where
  "irqc_handle_irqs m =
     (if psr_IRE (PSR m) \<and> (IRR m AND NOT (IMR m)) \<noteq> 0 then - EM_IRQ else 0)"

lemma irq_bit_valid: "0 \<le> ch \<Longrightarrow> ch < 32 \<Longrightarrow> irq_bit ch = Inr (push_bit (nat ch) 1)"
  by (simp add: irq_bit_def)

lemma bit_irq_bit: "bit ((2 :: u32) ^ k) n \<longleftrightarrow> n = k \<and> k < 32"
  by (auto simp: bit_simps)

text \<open>The lines of \<open>IRR\<close> after one call: the channel's line follows the level, the others stay.\<close>

lemma irqc_set_interrupt_lines:
  assumes "0 \<le> ch" "ch < 32"
  obtains irr where "irqc_set_interrupt ch r m = Inr (m\<lparr>IRR := irr\<rparr>)"
    and "\<And>n. bit irr n = (if n = nat ch then r else bit (IRR m) n)"
proof (rule that)
  let ?b = "2 ^ nat ch :: u32"
  let ?irr = "if r then IRR m OR ?b else IRR m AND NOT ?b"
  show "irqc_set_interrupt ch r m = Inr (m\<lparr>IRR := ?irr\<rparr>)"
    using assms by (simp add: irqc_set_interrupt_def irq_bit_valid)
  show "bit ?irr n = (if n = nat ch then r else bit (IRR m) n)" for n
    using assms by (auto simp: bit_or_iff bit_and_not bit_irq_bit)
qed

lemma irqc_set_interrupt_valid: "0 \<le> ch \<Longrightarrow> ch < 32 \<Longrightarrow> \<exists>irr. irqc_set_interrupt ch r m = Inr (m\<lparr>IRR := irr\<rparr>)"
  by (rule irqc_set_interrupt_lines) blast+

text \<open>
  An interrupt is taken exactly when interrupts are enabled and some line is requested in
  \<open>IRR\<close> and not masked in \<open>IMR\<close>.
\<close>

lemma irqc_handle_irqs_iff:
  "irqc_handle_irqs m = - EM_IRQ \<longleftrightarrow>
     psr_IRE (PSR m) \<and> (\<exists>ch. bit (IRR m) ch \<and> \<not> bit (IMR m) ch)"
  by (simp add: irqc_handle_irqs_def word_nonzero_iff bit_and_not)

end
