(* ===== verification/Tsc.thy ===== *)
theory Tsc
  imports MsrState
begin

text \<open>
  The timer of \<open>em/csrc/tsc.cc\<close>: the counter \<open>TSR\<close>, the control register \<open>TCR\<close> (compare value,
  enable, interrupt enable, pending flag) and the interrupt line \<open>IRQ_TSC\<close>. The main result says
  after exactly how many clock edges the timer becomes pending, across the wrap-around of the
  32-bit counter.
\<close>

abbreviation (input) CNT_MASK :: u32 where "CNT_MASK \<equiv> 0x0fffffff"

definition tsc_update_tcr :: "int \<Rightarrow> msr_s \<Rightarrow> halt + msr_s" where
  "tsc_update_tcr IRQ_TSC m = irqc_set_interrupt IRQ_TSC (tcr_P (TCR m) \<and> tcr_I (TCR m)) m"

definition tsc_clk :: "int \<Rightarrow> msr_s \<Rightarrow> halt + msr_s" where
  "tsc_clk IRQ_TSC m =
     (if tcr_EN (TCR m) then
        bnd (if tcr_I (TCR m) \<and> (TSR m AND CNT_MASK) = tcr_CNT (TCR m)
             then tsc_update_tcr IRQ_TSC (m\<lparr>TCR := (TCR m)\<lparr>tcr_P := True\<rparr>\<rparr>)
             else Inr m) (\<lambda>m1.
        Inr (m1\<lparr>TSR := TSR m1 + 1\<rparr>))
      else Inr m)"

abbreviation tsc_clks :: "int \<Rightarrow> nat \<Rightarrow> msr_s \<Rightarrow> halt + msr_s" where
  "tsc_clks ch \<equiv> iterE (tsc_clk ch)"

lemma tsc_clk_idle:
  assumes "tcr_EN (TCR m)" and "(TSR m AND CNT_MASK) \<noteq> tcr_CNT (TCR m)"
  shows "tsc_clk ch m = Inr (m\<lparr>TSR := TSR m + 1\<rparr>)"
  using assms by (simp add: tsc_clk_def)

lemma tsc_clks_idle:
  assumes "tcr_EN (TCR m)"
    and "\<And>i. i < n \<Longrightarrow> (TSR m + of_nat i) AND CNT_MASK \<noteq> tcr_CNT (TCR m)"
  shows "tsc_clks ch n m = Inr (m\<lparr>TSR := TSR m + of_nat n\<rparr>)"
  using assms
proof (induction n arbitrary: m)
  case 0
  then show ?case by simp
next
  case (Suc n)
  let ?m = "m\<lparr>TSR := TSR m + 1\<rparr>"
  from Suc.prems(2) [of 0] Suc.prems(1) have "tsc_clk ch m = Inr ?m"
    by (simp add: tsc_clk_idle)
  moreover have "tsc_clks ch n ?m = Inr (?m\<lparr>TSR := TSR ?m + of_nat n\<rparr>)"
  proof (rule Suc.IH)
    show "tcr_EN (TCR ?m)" using Suc.prems(1) by simp
    fix i assume "i < n"
    with Suc.prems(2) [of "Suc i"]
    show "(TSR ?m + of_nat i) AND CNT_MASK \<noteq> tcr_CNT (TCR ?m)"
      by (simp add: algebra_simps)
  qed
  ultimately show ?case by (simp add: algebra_simps)
qed

text \<open>The number of edges until the low 28 bits of the counter equal the compare value.\<close>

definition ticks_to_match :: "msr_s \<Rightarrow> nat" where
  "ticks_to_match m = unat ((tcr_CNT (TCR m) - TSR m) AND CNT_MASK)"

lemma unat_cnt_mask: "unat (x AND CNT_MASK) = unat x mod 2 ^ 28" for x :: u32
  using unat_and_mask_mod [of x 28] by simp

lemma cnt_match_iff:
  fixes t c :: u32
  assumes "unat c < 2 ^ 28"
  shows "(t + of_nat i) AND CNT_MASK = c \<longleftrightarrow> (unat t + i) mod 2 ^ 28 = unat c"
proof -
  have "unat (t + of_nat i) mod 2 ^ 28 = (unat t + i) mod 2 ^ 28"
  proof -
    have d: "(2::nat) ^ 28 dvd 2 ^ 32" by (rule le_imp_power_dvd) simp
    have "unat (t + of_nat i) = (unat t + i) mod 2 ^ 32"
      by (simp add: unat_word_ariths unat_of_nat mod_simps)
    then show ?thesis using mod_mod_cancel [OF d] by metis
  qed
  then show ?thesis by (simp add: word_unat_eq_iff unat_cnt_mask)
qed

lemma ticks_to_match_nat:
  assumes "unat (tcr_CNT (TCR m)) < 2 ^ 28"
  shows "int (ticks_to_match m) = (int (unat (tcr_CNT (TCR m))) - int (unat (TSR m))) mod 2 ^ 28"
proof -
  let ?c = "tcr_CNT (TCR m)" and ?t = "TSR m"
  have d: "(2::int) ^ 28 dvd 2 ^ 32" by (rule le_imp_power_dvd) simp
  have "int (unat (?c - ?t)) = (int (unat ?c) - int (unat ?t)) mod 2 ^ 32"
    by (simp add: uint_word_ariths of_nat_unat)
  then have "int (unat (?c - ?t)) mod 2 ^ 28 = (int (unat ?c) - int (unat ?t)) mod 2 ^ 28"
    using mod_mod_cancel [OF d] by metis
  then show ?thesis by (simp add: ticks_to_match_def unat_cnt_mask zmod_int)
qed

lemma ticks_to_match_least:
  assumes c: "unat (tcr_CNT (TCR m)) < 2 ^ 28"
  shows "(TSR m + of_nat (ticks_to_match m)) AND CNT_MASK = tcr_CNT (TCR m)"
    and "i < ticks_to_match m \<Longrightarrow> (TSR m + of_nat i) AND CNT_MASK \<noteq> tcr_CNT (TCR m)"
proof -
  let ?c = "int (unat (tcr_CNT (TCR m)))" and ?t = "int (unat (TSR m))"
  note n = ticks_to_match_nat [OF c]
  have lt: "ticks_to_match m < 2 ^ 28"
    by (simp add: ticks_to_match_def unat_cnt_mask)
  have "int ((unat (TSR m) + j) mod 2 ^ 28) = ?c \<longleftrightarrow> j = ticks_to_match m" if "j < 2 ^ 28" for j
  proof -
    have cc: "?c = ?c mod 2 ^ 28" using c by (metis mod_less of_nat_mod of_nat_numeral of_nat_power)
    have "int ((unat (TSR m) + j) mod 2 ^ 28) = ?c \<longleftrightarrow> (?t + int j) mod 2 ^ 28 = ?c mod 2 ^ 28"
      using cc by (simp add: zmod_int)
    also have "\<dots> \<longleftrightarrow> int j mod 2 ^ 28 = (?c - ?t) mod 2 ^ 28"
      by (simp add: mod_eq_dvd_iff algebra_simps)
    also have "\<dots> \<longleftrightarrow> j = ticks_to_match m"
    proof -
      have "int j mod 2 ^ 28 = int j" using that by simp
      then show ?thesis by (simp only: n [symmetric] of_nat_eq_iff)
    qed
    finally show ?thesis .
  qed
  then have *: "j < 2 ^ 28 \<Longrightarrow> (unat (TSR m) + j) mod 2 ^ 28 = unat (tcr_CNT (TCR m)) \<longleftrightarrow>
      j = ticks_to_match m" for j
    by (metis of_nat_eq_iff)
  show "(TSR m + of_nat (ticks_to_match m)) AND CNT_MASK = tcr_CNT (TCR m)"
    using * lt by (simp add: cnt_match_iff [OF c])
  show "i < ticks_to_match m \<Longrightarrow> (TSR m + of_nat i) AND CNT_MASK \<noteq> tcr_CNT (TCR m)"
    using * lt by (simp add: cnt_match_iff [OF c])
qed

text \<open>
  Claim C20: with the timer and its interrupt enabled, nothing pending, and a compare value of at most 28
  bits, the pending flag stays clear for exactly \<open>ticks_to_match\<close> clock edges and
  the next edge sets it and raises the timer's interrupt line, whatever the counter's value:
  the wrap-around of the counter does not lose a match.
\<close>

theorem tsc_fires_on_time:
  assumes "tcr_EN (TCR m)" and "tcr_I (TCR m)" and "\<not> tcr_P (TCR m)"
    and c: "unat (tcr_CNT (TCR m)) < 2 ^ 28" and ch: "0 \<le> ch" "ch < 32"
  shows "(\<forall>n \<le> ticks_to_match m. \<exists>m'. tsc_clks ch n m = Inr m' \<and> \<not> tcr_P (TCR m') \<and> IRR m' = IRR m) \<and>
    (\<exists>m'. tsc_clks ch (Suc (ticks_to_match m)) m = Inr m' \<and> tcr_P (TCR m') \<and>
       bit (IRR m') (nat ch) \<and> TSR m' = TSR m + of_nat (Suc (ticks_to_match m)))"
proof (intro conjI allI impI)
  have idle: "tsc_clks ch n m = Inr (m\<lparr>TSR := TSR m + of_nat n\<rparr>)" if "n \<le> ticks_to_match m" for n
    using assms(1) that ticks_to_match_least(2) [OF c] by (intro tsc_clks_idle) auto
  show "\<exists>m'. tsc_clks ch n m = Inr m' \<and> \<not> tcr_P (TCR m') \<and> IRR m' = IRR m"
    if "n \<le> ticks_to_match m" for n
    using idle [OF that] assms(3) by simp
  let ?m = "m\<lparr>TSR := TSR m + of_nat (ticks_to_match m)\<rparr>"
  let ?p = "?m\<lparr>TCR := (TCR m)\<lparr>tcr_P := True\<rparr>\<rparr>"
  obtain irr where irr: "irqc_set_interrupt ch True ?p = Inr (?p\<lparr>IRR := irr\<rparr>)" "bit irr (nat ch)"
    using irqc_set_interrupt_lines [OF ch, of True ?p] by metis
  then have "tsc_clk ch ?m = Inr (?p\<lparr>IRR := irr, TSR := TSR ?m + 1\<rparr>)"
    using assms(1,2) ticks_to_match_least(1) [OF c] by (simp add: tsc_clk_def tsc_update_tcr_def)
  then have "tsc_clks ch (Suc (ticks_to_match m)) m = Inr (?p\<lparr>IRR := irr, TSR := TSR ?m + 1\<rparr>)"
    using idle [of "ticks_to_match m"] by (simp add: iterE_Suc_right del: iterE.simps)
  then show "\<exists>m'. tsc_clks ch (Suc (ticks_to_match m)) m = Inr m' \<and> tcr_P (TCR m') \<and>
       bit (IRR m') (nat ch) \<and> TSR m' = TSR m + of_nat (Suc (ticks_to_match m))"
    using irr(2) by (simp add: algebra_simps del: iterE.simps)
qed

definition msr_near_wrap :: msr_s where
  "msr_near_wrap = (msr_zero 1 1)\<lparr>TSR := 0xfffffffe,
     TCR := \<lparr>tcr_CNT = 3, tcr_EN = True, tcr_I = True, tcr_P = False\<rparr>\<rparr>"

theorem tsc_fires_on_time_witness:
  "ticks_to_match msr_near_wrap = 5 \<and>
   (\<exists>m'. tsc_clks 0 6 msr_near_wrap = Inr m' \<and> tcr_P (TCR m') \<and> bit (IRR m') 0 \<and> TSR m' = 4)"
proof -
  have t: "ticks_to_match msr_near_wrap = 5"
    by (simp add: ticks_to_match_def msr_near_wrap_def)
  have "tcr_EN (TCR msr_near_wrap)" "tcr_I (TCR msr_near_wrap)" "\<not> tcr_P (TCR msr_near_wrap)"
    "unat (tcr_CNT (TCR msr_near_wrap)) < 2 ^ 28" "TSR msr_near_wrap = 0xfffffffe"
    by (simp_all add: msr_near_wrap_def)
  with tsc_fires_on_time [of msr_near_wrap 0] t show ?thesis
    by (auto simp del: iterE.simps)
qed

end
