(* ===== verification/Mmu.thy ===== *)
theory Mmu
  imports MsrState
begin

text \<open>
  Address translation, \<open>em/csrc/mmu.cc\<close>: the direct-mapped data and instruction TLBs. Both functions
  return the status code, the physical address (\<open>None\<close> where \<open>*pa\<close> is not assigned) and the \<open>uncached\<close> flag. The
  TLB size is the \<open>int\<close> given to the constructor; the index is masked in 32-bit unsigned arithmetic and
  the table accesses are checked.
\<close>

section \<open>Definitions\<close>

abbreviation (input) VPN_SHIFT :: nat where "VPN_SHIFT \<equiv> 13"
abbreviation (input) PPN_SHIFT :: nat where "PPN_SHIFT \<equiv> 13"

text \<open>\<open>offset = vpn & (tlb_count - 1)\<close>\<close>

definition tlb_offset :: "int \<Rightarrow> vm_addr_t \<Rightarrow> nat" where
  "tlb_offset tlb_count vpn = unat (vpn AND (word_of_int tlb_count - 1))"

definition page_pa :: "vm_addr_t \<Rightarrow> vm_addr_t \<Rightarrow> phy_addr_t" where
  "page_pa ppn va = push_bit PPN_SHIFT ppn OR (va AND (push_bit PPN_SHIFT 1 - 1))"

definition dmmu_translate_vma ::
  "int \<Rightarrow> bool \<Rightarrow> msr_s \<Rightarrow> vm_addr_t \<Rightarrow> bool \<Rightarrow> halt + int \<times> phy_addr_t option \<times> bool" where
  "dmmu_translate_vma tlb_count uncached_seg m va store_insn =
     bnd (if psr_DMME (PSR m) then
            let vpn = drop_bit VPN_SHIFT va; offset = tlb_offset tlb_count vpn in
            bnd (nthE (DTLBL m) offset) (\<lambda>lo.
            if dtlbl_V lo \<and> dtlbl_VPN lo = vpn then
              bnd (nthE (DTLBH m) offset) (\<lambda>hi.
              if (if psr_RM (PSR m)
                  then (store_insn \<and> \<not> dtlbh_RW hi) \<or> (\<not> store_insn \<and> \<not> dtlbh_RR hi)
                  else (store_insn \<and> \<not> dtlbh_UW hi) \<or> (\<not> store_insn \<and> \<not> dtlbh_UR hi))
              then Inr (- EM_PAGE_FAULT, None, False)
              else Inr (0, Some (page_pa (dtlbh_PPN hi) va),
                     if uncached_seg
                     then dtlbh_NC hi \<or> drop_bit (32 - PPN_SHIFT - 1) (dtlbh_PPN hi) AND 0x1 = 0
                     else dtlbh_NC hi))
            else Inr (- EM_TLB_MISS, None, False))
          else Inr (0, Some va, uncached_seg \<and> drop_bit (32 - 1) va = 0))
     (\<lambda>(ret, pa, uncached). Inr (ret, pa, \<not> psr_DCE (PSR m) \<or> uncached))"

definition immu_translate_vma ::
  "int \<Rightarrow> bool \<Rightarrow> msr_s \<Rightarrow> vm_addr_t \<Rightarrow> halt + int \<times> phy_addr_t option \<times> bool" where
  "immu_translate_vma tlb_count uncached_seg m va =
     bnd (if psr_IMME (PSR m) then
            let vpn = drop_bit VPN_SHIFT va; offset = tlb_offset tlb_count vpn in
            bnd (nthE (ITLBL m) offset) (\<lambda>lo.
            if itlbl_V lo \<and> itlbl_VPN lo = vpn then
              bnd (nthE (ITLBH m) offset) (\<lambda>hi.
              if (psr_RM (PSR m) \<and> \<not> itlbh_RX hi) \<or> (\<not> psr_RM (PSR m) \<and> \<not> itlbh_UX hi)
              then Inr (- EM_PAGE_FAULT, None, False)
              else Inr (0, Some (page_pa (itlbh_PPN hi) va),
                     if uncached_seg
                     then itlbh_NC hi \<or> drop_bit (32 - PPN_SHIFT - 1) (itlbh_PPN hi) AND 0x1 = 0
                     else itlbh_NC hi))
            else Inr (- EM_TLB_MISS, None, False))
          else Inr (0, Some va, uncached_seg \<and> drop_bit (32 - 1) va = 0))
     (\<lambda>(ret, pa, uncached). Inr (ret, pa, \<not> psr_ICE (PSR m) \<or> uncached))"

section \<open>The specification: a page table of one entry per slot\<close>

text \<open>
  What a TLB promises, independently of the masking: the entry in the slot of a virtual page number,
  taken modulo the number of slots, translates exactly the pages whose number it holds.
\<close>

datatype 'p translation = Miss | Fault | Page 'p

definition dtlb_lookup :: "msr_s \<Rightarrow> nat \<Rightarrow> vm_addr_t \<Rightarrow> bool \<Rightarrow> dtlbh_s translation" where
  "dtlb_lookup m n va st =
     (let i = unat va div 2 ^ 13 mod n; lo = DTLBL m ! i; hi = DTLBH m ! i in
      if \<not> (dtlbl_V lo \<and> unat (dtlbl_VPN lo) = unat va div 2 ^ 13) then Miss
      else if (if psr_RM (PSR m) then if st then dtlbh_RW hi else dtlbh_RR hi
               else if st then dtlbh_UW hi else dtlbh_UR hi) then Page hi
      else Fault)"

definition itlb_lookup :: "msr_s \<Rightarrow> nat \<Rightarrow> vm_addr_t \<Rightarrow> itlbh_s translation" where
  "itlb_lookup m n va =
     (let i = unat va div 2 ^ 13 mod n; lo = ITLBL m ! i; hi = ITLBH m ! i in
      if \<not> (itlbl_V lo \<and> unat (itlbl_VPN lo) = unat va div 2 ^ 13) then Miss
      else if (if psr_RM (PSR m) then itlbh_RX hi else itlbh_UX hi) then Page hi
      else Fault)"

lemma tlb_offset_mod: "n = 2 ^ k \<Longrightarrow> tlb_offset (int n) vpn = unat vpn mod n"
proof -
  assume n: "n = 2 ^ k"
  have "(word_of_int (int n) :: u32) - 1 = 2 ^ k - 1" by (simp add: n)
  then show ?thesis unfolding tlb_offset_def by (simp only: unat_and_mask_mod n)
qed

lemma vpn_eq: "v = drop_bit VPN_SHIFT va \<longleftrightarrow> unat v = unat va div 2 ^ 13" for v va :: u32
  by (simp add: word_unat_eq_iff unat_drop_bit)

text \<open>The page offset is the low 13 bits of the virtual address, whatever the page number.\<close>

lemma page_pa_nat:
  "unat (page_pa ppn va) mod 2 ^ 13 = unat va mod 2 ^ 13"
  "unat ppn < 2 ^ 19 \<Longrightarrow> unat (page_pa ppn va) = unat ppn * 2 ^ 13 + unat va mod 2 ^ 13"
proof -
  have m: "va AND (push_bit PPN_SHIFT 1 - 1) = take_bit 13 va"
    by (simp add: take_bit_eq_mask mask_eq_exp_minus_1)
  have t: "take_bit 13 (page_pa ppn va) = take_bit 13 va"
    unfolding page_pa_def m by (rule bit_eqI) (auto simp: bit_simps)
  have u: "unat (take_bit 13 w) = unat w mod 2 ^ 13" for w :: u32
    by (simp only: unsigned_take_bit_eq) (simp add: take_bit_eq_mod)
  show "unat (page_pa ppn va) mod 2 ^ 13 = unat va mod 2 ^ 13"
    using arg_cong [OF t, of unat] unfolding u .
  assume p: "unat ppn < 2 ^ 19"
  have "push_bit 13 ppn AND take_bit 13 va = 0"
    by (rule bit_eqI) (auto simp: bit_simps)
  then have "page_pa ppn va = push_bit 13 ppn + take_bit 13 va"
    unfolding page_pa_def m by (rule disjunctive_add_eq_or [symmetric])
  moreover have "unat (push_bit 13 ppn) = unat ppn * 2 ^ 13"
    by (rule unat_push_bit) (use p in simp)
  moreover have "unat va mod 2 ^ 13 < 2 ^ 13" by simp
  ultimately show "unat (page_pa ppn va) = unat ppn * 2 ^ 13 + unat va mod 2 ^ 13"
    using p by (simp add: unat_word_ariths u)
qed

section \<open>Properties\<close>

definition dmmu_uncached :: "bool \<Rightarrow> msr_s \<Rightarrow> phy_addr_t \<Rightarrow> bool \<Rightarrow> bool" where
  "dmmu_uncached seg m pa nc \<longleftrightarrow> \<not> psr_DCE (PSR m) \<or> nc \<or> (seg \<and> pa < 0x80000000)"

lemma seg_bit: "drop_bit (32 - PPN_SHIFT - 1) ppn AND 0x1 = 0 \<longleftrightarrow> \<not> bit (push_bit PPN_SHIFT ppn) 31" for ppn :: u32
proof -
  have "drop_bit 18 ppn AND 1 = 0 \<longleftrightarrow> \<not> bit ppn 18"
    by (simp add: and_one_eq bit_iff_odd_drop_bit odd_iff_mod_2_eq_one flip: even_iff_mod_2_eq_zero)
  then show ?thesis by (simp add: bit_push_bit_iff)
qed

lemma msb_less: "\<not> bit pa 31 \<longleftrightarrow> pa < 0x80000000" for pa :: u32
proof -
  have "bit (unat pa) 31 \<longleftrightarrow> bit pa 31" by (simp add: bit_simps)
  then have "bit pa 31 \<longleftrightarrow> odd (unat pa div 2 ^ 31)" by (simp add: bit_iff_odd)
  moreover have "unat pa < 2 ^ 32" using unat_less_exp [of pa] by simp
  then have "unat pa div 2 ^ 31 = (if unat pa < 2 ^ 31 then 0 else 1)"
    by (auto intro: div_nat_eqI)
  ultimately show ?thesis by (auto simp: word_less_nat_alt split: if_splits)
qed

lemma page_msb: "bit (page_pa ppn va) 31 \<longleftrightarrow> bit (push_bit PPN_SHIFT ppn) 31"
proof -
  have m: "va AND (push_bit PPN_SHIFT 1 - 1) = take_bit 13 va"
    by (simp add: take_bit_eq_mask mask_eq_exp_minus_1)
  show ?thesis unfolding page_pa_def m by (simp add: bit_simps)
qed

lemma page_seg: "drop_bit (32 - PPN_SHIFT - 1) ppn AND 0x1 = 0 \<longleftrightarrow> page_pa ppn va < 0x80000000" for ppn va :: u32
  unfolding seg_bit page_msb [of ppn va, symmetric] by (rule msb_less)

lemma va_msb: "drop_bit (32 - 1) va = 0 \<longleftrightarrow> va < 0x80000000" for va :: u32
proof -
  have "unat va < 2 ^ 32" using unat_less_exp [of va] by simp
  then show ?thesis by (simp add: word_unat_eq_iff unat_drop_bit word_less_nat_alt div_eq_0_iff)
qed

lemma dmmu_translate_lookup:
  assumes "length (DTLBL m) = 2 ^ k" and "length (DTLBH m) = 2 ^ k"
  shows "dmmu_translate_vma (2 ^ k) seg m va st =
    (if \<not> psr_DMME (PSR m) then Inr (0, Some va, dmmu_uncached seg m va False)
     else case dtlb_lookup m (2 ^ k) va st of
       Miss \<Rightarrow> Inr (- EM_TLB_MISS, None, \<not> psr_DCE (PSR m))
     | Fault \<Rightarrow> Inr (- EM_PAGE_FAULT, None, \<not> psr_DCE (PSR m))
     | Page hi \<Rightarrow> Inr (0, Some (page_pa (dtlbh_PPN hi) va),
         dmmu_uncached seg m (page_pa (dtlbh_PPN hi) va) (dtlbh_NC hi)))"
proof -
  let ?v = "drop_bit VPN_SHIFT va"
  have o: "tlb_offset (2 ^ k) ?v = unat va div 2 ^ 13 mod 2 ^ k"
    using tlb_offset_mod [of "2 ^ k" k ?v] by (simp add: unat_drop_bit)
  have i: "unat va div 2 ^ 13 mod 2 ^ k < length (DTLBL m)" "unat va div 2 ^ 13 mod 2 ^ k < length (DTLBH m)"
    using assms by simp_all
  show ?thesis
    unfolding dmmu_translate_vma_def o dtlb_lookup_def Let_def nthE_in [OF i(1)] nthE_in [OF i(2)] vpn_eq va_msb page_seg [of _ va]
    by (auto simp: dmmu_uncached_def)
qed

text \<open>The access hits a page that is marked as not cacheable.\<close>

definition dmmu_page_nc :: "msr_s \<Rightarrow> nat \<Rightarrow> vm_addr_t \<Rightarrow> bool \<Rightarrow> bool" where
  "dmmu_page_nc m n va st \<longleftrightarrow> psr_DMME (PSR m) \<and> (case dtlb_lookup m n va st of Page hi \<Rightarrow> dtlbh_NC hi | _ \<Rightarrow> False)"

text \<open>
  Claim C15: data translation with a TLB of a power-of-two size never reads outside its tables and
  implements the lookup specification: a miss and a permission fault (by mode and by load or store) are reported as such
  with no physical address; a hit yields the page frame with the offset of the virtual address; with
  the MMU off the address is unchanged. An access is uncached when the data cache is off or the page says so and, with the uncached segment disabled, in no
  other case. Where the segment lies when it is enabled is a separate property.
\<close>

theorem dmmu_translate_spec:
  assumes "length (DTLBL m) = 2 ^ k" and "length (DTLBH m) = 2 ^ k"
  shows "\<exists>unc. dmmu_translate_vma (2 ^ k) seg m va st =
    (if \<not> psr_DMME (PSR m) then Inr (0, Some va, unc)
     else case dtlb_lookup m (2 ^ k) va st of
       Miss \<Rightarrow> Inr (- EM_TLB_MISS, None, unc)
     | Fault \<Rightarrow> Inr (- EM_PAGE_FAULT, None, unc)
     | Page hi \<Rightarrow> Inr (0, Some (page_pa (dtlbh_PPN hi) va), unc)) \<and>
    (if seg then \<not> psr_DCE (PSR m) \<or> dmmu_page_nc m (2 ^ k) va st \<longrightarrow> unc
     else unc \<longleftrightarrow> \<not> psr_DCE (PSR m) \<or> dmmu_page_nc m (2 ^ k) va st)"
proof (cases "psr_DMME (PSR m)")
  case False
  then show ?thesis
    by (intro exI [of _ "dmmu_uncached seg m va False"]) (simp add: dmmu_translate_lookup [OF assms] dmmu_uncached_def dmmu_page_nc_def)
next
  case True
  then show ?thesis
    by (cases "dtlb_lookup m (2 ^ k) va st")
      (auto simp: dmmu_translate_lookup [OF assms] dmmu_uncached_def dmmu_page_nc_def)
qed

text \<open>The uncached segment as the comment in \<open>dmmu_translate_vma\<close> gives it: physical addresses from \<open>0x80000000\<close> to \<open>0x8FFFFFFF\<close>.\<close>

definition documented_segment :: "phy_addr_t \<Rightarrow> bool" where
  "documented_segment pa \<longleftrightarrow> 0x80000000 \<le> pa \<and> pa \<le> 0x8FFFFFFF"

text \<open>
  Claim C40: the uncached segment lies elsewhere than the comment in the code says. With the segment enabled, the data cache on and a page that is
  cacheable, a successful translation, with the MMU on or off, is uncached exactly when the physical address lies below \<open>0x80000000\<close>. The comment names
  \<open>0x80000000\<close> to \<open>0x8FFFFFFF\<close>: code and comment agree on an address exactly when it is \<open>0x90000000\<close> or above, where
  both call it cached; on every address below, one of them says cached and the other uncached.
\<close>

theorem dmmu_segment_divergence:
  assumes "length (DTLBL m) = 2 ^ k" and "length (DTLBH m) = 2 ^ k" and "psr_DCE (PSR m)" and "\<not> dmmu_page_nc m (2 ^ k) va st"
    and "dmmu_translate_vma (2 ^ k) True m va st = Inr (0, Some pa, unc)"
  shows "(unc \<longleftrightarrow> unat pa < 2 ^ 31) \<and> ((unc \<longleftrightarrow> documented_segment pa) \<longleftrightarrow> 0x90000000 \<le> pa)"
proof -
  have "unc \<longleftrightarrow> pa < 0x80000000"
    using assms(3-5) unfolding dmmu_translate_lookup [OF assms(1,2)]
    by (auto simp: dmmu_uncached_def dmmu_page_nc_def split: if_splits translation.splits)
  then show ?thesis by (auto simp: documented_segment_def word_less_nat_alt word_le_nat_alt)
qed

definition immu_uncached :: "bool \<Rightarrow> msr_s \<Rightarrow> phy_addr_t \<Rightarrow> bool \<Rightarrow> bool" where
  "immu_uncached seg m pa nc \<longleftrightarrow> \<not> psr_ICE (PSR m) \<or> nc \<or> (seg \<and> pa < 0x80000000)"

lemma immu_translate_lookup:
  assumes "length (ITLBL m) = 2 ^ k" and "length (ITLBH m) = 2 ^ k"
  shows "immu_translate_vma (2 ^ k) seg m va =
    (if \<not> psr_IMME (PSR m) then Inr (0, Some va, immu_uncached seg m va False)
     else case itlb_lookup m (2 ^ k) va of
       Miss \<Rightarrow> Inr (- EM_TLB_MISS, None, \<not> psr_ICE (PSR m))
     | Fault \<Rightarrow> Inr (- EM_PAGE_FAULT, None, \<not> psr_ICE (PSR m))
     | Page hi \<Rightarrow> Inr (0, Some (page_pa (itlbh_PPN hi) va),
         immu_uncached seg m (page_pa (itlbh_PPN hi) va) (itlbh_NC hi)))"
proof -
  let ?v = "drop_bit VPN_SHIFT va"
  have o: "tlb_offset (2 ^ k) ?v = unat va div 2 ^ 13 mod 2 ^ k"
    using tlb_offset_mod [of "2 ^ k" k ?v] by (simp add: unat_drop_bit)
  have i: "unat va div 2 ^ 13 mod 2 ^ k < length (ITLBL m)" "unat va div 2 ^ 13 mod 2 ^ k < length (ITLBH m)"
    using assms by simp_all
  show ?thesis
    unfolding immu_translate_vma_def o itlb_lookup_def Let_def nthE_in [OF i(1)] nthE_in [OF i(2)] vpn_eq va_msb page_seg [of _ va]
    by (auto simp: immu_uncached_def)
qed

text \<open>
  Claim C16: instruction translation with a TLB of a power-of-two size never reads outside its tables and implements the
  lookup specification, with the execute permissions of the mode.
\<close>

theorem immu_translate_spec:
  assumes "length (ITLBL m) = 2 ^ k" and "length (ITLBH m) = 2 ^ k"
  shows "immu_translate_vma (2 ^ k) seg m va =
    (if \<not> psr_IMME (PSR m) then Inr (0, Some va, immu_uncached seg m va False)
     else case itlb_lookup m (2 ^ k) va of
       Miss \<Rightarrow> Inr (- EM_TLB_MISS, None, \<not> psr_ICE (PSR m))
     | Fault \<Rightarrow> Inr (- EM_PAGE_FAULT, None, \<not> psr_ICE (PSR m))
     | Page hi \<Rightarrow> Inr (0, Some (page_pa (itlbh_PPN hi) va),
         immu_uncached seg m (page_pa (itlbh_PPN hi) va) (itlbh_NC hi)))"
  using assms by (rule immu_translate_lookup)

text \<open>Registers whose second data and instruction TLB slots map page 1 to page frame \<open>0x40001\<close>.\<close>

definition msr_mapped :: msr_s where
  "msr_mapped = (msr_zero 2 2)\<lparr>PSR := psr_reset\<lparr>psr_DMME := True, psr_IMME := True, psr_DCE := True\<rparr>,
     DTLBL := [\<lparr>dtlbl_V = False, dtlbl_VPN = 0\<rparr>, \<lparr>dtlbl_V = True, dtlbl_VPN = 1\<rparr>],
     DTLBH := replicate 2 \<lparr>dtlbh_P = True, dtlbh_D = False, dtlbh_A = False, dtlbh_UW = False,
        dtlbh_UR = False, dtlbh_RW = False, dtlbh_RR = True, dtlbh_NC = False, dtlbh_S = False,
        dtlbh_PPN = 0x40001\<rparr>,
     ITLBL := [\<lparr>itlbl_V = False, itlbl_VPN = 0\<rparr>, \<lparr>itlbl_V = True, itlbl_VPN = 1\<rparr>],
     ITLBH := replicate 2 \<lparr>itlbh_P = True, itlbh_D = False, itlbh_A = False, itlbh_UX = False,
        itlbh_RX = True, itlbh_NC = False, itlbh_S = False, itlbh_PPN = 0x40001\<rparr>\<rparr>"

lemma msr_mapped_len: "length (DTLBL msr_mapped) = 2 ^ 1" "length (DTLBH msr_mapped) = 2 ^ 1"
  "length (ITLBL msr_mapped) = 2 ^ 1" "length (ITLBH msr_mapped) = 2 ^ 1"
  by (simp_all add: msr_mapped_def)

lemma msr_mapped_lookup: "dtlb_lookup msr_mapped 2 0x2010 False = Page (DTLBH msr_mapped ! 1)" "dtlb_lookup msr_mapped 2 0x2010 True = Fault"
  by (simp_all add: dtlb_lookup_def msr_mapped_def psr_reset_def)

lemma msr_mapped_bits: "psr_DMME (PSR msr_mapped)" "psr_DCE (PSR msr_mapped)"
    "dtlbh_PPN (DTLBH msr_mapped ! 1) = 0x40001" "\<not> dtlbh_NC (DTLBH msr_mapped ! 1)"
  by (simp_all add: msr_mapped_def)

theorem dmmu_translate_spec_witness:
  "length (DTLBL msr_mapped) = 2 ^ 1 \<and> length (DTLBH msr_mapped) = 2 ^ 1 \<and>
   dmmu_translate_vma 2 False msr_mapped 0x2010 False = Inr (0, Some 0x80002010, False) \<and>
   dmmu_translate_vma 2 False msr_mapped 0x2010 True = Inr (- 4, None, False)"
  using dmmu_translate_spec [OF msr_mapped_len(1,2), of False "0x2010" False]
    dmmu_translate_spec [OF msr_mapped_len(1,2), of False "0x2010" True] msr_mapped_len msr_mapped_bits
  by (auto simp: msr_mapped_lookup page_pa_def dmmu_page_nc_def)

theorem dmmu_segment_divergence_witness:
  "psr_DCE (PSR msr_mapped) \<and> \<not> dmmu_page_nc msr_mapped 2 0x2010 False \<and>
   dmmu_translate_vma 2 True msr_mapped 0x2010 False = Inr (0, Some 0x80002010, False) \<and> documented_segment 0x80002010"
proof -
  have nc: "\<not> dmmu_page_nc msr_mapped (2 ^ 1) 0x2010 False" using msr_mapped_bits by (simp add: dmmu_page_nc_def msr_mapped_lookup)
  obtain u where t: "dmmu_translate_vma (2 ^ 1) True msr_mapped 0x2010 False = Inr (0, Some 0x80002010, u)"
    using msr_mapped_bits by (simp add: dmmu_translate_lookup [OF msr_mapped_len(1,2), simplified] msr_mapped_lookup page_pa_def)
  from dmmu_segment_divergence [OF msr_mapped_len(1,2) msr_mapped_bits(2) nc t] t nc msr_mapped_bits(2) show ?thesis
    by (auto simp: documented_segment_def)
qed

theorem immu_translate_spec_witness:
  "length (ITLBL msr_mapped) = 2 ^ 1 \<and> length (ITLBH msr_mapped) = 2 ^ 1 \<and>
   immu_translate_vma 2 True msr_mapped 0x2010 = Inr (0, Some 0x80002010, True) \<and>
   immu_translate_vma 2 True msr_mapped 0x4010 = Inr (- 3, None, True)"
proof -
  have l: "itlb_lookup msr_mapped 2 0x2010 = Page (ITLBH msr_mapped ! 1)" "itlb_lookup msr_mapped 2 0x4010 = Miss"
    by (simp_all add: itlb_lookup_def msr_mapped_def psr_reset_def)
  have "psr_IMME (PSR msr_mapped)" "\<not> psr_ICE (PSR msr_mapped)"
    "itlbh_PPN (ITLBH msr_mapped ! 1) = 0x40001" "\<not> itlbh_NC (ITLBH msr_mapped ! 1)"
    by (simp_all add: msr_mapped_def psr_reset_def)
  then show ?thesis
    using immu_translate_spec [OF msr_mapped_len(3,4), of True "0x2010"]
      immu_translate_spec [OF msr_mapped_len(3,4), of True "0x4010"] msr_mapped_len
    by (simp add: l page_pa_def immu_uncached_def)
qed

lemma dmmu_pa_cases:
  "dmmu_translate_vma n seg m va st = Inr (r, Some pa, u) \<Longrightarrow> pa = va \<or> (\<exists>ppn. pa = page_pa ppn va)"
  unfolding dmmu_translate_vma_def Let_def
  by (auto split: if_split_asm)

lemma immu_pa_cases:
  "immu_translate_vma n seg m va = Inr (r, Some pa, u) \<Longrightarrow> pa = va \<or> (\<exists>ppn. pa = page_pa ppn va)"
  unfolding immu_translate_vma_def Let_def
  by (auto split: if_split_asm)

text \<open>Translation keeps the offset in the page, so an aligned virtual address has an aligned physical address.\<close>

lemma translate_keeps_offset:
  "(dmmu_translate_vma n seg m va st = Inr (r, Some pa, u) \<longrightarrow> unat pa mod 2 ^ 13 = unat va mod 2 ^ 13) \<and>
   (immu_translate_vma n seg m va = Inr (r, Some pa, u) \<longrightarrow> unat pa mod 2 ^ 13 = unat va mod 2 ^ 13)"
  using dmmu_pa_cases immu_pa_cases page_pa_nat(1) by metis

end
