(* ===== verification/Traces.thy ===== *)
theory Traces
  imports Prelude "HOL-Library.Sublist"
begin

text \<open>
  The debugging aids of the emulator: the queue of the last executed instructions
  (\<open>em/csrc/pc-queue.cc\<close>), the return-address stack (\<open>em/csrc/ras.cc\<close>) and the symbol list
  (\<open>em/csrc/symtable.cc\<close>, without the file parsing of \<open>load\<close>, whose records are the argument of
  \<open>symtable_add\<close>). The queue is shown to hold exactly the last six entries pushed, and the
  circular stack to behave like a stack as long as it does not overflow.
\<close>

section \<open>Queue of executed instructions\<close>

record pcq_info =
  pcq_pc :: vm_addr_t
  pcq_insn :: insn_t

record PCQueue =
  pcq_buf :: "pcq_info list"
  pcq_pos :: nat

abbreviation (input) n_pc_queue :: nat where "n_pc_queue \<equiv> 6"

definition pcq_new :: PCQueue where
  "pcq_new = \<lparr>pcq_buf = replicate n_pc_queue \<lparr>pcq_pc = 0, pcq_insn = 0\<rparr>, pcq_pos = 0\<rparr>"

text \<open>The \<open>memmove\<close> shifts the entries 1 to 5 down by one; the last entry is then overwritten.\<close>

definition pcq_push :: "vm_addr_t \<Rightarrow> insn_t \<Rightarrow> PCQueue \<Rightarrow> halt + PCQueue" where
  "pcq_push pc insn q =
     (if pcq_pos q < n_pc_queue then
        bnd (updE (pcq_buf q) (pcq_pos q) \<lparr>pcq_pc = pc, pcq_insn = insn\<rparr>) (\<lambda>b.
        Inr (q\<lparr>pcq_buf := b, pcq_pos := pcq_pos q + 1\<rparr>))
      else
        bnd (updE (tl (pcq_buf q) @ [last (pcq_buf q)]) (n_pc_queue - 1)
               \<lparr>pcq_pc = pc, pcq_insn = insn\<rparr>) (\<lambda>b.
        Inr (q\<lparr>pcq_buf := b\<rparr>)))"

text \<open>What \<open>dump\<close> prints.\<close>

definition pcq_dump :: "PCQueue \<Rightarrow> pcq_info list" where
  "pcq_dump q = take (pcq_pos q) (pcq_buf q)"

definition pcq_wf :: "PCQueue \<Rightarrow> bool" where
  "pcq_wf q \<longleftrightarrow> length (pcq_buf q) = n_pc_queue \<and> pcq_pos q \<le> n_pc_queue"

text \<open>Reference: the last (at most) \<open>n\<close> elements of a list.\<close>

definition last_n :: "nat \<Rightarrow> 'a list \<Rightarrow> 'a list" where
  "last_n n xs = drop (length xs - n) xs"

lemma pcq_wf_new: "pcq_wf pcq_new" "pcq_dump pcq_new = []"
  by (simp_all add: pcq_wf_def pcq_new_def pcq_dump_def)

lemma pcq_push_refines:
  assumes "pcq_wf q"
  obtains q' where "pcq_push pc insn q = Inr q'" and "pcq_wf q'"
    and "pcq_dump q' = last_n n_pc_queue (pcq_dump q @ [\<lparr>pcq_pc = pc, pcq_insn = insn\<rparr>])"
proof (cases "pcq_pos q < n_pc_queue")
  case True
  with assms show ?thesis
    by (intro that [of "q\<lparr>pcq_buf := (pcq_buf q)[pcq_pos q := \<lparr>pcq_pc = pc, pcq_insn = insn\<rparr>],
            pcq_pos := pcq_pos q + 1\<rparr>"])
       (auto simp: pcq_push_def pcq_wf_def pcq_dump_def last_n_def take_Suc_conv_app_nth)
next
  case False
  obtain a b c d e f where "pcq_buf q = [a, b, c, d, e, f]"
    using assms unfolding pcq_wf_def
    by (auto simp: eval_nat_numeral length_Suc_conv)
  with assms False show ?thesis
    by (intro that [of "q\<lparr>pcq_buf := [b, c, d, e, f, \<lparr>pcq_pc = pc, pcq_insn = insn\<rparr>]\<rparr>"])
       (auto simp: pcq_push_def pcq_wf_def pcq_dump_def last_n_def updE_def)
qed

fun pcq_pushes :: "(vm_addr_t \<times> insn_t) list \<Rightarrow> PCQueue \<Rightarrow> halt + PCQueue" where
  "pcq_pushes [] q = Inr q"
| "pcq_pushes ((pc, insn) # xs) q = bnd (pcq_push pc insn q) (pcq_pushes xs)"

lemma last_n_append_last_n: "last_n n (last_n n xs @ ys) = last_n n (xs @ ys)"
  by (cases "n \<le> length xs") (auto simp: last_n_def add.commute)

lemma pcq_pushes_dump:
  "pcq_wf q \<Longrightarrow> \<exists>q'. pcq_pushes xs q = Inr q' \<and> pcq_wf q' \<and>
     pcq_dump q' = last_n n_pc_queue
       (pcq_dump q @ map (\<lambda>(pc, insn). \<lparr>pcq_pc = pc, pcq_insn = insn\<rparr>) xs)"
proof (induction xs arbitrary: q)
  case Nil
  then show ?case by (simp add: last_n_def pcq_dump_def pcq_wf_def)
next
  case (Cons x xs)
  obtain pc insn where x: "x = (pc, insn)" by fastforce
  from Cons.prems obtain q1 where "pcq_push pc insn q = Inr q1" "pcq_wf q1"
    "pcq_dump q1 = last_n n_pc_queue (pcq_dump q @ [\<lparr>pcq_pc = pc, pcq_insn = insn\<rparr>])"
    by (rule pcq_push_refines)
  with Cons.IH [of q1] show ?case by (auto simp: x last_n_append_last_n)
qed

text \<open>
  Claim C36: after any sequence of pushes on a new queue, which never leaves the array, the queue prints
  exactly the last six (or fewer) pushed entries, oldest first.
\<close>

theorem pcq_holds_last_six:
  "\<exists>q. pcq_pushes xs pcq_new = Inr q \<and>
     pcq_dump q = last_n n_pc_queue (map (\<lambda>(pc, insn). \<lparr>pcq_pc = pc, pcq_insn = insn\<rparr>) xs)"
  using pcq_pushes_dump [OF pcq_wf_new(1), of xs] by (auto simp: pcq_wf_new)

section \<open>Return-address stack\<close>

record ras_info =
  ras_pc :: vm_addr_t
  ras_npc :: vm_addr_t

record RAS =
  ras_buf :: "ras_info list"
  ras_pos :: u32

abbreviation (input) stack_depth :: u32 where "stack_depth \<equiv> 256"

definition ras_new :: RAS where
  "ras_new = \<lparr>ras_buf = replicate 256 \<lparr>ras_pc = 0, ras_npc = 0\<rparr>, ras_pos = 0\<rparr>"

definition ras_push :: "vm_addr_t \<Rightarrow> vm_addr_t \<Rightarrow> RAS \<Rightarrow> halt + RAS" where
  "ras_push pc npc r =
     bnd (updE (ras_buf r) (unat (ras_pos r)) \<lparr>ras_pc = pc, ras_npc = npc\<rparr>) (\<lambda>b.
     Inr (r\<lparr>ras_buf := b, ras_pos := (ras_pos r + 1) mod stack_depth\<rparr>))"

definition ras_pop :: "RAS \<Rightarrow> RAS" where
  "ras_pop r = r\<lparr>ras_pos := (ras_pos r - 1) mod stack_depth\<rparr>"

definition ras_dump :: "RAS \<Rightarrow> ras_info list" where
  "ras_dump r = take (unat (ras_pos r)) (ras_buf r)"

definition ras_wf :: "RAS \<Rightarrow> bool" where
  "ras_wf r \<longleftrightarrow> length (ras_buf r) = 256 \<and> ras_pos r < stack_depth"

lemma mod_256_less: "x mod 256 < (256 :: u32)"
  by (simp add: word_less_nat_alt unat_mod)

lemma ras_wf_new: "ras_wf ras_new"
  by (simp add: ras_wf_def ras_new_def)

lemma ras_wf_pop: "ras_wf r \<Longrightarrow> ras_wf (ras_pop r)"
  by (simp add: ras_wf_def ras_pop_def mod_256_less)

lemma ras_push_total:
  "ras_wf r \<Longrightarrow> ras_push pc npc r = Inr (r\<lparr>ras_buf := (ras_buf r)[unat (ras_pos r) :=
     \<lparr>ras_pc = pc, ras_npc = npc\<rparr>], ras_pos := (ras_pos r + 1) mod stack_depth\<rparr>)"
  by (simp add: ras_push_def ras_wf_def word_less_nat_alt)

lemma ras_wf_push: "ras_wf r \<Longrightarrow> ras_push pc npc r = Inr r' \<Longrightarrow> ras_wf r'"
  by (auto simp: ras_push_total) (simp add: ras_wf_def mod_256_less)

text \<open>
  Claim C37: a pop undoes a push at every position, the wrap-around from 255 to 0 included: the position
  returns to where it was and, below the depth limit, the printed call chain is the old one.
\<close>

theorem ras_pop_push:
  assumes "ras_wf r"
  shows "\<exists>r'. ras_push pc npc r = Inr r' \<and> ras_pos (ras_pop r') = ras_pos r \<and>
    ras_dump (ras_pop r') = ras_dump r \<and>
    (ras_pos r \<noteq> 255 \<longrightarrow> ras_dump r' = ras_dump r @ [\<lparr>ras_pc = pc, ras_npc = npc\<rparr>])"
proof -
  let ?b = "(ras_buf r)[unat (ras_pos r) := \<lparr>ras_pc = pc, ras_npc = npc\<rparr>]"
  let ?r = "r\<lparr>ras_buf := ?b, ras_pos := (ras_pos r + 1) mod stack_depth\<rparr>"
  have p: "unat (ras_pos r) < 256" using assms by (simp add: ras_wf_def word_less_nat_alt)
  have q: "unat ((ras_pos r + 1) mod 256) = (unat (ras_pos r) + 1) mod 256"
    using p by (simp add: unat_mod unat_word_ariths)
  have pos: "((ras_pos r + 1) mod 256 - 1) mod 256 = ras_pos r"
  proof (cases "unat (ras_pos r) = 255")
    case True
    then have "ras_pos r = 255" by (simp add: word_unat_eq_iff)
    then show ?thesis by simp
  next
    case False
    with p have e: "(ras_pos r + 1) mod 256 = ras_pos r + 1"
      by (simp add: word_unat_eq_iff q unat_word_ariths)
    have "ras_pos r mod 256 = ras_pos r"
      using p by (simp add: word_unat_eq_iff unat_mod)
    then show ?thesis unfolding e by simp
  qed
  have "ras_dump ?r = ras_dump r @ [\<lparr>ras_pc = pc, ras_npc = npc\<rparr>]" if "ras_pos r \<noteq> 255"
  proof -
    have "unat (ras_pos r) \<noteq> 255" using that by (simp add: word_unat_eq_iff)
    with p q have "unat ((ras_pos r + 1) mod 256) = Suc (unat (ras_pos r))" by simp
    then show ?thesis
      using assms p by (simp add: ras_dump_def take_Suc_conv_app_nth ras_wf_def)
  qed
  moreover have "ras_push pc npc r = Inr ?r" using assms by (rule ras_push_total)
  moreover have "ras_dump (ras_pop ?r) = ras_dump r"
    by (simp add: ras_dump_def ras_pop_def pos)
  ultimately show ?thesis by (auto simp: ras_pop_def pos)
qed

theorem ras_pop_push_witness:
  "ras_wf ras_new \<and> (\<exists>r'. ras_push 4 8 ras_new = Inr r' \<and> ras_dump (ras_pop r') = ras_dump ras_new)"
  using ras_pop_push [OF ras_wf_new, of 4 8] ras_wf_new by blast

section \<open>Symbols\<close>

record sym_node =
  sym_vm_addr :: vm_addr_t
  sym_type :: string
  sym_symbol :: string

text \<open>
  \<open>load\<close> prepends one node per record of the file (\<open>strtol\<close> has already turned the address into a
  number here); \<open>find\<close> returns the first node at exactly the address.
\<close>

definition symtable_add :: "sym_node \<Rightarrow> sym_node list \<Rightarrow> sym_node list" where
  "symtable_add nd sym_list = nd # sym_list"

fun symtable_load :: "sym_node list \<Rightarrow> sym_node list \<Rightarrow> sym_node list" where
  "symtable_load [] sym_list = sym_list"
| "symtable_load (nd # nds) sym_list = symtable_load nds (symtable_add nd sym_list)"

fun symtable_find :: "vm_addr_t \<Rightarrow> sym_node list \<Rightarrow> sym_node option" where
  "symtable_find addr [] = None"
| "symtable_find addr (node # rest) =
     (if sym_vm_addr node = addr then Some node else symtable_find addr rest)"

lemma symtable_load_rev: "symtable_load nds l = rev nds @ l"
  by (induction nds arbitrary: l) (simp_all add: symtable_add_def)

lemma symtable_find_eq: "symtable_find a l = find (\<lambda>n. sym_vm_addr n = a) l"
  by (induction l) auto

text \<open>
  Looking an address up after loading a file finds the last record of the file with that
  address, and finds nothing exactly when no record has it.
\<close>

lemma symtable_find_load:
  "symtable_find a (symtable_load nds []) = find (\<lambda>n. sym_vm_addr n = a) (rev nds) \<and>
   (symtable_find a (symtable_load nds []) = None \<longleftrightarrow> a \<notin> sym_vm_addr ` set nds)"
  by (auto simp: symtable_load_rev symtable_find_eq find_None_iff)

end
