(* ===== verification/Memory.thy ===== *)
theory Memory
  imports Prelude
begin

text \<open>
  Physical memory, \<open>em/csrc/memory.hh\<close> and \<open>em/csrc/memory.cc\<close>: the DRAM array, the four lists of
  memory-mapped I/O handlers (one per access width) and the little-endian accessors. The
  abstract class \<open>MMIOCallback\<close> is a record of operations over the device objects \<open>'cb\<close> and
  the state \<open>'d\<close> those operations act on, so that the devices can be defined after the memory, as in
  the source. Pointers that the constructor leaves uninitialised are \<open>None\<close>.
\<close>

section \<open>Interface of the devices\<close>

text \<open>
  One field per virtual function. The last argument before the state is the \<open>opaque\<close> pointer given at
  registration. The 64-bit handlers take and return \<open>uint32_t\<close>, as the class declares them.
\<close>

record ('cb, 'd) MMIOCallback =
  cb_writem8 :: "'cb \<Rightarrow> phy_addr_t \<Rightarrow> u8 \<Rightarrow> 'cb \<Rightarrow> 'd \<Rightarrow> halt + 'd"
  cb_writem16 :: "'cb \<Rightarrow> phy_addr_t \<Rightarrow> u16 \<Rightarrow> 'cb \<Rightarrow> 'd \<Rightarrow> halt + 'd"
  cb_writem32 :: "'cb \<Rightarrow> phy_addr_t \<Rightarrow> u32 \<Rightarrow> 'cb \<Rightarrow> 'd \<Rightarrow> halt + 'd"
  cb_writem64 :: "'cb \<Rightarrow> phy_addr_t \<Rightarrow> u32 \<Rightarrow> 'cb \<Rightarrow> 'd \<Rightarrow> halt + 'd"
  cb_readm8 :: "'cb \<Rightarrow> phy_addr_t \<Rightarrow> 'cb \<Rightarrow> 'd \<Rightarrow> halt + u8 \<times> 'd"
  cb_readm16 :: "'cb \<Rightarrow> phy_addr_t \<Rightarrow> 'cb \<Rightarrow> 'd \<Rightarrow> halt + u16 \<times> 'd"
  cb_readm32 :: "'cb \<Rightarrow> phy_addr_t \<Rightarrow> 'cb \<Rightarrow> 'd \<Rightarrow> halt + u32 \<times> 'd"
  cb_readm64 :: "'cb \<Rightarrow> phy_addr_t \<Rightarrow> 'cb \<Rightarrow> 'd \<Rightarrow> halt + u32 \<times> 'd"

record 'cb mmio_node =
  nd_write :: bool
  nd_start_addr :: phy_addr_t
  nd_end_addr :: phy_addr_t
  nd_callback :: 'cb
  nd_opaque :: 'cb

type_synonym 'cb mmio_domain = "'cb mmio_node list option"

record 'cb Memory =
  mem_has_cpu :: bool
  mmio8 :: "'cb mmio_domain"
  mmio16 :: "'cb mmio_domain"
  mmio32 :: "'cb mmio_domain"
  mmio64 :: "'cb mmio_domain"
  memory :: "u8 list"
  memory_size :: u64
  dram_phy_start :: phy_addr_t
  mmio_phy_base :: phy_addr_t
  mmio_phy_end_addr :: phy_addr_t

type_synonym ('cb, 'd) bus = "'cb Memory \<times> 'd"

section \<open>Construction and MMIO registration\<close>

text \<open>
  \<open>new uint8_t[memory_size_]\<close> is not initialised: its contents are the argument \<open>raw\<close>, of length
  \<open>memory_size_\<close>. \<open>mmio64\<close> is missing from the initialisers.
\<close>

definition Memory_new ::
  "bool \<Rightarrow> u8 list \<Rightarrow> phy_addr_t \<Rightarrow> phy_addr_t \<Rightarrow> phy_addr_t \<Rightarrow> halt + 'cb Memory" where
  "Memory_new cpu raw dram_phy_start' mmio_phy_base' mmio_phy_end_addr' =
     assertE (mmio_phy_base' \<le> mmio_phy_end_addr')
       (Inr \<lparr>mem_has_cpu = cpu, mmio8 = Some [], mmio16 = Some [], mmio32 = Some [], mmio64 = None,
             memory = raw, memory_size = of_nat (length raw), dram_phy_start = dram_phy_start',
             mmio_phy_base = mmio_phy_base', mmio_phy_end_addr = mmio_phy_end_addr'\<rparr>)"

definition mmio_overlap :: "'cb mmio_node \<Rightarrow> bool \<Rightarrow> phy_addr_t \<Rightarrow> phy_addr_t \<Rightarrow> bool" where
  "mmio_overlap node w start_addr end_addr \<longleftrightarrow>
     nd_write node = w \<and> nd_start_addr node < end_addr \<and> nd_end_addr node > start_addr"

definition mmio_append_node ::
  "'cb mmio_domain \<Rightarrow> bool \<Rightarrow> phy_addr_t \<Rightarrow> phy_addr_t \<Rightarrow> 'cb \<Rightarrow> 'cb \<Rightarrow> halt + 'cb mmio_domain" where
  "mmio_append_node domain w start_addr end_addr callback opaque =
     (case domain of
        None \<Rightarrow> Inl Undefined
      | Some nodes \<Rightarrow>
          (if \<exists>node \<in> set nodes. mmio_overlap node w start_addr end_addr then Inl (Panic 1)
           else Inr (Some (\<lparr>nd_write = w, nd_start_addr = start_addr, nd_end_addr = end_addr,
                            nd_callback = callback, nd_opaque = opaque\<rparr> # nodes))))"

definition mmio_register_writem8 :: "phy_addr_t \<Rightarrow> phy_addr_t \<Rightarrow> 'cb \<Rightarrow> 'cb \<Rightarrow> 'cb Memory \<Rightarrow> halt + 'cb Memory" where
  "mmio_register_writem8 s e cb op M =
     bnd (mmio_append_node (mmio8 M) True s e cb op) (\<lambda>d. Inr (M\<lparr>mmio8 := d\<rparr>))"

definition mmio_register_writem16 :: "phy_addr_t \<Rightarrow> phy_addr_t \<Rightarrow> 'cb \<Rightarrow> 'cb \<Rightarrow> 'cb Memory \<Rightarrow> halt + 'cb Memory" where
  "mmio_register_writem16 s e cb op M =
     bnd (mmio_append_node (mmio16 M) True s e cb op) (\<lambda>d. Inr (M\<lparr>mmio16 := d\<rparr>))"

definition mmio_register_writem32 :: "phy_addr_t \<Rightarrow> phy_addr_t \<Rightarrow> 'cb \<Rightarrow> 'cb \<Rightarrow> 'cb Memory \<Rightarrow> halt + 'cb Memory" where
  "mmio_register_writem32 s e cb op M =
     bnd (mmio_append_node (mmio32 M) True s e cb op) (\<lambda>d. Inr (M\<lparr>mmio32 := d\<rparr>))"

definition mmio_register_writem64 :: "phy_addr_t \<Rightarrow> phy_addr_t \<Rightarrow> 'cb \<Rightarrow> 'cb \<Rightarrow> 'cb Memory \<Rightarrow> halt + 'cb Memory" where
  "mmio_register_writem64 s e cb op M =
     bnd (mmio_append_node (mmio64 M) True s e cb op) (\<lambda>d. Inr (M\<lparr>mmio64 := d\<rparr>))"

definition mmio_register_readm8 :: "phy_addr_t \<Rightarrow> phy_addr_t \<Rightarrow> 'cb \<Rightarrow> 'cb \<Rightarrow> 'cb Memory \<Rightarrow> halt + 'cb Memory" where
  "mmio_register_readm8 s e cb op M =
     bnd (mmio_append_node (mmio8 M) False s e cb op) (\<lambda>d. Inr (M\<lparr>mmio8 := d\<rparr>))"

definition mmio_register_readm16 :: "phy_addr_t \<Rightarrow> phy_addr_t \<Rightarrow> 'cb \<Rightarrow> 'cb \<Rightarrow> 'cb Memory \<Rightarrow> halt + 'cb Memory" where
  "mmio_register_readm16 s e cb op M =
     bnd (mmio_append_node (mmio16 M) False s e cb op) (\<lambda>d. Inr (M\<lparr>mmio16 := d\<rparr>))"

definition mmio_register_readm32 :: "phy_addr_t \<Rightarrow> phy_addr_t \<Rightarrow> 'cb \<Rightarrow> 'cb \<Rightarrow> 'cb Memory \<Rightarrow> halt + 'cb Memory" where
  "mmio_register_readm32 s e cb op M =
     bnd (mmio_append_node (mmio32 M) False s e cb op) (\<lambda>d. Inr (M\<lparr>mmio32 := d\<rparr>))"

definition mmio_register_readm64 :: "phy_addr_t \<Rightarrow> phy_addr_t \<Rightarrow> 'cb \<Rightarrow> 'cb \<Rightarrow> 'cb Memory \<Rightarrow> halt + 'cb Memory" where
  "mmio_register_readm64 s e cb op M =
     bnd (mmio_append_node (mmio64 M) False s e cb op) (\<lambda>d. Inr (M\<lparr>mmio64 := d\<rparr>))"

section \<open>Loading an image\<close>

abbreviation (input) CHUNK_SIZE :: nat where "CHUNK_SIZE \<equiv> 8192"

text \<open>
  \<open>fread\<close> copies at most \<open>CHUNK_SIZE\<close> bytes per call to the running position; nothing compares the
  position with the size of the array. \<open>fp\<close> is the contents of the file, \<open>None\<close> for the null
  pointer of a file that could not be opened.
\<close>

function load_chunks :: "nat \<Rightarrow> u8 list \<Rightarrow> u8 list \<Rightarrow> halt + u8 list" where
  "load_chunks pos rest buf =
     (if rest = [] then Inr buf
      else let c = take CHUNK_SIZE rest in
        if pos + length c \<le> length buf
        then load_chunks (pos + length c) (drop CHUNK_SIZE rest)
               (take pos buf @ c @ drop (pos + length c) buf)
        else Inl Undefined)"
  by pat_completeness auto
termination
  by (relation "measure (\<lambda>(pos, rest, buf). length rest)") auto

declare load_chunks.simps [simp del]

section \<open>Accessors\<close>

definition in_mmio :: "'cb Memory \<Rightarrow> phy_addr_t \<Rightarrow> bool" where
  "in_mmio M addr \<longleftrightarrow> addr \<ge> mmio_phy_base M \<and> addr \<le> mmio_phy_end_addr M"

text \<open>\<open>dram_phy_start + memory_size\<close> is computed in \<open>size_t\<close>, that is in 64 bits.\<close>

definition in_dram :: "'cb Memory \<Rightarrow> phy_addr_t \<Rightarrow> bool" where
  "in_dram M addr \<longleftrightarrow>
     addr \<ge> dram_phy_start M \<and> (ucast addr :: u64) < ucast (dram_phy_start M) + memory_size M"

definition load_address_fp :: "u8 list option \<Rightarrow> phy_addr_t \<Rightarrow> 'cb Memory \<Rightarrow> halt + int \<times> 'cb Memory" where
  "load_address_fp fp baseaddr M =
     (if \<not> in_dram M baseaddr then Inr (-1, M)
      else case fp of
        None \<Rightarrow> Inl Undefined
      | Some bytes \<Rightarrow>
          bnd (load_chunks (unat (baseaddr - dram_phy_start M)) bytes (memory M)) (\<lambda>b.
          Inr (0, M\<lparr>memory := b\<rparr>)))"

definition match_mmio_handler ::
  "'cb Memory \<Rightarrow> 'cb mmio_domain \<Rightarrow> phy_addr_t \<Rightarrow> bool \<Rightarrow> halt + 'cb mmio_node option" where
  "match_mmio_handler M domain addr w =
     (if in_mmio M addr then
        (case domain of
           None \<Rightarrow> Inl Undefined
         | Some nodes \<Rightarrow>
             (case find (\<lambda>node. nd_write node = w \<and> nd_start_addr node \<le> addr \<and>
                                 addr \<le> nd_end_addr node) nodes of
                Some node \<Rightarrow> Inr (Some node)
              | None \<Rightarrow> Inl (Panic 1)))
      else Inr None)"

definition phy_writem8 ::
  "('cb, 'd) MMIOCallback \<Rightarrow> phy_addr_t \<Rightarrow> u8 \<Rightarrow> ('cb, 'd) bus \<Rightarrow> halt + ('cb, 'd) bus" where
  "phy_writem8 vt addr val = (\<lambda>(M, d).
     bnd (match_mmio_handler M (mmio8 M) addr True) (\<lambda>mmio_handler.
     case mmio_handler of
       Some h \<Rightarrow> bnd (cb_writem8 vt (nd_callback h) addr val (nd_opaque h) d) (\<lambda>d'. Inr (M, d'))
     | None \<Rightarrow>
         (if in_dram M addr
          then bnd (updE (memory M) (unat (addr - dram_phy_start M)) val) (\<lambda>b.
               Inr (M\<lparr>memory := b\<rparr>, d))
          else Inl (Panic 1))))"

definition phy_writem16 ::
  "('cb, 'd) MMIOCallback \<Rightarrow> phy_addr_t \<Rightarrow> u16 \<Rightarrow> ('cb, 'd) bus \<Rightarrow> halt + ('cb, 'd) bus" where
  "phy_writem16 vt addr val = (\<lambda>(M, d).
     bnd (match_mmio_handler M (mmio16 M) addr True) (\<lambda>mmio_handler.
     case mmio_handler of
       Some h \<Rightarrow> bnd (cb_writem16 vt (nd_callback h) addr val (nd_opaque h) d) (\<lambda>d'. Inr (M, d'))
     | None \<Rightarrow>
         (if in_dram M addr
          then bnd (phy_writem8 vt addr (ucast (val AND 0x00ff)) (M, d)) (\<lambda>s.
               phy_writem8 vt (addr + 1) (ucast (drop_bit 8 val)) s)
          else Inr (M, d))))"

definition phy_writem32 ::
  "('cb, 'd) MMIOCallback \<Rightarrow> phy_addr_t \<Rightarrow> u32 \<Rightarrow> ('cb, 'd) bus \<Rightarrow> halt + ('cb, 'd) bus" where
  "phy_writem32 vt addr val = (\<lambda>(M, d).
     bnd (match_mmio_handler M (mmio32 M) addr True) (\<lambda>mmio_handler.
     case mmio_handler of
       Some h \<Rightarrow> bnd (cb_writem32 vt (nd_callback h) addr val (nd_opaque h) d) (\<lambda>d'. Inr (M, d'))
     | None \<Rightarrow>
         (if in_dram M addr
          then bnd (phy_writem8 vt addr (ucast (val AND 0xff)) (M, d)) (\<lambda>s.
               bnd (phy_writem8 vt (addr + 1) (ucast (drop_bit 8 val)) s) (\<lambda>s.
               bnd (phy_writem8 vt (addr + 2) (ucast (drop_bit 16 val)) s) (\<lambda>s.
               phy_writem8 vt (addr + 3) (ucast (drop_bit 24 val)) s)))
          else Inr (M, d))))"

definition phy_writem64 ::
  "('cb, 'd) MMIOCallback \<Rightarrow> phy_addr_t \<Rightarrow> u64 \<Rightarrow> ('cb, 'd) bus \<Rightarrow> halt + ('cb, 'd) bus" where
  "phy_writem64 vt addr val = (\<lambda>(M, d).
     bnd (match_mmio_handler M (mmio64 M) addr True) (\<lambda>mmio_handler.
     case mmio_handler of
       Some h \<Rightarrow> bnd (cb_writem64 vt (nd_callback h) addr (ucast val) (nd_opaque h) d) (\<lambda>d'. Inr (M, d'))
     | None \<Rightarrow>
         (if in_dram M addr
          then bnd (phy_writem8 vt addr (ucast (val AND 0xff)) (M, d)) (\<lambda>s.
               bnd (phy_writem8 vt (addr + 1) (ucast (drop_bit 8 val)) s) (\<lambda>s.
               bnd (phy_writem8 vt (addr + 2) (ucast (drop_bit 16 val)) s) (\<lambda>s.
               bnd (phy_writem8 vt (addr + 3) (ucast (drop_bit 24 val)) s) (\<lambda>s.
               bnd (phy_writem8 vt (addr + 4) (ucast (drop_bit 32 val)) s) (\<lambda>s.
               bnd (phy_writem8 vt (addr + 5) (ucast (drop_bit 40 val)) s) (\<lambda>s.
               bnd (phy_writem8 vt (addr + 6) (ucast (drop_bit 48 val)) s) (\<lambda>s.
               phy_writem8 vt (addr + 7) (ucast (drop_bit 56 val)) s)))))))
          else Inr (M, d))))"

definition phy_readm8 ::
  "('cb, 'd) MMIOCallback \<Rightarrow> phy_addr_t \<Rightarrow> ('cb, 'd) bus \<Rightarrow> halt + u8 \<times> ('cb, 'd) bus" where
  "phy_readm8 vt addr = (\<lambda>(M, d).
     bnd (match_mmio_handler M (mmio8 M) addr False) (\<lambda>mmio_handler.
     case mmio_handler of
       Some h \<Rightarrow> bnd (cb_readm8 vt (nd_callback h) addr (nd_opaque h) d) (\<lambda>(v, d'). Inr (v, (M, d')))
     | None \<Rightarrow>
         (if in_dram M addr
          then bnd (nthE (memory M) (unat (addr - dram_phy_start M))) (\<lambda>v. Inr (v, (M, d)))
          else Inl (Panic 1))))"

text \<open>The bytes are read in the order in which the source's expression names them.\<close>

definition phy_readm16 ::
  "('cb, 'd) MMIOCallback \<Rightarrow> phy_addr_t \<Rightarrow> ('cb, 'd) bus \<Rightarrow> halt + u16 \<times> ('cb, 'd) bus" where
  "phy_readm16 vt addr = (\<lambda>(M, d).
     bnd (match_mmio_handler M (mmio16 M) addr False) (\<lambda>mmio_handler.
     case mmio_handler of
       Some h \<Rightarrow> bnd (cb_readm16 vt (nd_callback h) addr (nd_opaque h) d) (\<lambda>(v, d'). Inr (v, (M, d')))
     | None \<Rightarrow>
         (if in_dram M addr
          then bnd (phy_readm8 vt (addr + 1) (M, d)) (\<lambda>(b1, s).
               bnd (phy_readm8 vt addr s) (\<lambda>(b0, s).
               Inr (push_bit 8 (ucast b1) OR ucast b0, s)))
          else Inl (Panic 1))))"

definition phy_readm32 ::
  "('cb, 'd) MMIOCallback \<Rightarrow> phy_addr_t \<Rightarrow> ('cb, 'd) bus \<Rightarrow> halt + u32 \<times> ('cb, 'd) bus" where
  "phy_readm32 vt addr = (\<lambda>(M, d).
     bnd (match_mmio_handler M (mmio32 M) addr False) (\<lambda>mmio_handler.
     case mmio_handler of
       Some h \<Rightarrow> bnd (cb_readm32 vt (nd_callback h) addr (nd_opaque h) d) (\<lambda>(v, d'). Inr (v, (M, d')))
     | None \<Rightarrow>
         (if in_dram M addr
          then bnd (phy_readm8 vt (addr + 3) (M, d)) (\<lambda>(b3, s).
               bnd (phy_readm8 vt (addr + 2) s) (\<lambda>(b2, s).
               bnd (phy_readm8 vt (addr + 1) s) (\<lambda>(b1, s).
               bnd (phy_readm8 vt addr s) (\<lambda>(b0, s).
               Inr (push_bit 24 (ucast b3) OR push_bit 16 (ucast b2) OR push_bit 8 (ucast b1)
                    OR ucast b0, s)))))
          else Inl (Panic 1))))"

definition phy_readm64 ::
  "('cb, 'd) MMIOCallback \<Rightarrow> phy_addr_t \<Rightarrow> ('cb, 'd) bus \<Rightarrow> halt + u64 \<times> ('cb, 'd) bus" where
  "phy_readm64 vt addr = (\<lambda>(M, d).
     bnd (match_mmio_handler M (mmio64 M) addr False) (\<lambda>mmio_handler.
     case mmio_handler of
       Some h \<Rightarrow> bnd (cb_readm64 vt (nd_callback h) addr (nd_opaque h) d) (\<lambda>(v, d'). Inr (ucast v, (M, d')))
     | None \<Rightarrow>
         (if in_dram M addr
          then bnd (phy_readm8 vt (addr + 7) (M, d)) (\<lambda>(b7, s).
               bnd (phy_readm8 vt (addr + 6) s) (\<lambda>(b6, s).
               bnd (phy_readm8 vt (addr + 5) s) (\<lambda>(b5, s).
               bnd (phy_readm8 vt (addr + 4) s) (\<lambda>(b4, s).
               bnd (phy_readm8 vt (addr + 3) s) (\<lambda>(b3, s).
               bnd (phy_readm8 vt (addr + 2) s) (\<lambda>(b2, s).
               bnd (phy_readm8 vt (addr + 1) s) (\<lambda>(b1, s).
               bnd (phy_readm8 vt addr s) (\<lambda>(b0, s).
               Inr (push_bit 56 (ucast b7) OR push_bit 48 (ucast b6) OR push_bit 40 (ucast b5)
                    OR push_bit 32 (ucast b4) OR push_bit 24 (ucast b3) OR push_bit 16 (ucast b2)
                    OR push_bit 8 (ucast b1) OR ucast b0, s)))))))))
          else Inl (Panic 1))))"

section \<open>The DRAM as an array of bytes\<close>

definition mem_wf :: "'cb Memory \<Rightarrow> bool" where
  "mem_wf M \<longleftrightarrow> length (memory M) = unat (memory_size M) \<and>
     unat (dram_phy_start M) + unat (memory_size M) < 2 ^ 64"

text \<open>Addresses served by the array: inside the DRAM window and outside the MMIO window.\<close>

definition dram_at :: "'cb Memory \<Rightarrow> phy_addr_t \<Rightarrow> bool" where
  "dram_at M a \<longleftrightarrow> in_dram M a \<and> \<not> in_mmio M a"

definition dram_range :: "'cb Memory \<Rightarrow> phy_addr_t \<Rightarrow> nat \<Rightarrow> bool" where
  "dram_range M a n \<longleftrightarrow> (\<forall>i < n. dram_at M (a + of_nat i))"

definition cell :: "'cb Memory \<Rightarrow> phy_addr_t \<Rightarrow> u8" where
  "cell M a = memory M ! unat (a - dram_phy_start M)"

definition set_cell :: "phy_addr_t \<Rightarrow> u8 \<Rightarrow> 'cb Memory \<Rightarrow> 'cb Memory" where
  "set_cell a v M = M\<lparr>memory := (memory M)[unat (a - dram_phy_start M) := v]\<rparr>"

lemma mem_wf_new:
  assumes "Memory_new cpu raw start base last_addr = Inr M" "length raw < 2 ^ 63"
  shows "mem_wf M"
proof -
  have M: "memory M = raw" "memory_size M = of_nat (length raw)" "dram_phy_start M = start"
    using assms(1) by (auto simp: Memory_new_def)
  have "unat (of_nat (length raw) :: u64) = length raw"
    using assms(2) by (simp add: unat_of_nat)
  moreover have "unat start < 2 ^ 32" using unat_less_exp [of start] by simp
  ultimately show ?thesis using assms(2) by (simp add: mem_wf_def M)
qed

lemma in_dram_nat:
  assumes "mem_wf M"
  shows "in_dram M a \<longleftrightarrow> unat (dram_phy_start M) \<le> unat a \<and>
    unat a < unat (dram_phy_start M) + unat (memory_size M)"
proof -
  have u: "unat (ucast x :: u64) = unat x" for x :: u32
    by (simp add: unat_ucast_up)
  have "unat (ucast (dram_phy_start M) + memory_size M) = unat (dram_phy_start M) + unat (memory_size M)"
    using assms by (simp add: mem_wf_def unat_word_ariths u)
  then show ?thesis by (simp add: in_dram_def word_le_nat_alt word_less_nat_alt u)
qed

lemma in_dram_index:
  assumes "mem_wf M" "in_dram M a"
  shows "unat (a - dram_phy_start M) < length (memory M)"
proof -
  have "unat (a - dram_phy_start M) = unat a - unat (dram_phy_start M)"
    using assms by (simp add: in_dram_def unat_sub)
  with assms in_dram_nat [OF assms(1)] show ?thesis by (auto simp: mem_wf_def)
qed

lemma set_cell_frame [simp]:
  "in_dram (set_cell a v M) = in_dram M" "in_mmio (set_cell a v M) = in_mmio M"
  "dram_at (set_cell a v M) = dram_at M" "dram_range (set_cell a v M) = dram_range M"
  "mem_wf (set_cell a v M) = mem_wf M"
  by (auto simp: set_cell_def in_dram_def in_mmio_def dram_at_def dram_range_def mem_wf_def
      intro!: ext)

lemma cell_set_cell:
  assumes "mem_wf M" "dram_at M a"
  shows "cell (set_cell a v M) b = (if b = a then v else cell M b)"
proof -
  have "unat (a - s) = unat (b - s) \<longleftrightarrow> a = b" for s
    by (metis diff_add_cancel word_unat_eq_iff)
  then show ?thesis
    using in_dram_index [OF assms(1)] assms(2)
    by (auto simp: cell_def set_cell_def dram_at_def nth_list_update)
qed

lemma no_handler: "\<not> in_mmio M a \<Longrightarrow> match_mmio_handler M dm a w = Inr None"
  by (simp add: match_mmio_handler_def)

lemma phy_readm8_dram:
  "mem_wf M \<Longrightarrow> dram_at M a \<Longrightarrow> phy_readm8 vt a (M, d) = Inr (cell M a, (M, d))"
  by (simp add: phy_readm8_def dram_at_def no_handler cell_def in_dram_index)

lemma phy_writem8_dram:
  "mem_wf M \<Longrightarrow> dram_at M a \<Longrightarrow> phy_writem8 vt a v (M, d) = Inr (set_cell a v M, d)"
  by (simp add: phy_writem8_def dram_at_def no_handler set_cell_def in_dram_index)

subsection \<open>The interface the caches rely on\<close>

text \<open>
  A port to byte-addressed memory: on the addresses \<open>ram\<close>, reading returns the current byte and
  changes nothing, writing changes exactly one byte; \<open>rest\<close> is what else there is in the state.
\<close>

locale byte_port =
  fixes rd8 :: "phy_addr_t \<Rightarrow> 'm \<Rightarrow> halt + u8 \<times> 'm"
    and wr8 :: "phy_addr_t \<Rightarrow> u8 \<Rightarrow> 'm \<Rightarrow> halt + 'm"
    and byte :: "'m \<Rightarrow> phy_addr_t \<Rightarrow> u8"
    and ok :: "'m \<Rightarrow> bool"
    and ram :: "'m \<Rightarrow> phy_addr_t \<Rightarrow> bool"
    and rest :: "'m \<Rightarrow> 'r"
  assumes rd8_ram: "ok m \<Longrightarrow> ram m a \<Longrightarrow> rd8 a m = Inr (byte m a, m)"
    and wr8_ram: "ok m \<Longrightarrow> ram m a \<Longrightarrow>
      \<exists>m'. wr8 a v m = Inr m' \<and> ok m' \<and> ram m' = ram m \<and> rest m' = rest m \<and>
           byte m' = (byte m)(a := v)"

interpretation phys: byte_port "phy_readm8 vt" "phy_writem8 vt" "\<lambda>(M, d). cell M" "\<lambda>(M, d). mem_wf M"
  "\<lambda>(M, d). dram_at M" "\<lambda>(M, d). (M\<lparr>memory := []\<rparr>, d)" for vt
proof unfold_locales
  fix m :: "('a, 'b) bus" and a :: phy_addr_t and v :: u8
  assume ok: "case m of (M, d) \<Rightarrow> mem_wf M" and ram: "(case m of (M, d) \<Rightarrow> dram_at M) a"
  obtain M d where m: "m = (M, d)" by fastforce
  show "phy_readm8 vt a m = Inr ((case m of (M, d) \<Rightarrow> cell M) a, m)"
    using ok ram by (simp add: m phy_readm8_dram)
  have "set_cell a v M\<lparr>memory := []\<rparr> = M\<lparr>memory := []\<rparr>" by (simp add: set_cell_def)
  then show "\<exists>m'. phy_writem8 vt a v m = Inr m' \<and> (case m' of (M, d) \<Rightarrow> mem_wf M) \<and>
      (case m' of (M, d) \<Rightarrow> dram_at M) = (case m of (M, d) \<Rightarrow> dram_at M) \<and>
      (case m' of (M, d) \<Rightarrow> (M\<lparr>memory := []\<rparr>, d)) = (case m of (M, d) \<Rightarrow> (M\<lparr>memory := []\<rparr>, d)) \<and>
      (case m' of (M, d) \<Rightarrow> cell M) = (case m of (M, d) \<Rightarrow> cell M)(a := v)"
    using ok ram by (auto simp: m phy_writem8_dram cell_set_cell fun_eq_iff)
qed

subsection \<open>Wider accesses\<close>

lemma dram_range_unfold:
  "dram_range M a 2 \<longleftrightarrow> dram_at M a \<and> dram_at M (a + 1)"
  "dram_range M a 4 \<longleftrightarrow> dram_at M a \<and> dram_at M (a + 1) \<and> dram_at M (a + 2) \<and> dram_at M (a + 3)"
  "dram_range M a 8 \<longleftrightarrow> dram_at M a \<and> dram_at M (a + 1) \<and> dram_at M (a + 2) \<and> dram_at M (a + 3) \<and>
     dram_at M (a + 4) \<and> dram_at M (a + 5) \<and> dram_at M (a + 6) \<and> dram_at M (a + 7)"
  by (simp_all add: dram_range_def all_less)

lemma dram_atD: "dram_at M a \<Longrightarrow> in_dram M a" "dram_at M a \<Longrightarrow> \<not> in_mmio M a"
  by (simp_all add: dram_at_def)

lemma byte_of_low:
  "ucast (w AND 0x00ff) = byte_of 0 w" "ucast (x AND 0xff) = byte_of 0 x" "ucast (y AND 0xff) = byte_of 0 y"
  for w :: u16 and x :: u32 and y :: u64
proof -
  have m: "(0xff :: 'a::len word) = mask 8" by (simp add: mask_eq_exp_minus_1)
  show "ucast (w AND 0x00ff) = byte_of 0 w" "ucast (x AND 0xff) = byte_of 0 x" "ucast (y AND 0xff) = byte_of 0 y"
    unfolding m by (auto intro!: bit_eqI simp: byte_of_def bit_simps)
qed

lemma byte_of_unfold:
  "ucast (drop_bit 8 v) = byte_of 1 v" "ucast (drop_bit 16 v) = byte_of 2 v"
  "ucast (drop_bit 24 v) = byte_of 3 v" "ucast (drop_bit 32 v) = byte_of 4 v"
  "ucast (drop_bit 40 v) = byte_of 5 v" "ucast (drop_bit 48 v) = byte_of 6 v"
  "ucast (drop_bit 56 v) = byte_of 7 v" for v :: "'a::len word"
  by (simp_all add: byte_of_def)

fun set_cells_from :: "phy_addr_t \<Rightarrow> nat \<Rightarrow> u8 list \<Rightarrow> 'cb Memory \<Rightarrow> 'cb Memory" where
  "set_cells_from a k [] M = M"
| "set_cells_from a k (b # bs) M = set_cells_from a (Suc k) bs (set_cell (a + of_nat k) b M)"

definition set_cells :: "phy_addr_t \<Rightarrow> u8 list \<Rightarrow> 'cb Memory \<Rightarrow> 'cb Memory" where
  "set_cells a = set_cells_from a 0"

lemma set_cells_from_frame:
  "in_dram (set_cells_from a k bs M) = in_dram M \<and> in_mmio (set_cells_from a k bs M) = in_mmio M \<and>
   dram_at (set_cells_from a k bs M) = dram_at M \<and> dram_range (set_cells_from a k bs M) = dram_range M \<and>
   mem_wf (set_cells_from a k bs M) = mem_wf M"
  by (induction bs arbitrary: k M) simp_all

lemma set_cells_frame [simp]:
  "in_dram (set_cells a bs M) = in_dram M" "in_mmio (set_cells a bs M) = in_mmio M"
  "dram_at (set_cells a bs M) = dram_at M" "dram_range (set_cells a bs M) = dram_range M"
  "mem_wf (set_cells a bs M) = mem_wf M"
  by (simp_all add: set_cells_def set_cells_from_frame)

lemma set_cells_rest: "set_cells a bs M\<lparr>memory := []\<rparr> = M\<lparr>memory := []\<rparr>"
proof -
  have "set_cells_from a k bs M\<lparr>memory := []\<rparr> = M\<lparr>memory := []\<rparr>" for k
    by (induction bs arbitrary: k M) (simp_all add: set_cell_def)
  then show ?thesis by (simp add: set_cells_def)
qed

lemmas wide_simps = phy_writem8_dram phy_readm8_dram no_handler dram_atD byte_of_low byte_of_unfold
  dram_range_unfold

lemma phy_writem16_dram:
  "mem_wf M \<Longrightarrow> dram_range M a 2 \<Longrightarrow>
   phy_writem16 vt a v (M, d) = Inr (set_cells a [byte_of 0 v, byte_of 1 v] M, d)"
  by (simp add: phy_writem16_def wide_simps set_cells_def)

lemma phy_writem32_dram:
  "mem_wf M \<Longrightarrow> dram_range M a 4 \<Longrightarrow>
   phy_writem32 vt a v (M, d) =
     Inr (set_cells a [byte_of 0 v, byte_of 1 v, byte_of 2 v, byte_of 3 v] M, d)"
  by (simp add: phy_writem32_def wide_simps set_cells_def)

lemma phy_writem64_dram:
  "mem_wf M \<Longrightarrow> dram_range M a 8 \<Longrightarrow>
   phy_writem64 vt a v (M, d) =
     Inr (set_cells a [byte_of 0 v, byte_of 1 v, byte_of 2 v, byte_of 3 v,
                       byte_of 4 v, byte_of 5 v, byte_of 6 v, byte_of 7 v] M, d)"
  by (simp add: phy_writem64_def wide_simps set_cells_def)

definition half_at :: "'cb Memory \<Rightarrow> phy_addr_t \<Rightarrow> u16" where
  "half_at M a = push_bit 8 (ucast (cell M (a + 1))) OR ucast (cell M a)"

definition word_at :: "'cb Memory \<Rightarrow> phy_addr_t \<Rightarrow> u32" where
  "word_at M a = push_bit 24 (ucast (cell M (a + 3))) OR push_bit 16 (ucast (cell M (a + 2)))
     OR push_bit 8 (ucast (cell M (a + 1))) OR ucast (cell M a)"

definition dword_at :: "'cb Memory \<Rightarrow> phy_addr_t \<Rightarrow> u64" where
  "dword_at M a =
     push_bit 56 (ucast (cell M (a + 7))) OR push_bit 48 (ucast (cell M (a + 6)))
     OR push_bit 40 (ucast (cell M (a + 5))) OR push_bit 32 (ucast (cell M (a + 4)))
     OR push_bit 24 (ucast (cell M (a + 3))) OR push_bit 16 (ucast (cell M (a + 2)))
     OR push_bit 8 (ucast (cell M (a + 1))) OR ucast (cell M a)"

lemma phy_readm16_dram:
  "mem_wf M \<Longrightarrow> dram_range M a 2 \<Longrightarrow> phy_readm16 vt a (M, d) = Inr (half_at M a, (M, d))"
  by (simp add: phy_readm16_def half_at_def wide_simps)

lemma phy_readm32_dram:
  "mem_wf M \<Longrightarrow> dram_range M a 4 \<Longrightarrow> phy_readm32 vt a (M, d) = Inr (word_at M a, (M, d))"
  by (simp add: phy_readm32_def word_at_def wide_simps)

lemma phy_readm64_dram:
  "mem_wf M \<Longrightarrow> dram_range M a 8 \<Longrightarrow> phy_readm64 vt a (M, d) = Inr (dword_at M a, (M, d))"
  by (simp add: phy_readm64_def dword_at_def wide_simps)

lemma cell_set_cells_2:
  "mem_wf M \<Longrightarrow> dram_range M a 2 \<Longrightarrow>
   cell (set_cells a [b0, b1] M) b = (if b = a then b0 else if b = a + 1 then b1 else cell M b)"
  by (simp add: cell_set_cell dram_range_unfold set_cells_def)

lemma cell_set_cells_4:
  "mem_wf M \<Longrightarrow> dram_range M a 4 \<Longrightarrow>
   cell (set_cells a [b0, b1, b2, b3] M) b =
     (if b = a then b0 else if b = a + 1 then b1 else if b = a + 2 then b2
      else if b = a + 3 then b3 else cell M b)"
  by (simp add: cell_set_cell dram_range_unfold set_cells_def)

lemma cell_set_cells_8:
  "mem_wf M \<Longrightarrow> dram_range M a 8 \<Longrightarrow>
   cell (set_cells a [b0, b1, b2, b3, b4, b5, b6, b7] M) b =
     (if b = a then b0 else if b = a + 1 then b1 else if b = a + 2 then b2
      else if b = a + 3 then b3 else if b = a + 4 then b4 else if b = a + 5 then b5
      else if b = a + 6 then b6 else if b = a + 7 then b7 else cell M b)"
  by (simp add: cell_set_cell dram_range_unfold set_cells_def)

text \<open>
  Claim C19: storing a 16-, 32- or 64-bit value in DRAM succeeds, loading it back with the same width
  returns the value and leaves the state as it is, the byte at offset \<open>k\<close> is byte \<open>k\<close> of the
  value (little endian), no other byte changes, and no device is touched.
\<close>

theorem phy_write_read_dram:
  assumes "mem_wf M"
  shows "(dram_range M a 2 \<longrightarrow> (\<exists>M'. phy_writem16 vt a h (M, d) = Inr (M', d) \<and>
            phy_readm16 vt a (M', d) = Inr (h, (M', d)) \<and>
            (\<forall>k < 2. cell M' (a + of_nat k) = byte_of k h) \<and>
            (\<forall>b. b - a \<ge> 2 \<longrightarrow> cell M' b = cell M b))) \<and>
         (dram_range M a 4 \<longrightarrow> (\<exists>M'. phy_writem32 vt a w (M, d) = Inr (M', d) \<and>
            phy_readm32 vt a (M', d) = Inr (w, (M', d)) \<and>
            (\<forall>k < 4. cell M' (a + of_nat k) = byte_of k w) \<and>
            (\<forall>b. b - a \<ge> 4 \<longrightarrow> cell M' b = cell M b))) \<and>
         (dram_range M a 8 \<longrightarrow> (\<exists>M'. phy_writem64 vt a x (M, d) = Inr (M', d) \<and>
            phy_readm64 vt a (M', d) = Inr (x, (M', d)) \<and>
            (\<forall>k < 8. cell M' (a + of_nat k) = byte_of k x) \<and>
            (\<forall>b. b - a \<ge> 8 \<longrightarrow> cell M' b = cell M b)))"
proof (intro conjI impI)
  assume r: "dram_range M a 2"
  let ?M = "set_cells a [byte_of 0 h, byte_of 1 h] M"
  note c = cell_set_cells_2 [OF assms r]
  have "half_at ?M a = h" unfolding half_at_def c by (simp add: bytes_word16 del: One_nat_def)
  then show "\<exists>M'. phy_writem16 vt a h (M, d) = Inr (M', d) \<and>
            phy_readm16 vt a (M', d) = Inr (h, (M', d)) \<and>
            (\<forall>k < 2. cell M' (a + of_nat k) = byte_of k h) \<and>
            (\<forall>b. b - a \<ge> 2 \<longrightarrow> cell M' b = cell M b)"
    using assms r unfolding c
    by (intro exI [of _ ?M]) (auto simp: phy_writem16_dram phy_readm16_dram c all_less word_le_nat_alt)
next
  assume r: "dram_range M a 4"
  let ?M = "set_cells a [byte_of 0 w, byte_of 1 w, byte_of 2 w, byte_of 3 w] M"
  note c = cell_set_cells_4 [OF assms r]
  have "word_at ?M a = w" unfolding word_at_def c by (simp add: bytes_word32 del: One_nat_def)
  then show "\<exists>M'. phy_writem32 vt a w (M, d) = Inr (M', d) \<and>
            phy_readm32 vt a (M', d) = Inr (w, (M', d)) \<and>
            (\<forall>k < 4. cell M' (a + of_nat k) = byte_of k w) \<and>
            (\<forall>b. b - a \<ge> 4 \<longrightarrow> cell M' b = cell M b)"
    using assms r
    by (intro exI [of _ ?M]) (auto simp: phy_writem32_dram phy_readm32_dram c all_less word_le_nat_alt)
next
  assume r: "dram_range M a 8"
  let ?M = "set_cells a [byte_of 0 x, byte_of 1 x, byte_of 2 x, byte_of 3 x,
                         byte_of 4 x, byte_of 5 x, byte_of 6 x, byte_of 7 x] M"
  note c = cell_set_cells_8 [OF assms r]
  have "dword_at ?M a = x" unfolding dword_at_def c by (simp add: bytes_word64 del: One_nat_def)
  then show "\<exists>M'. phy_writem64 vt a x (M, d) = Inr (M', d) \<and>
            phy_readm64 vt a (M', d) = Inr (x, (M', d)) \<and>
            (\<forall>k < 8. cell M' (a + of_nat k) = byte_of k x) \<and>
            (\<forall>b. b - a \<ge> 8 \<longrightarrow> cell M' b = cell M b)"
    using assms r
    by (intro exI [of _ ?M]) (auto simp: phy_writem64_dram phy_readm64_dram c all_less word_le_nat_alt)
qed

text \<open>A small memory: 16 bytes of DRAM at \<open>0x80000000\<close> above an MMIO window with no device.\<close>

definition small_mem :: "unit Memory" where
  "small_mem = \<lparr>mem_has_cpu = True, mmio8 = Some [], mmio16 = Some [], mmio32 = Some [], mmio64 = None,
     memory = replicate 16 0, memory_size = 16, dram_phy_start = 0x80000000,
     mmio_phy_base = 0, mmio_phy_end_addr = 0x7fffffff\<rparr>"

lemma small_mem_wf: "mem_wf small_mem"
  by (simp add: mem_wf_def small_mem_def)

lemma small_mem_range: "dram_range small_mem 0x80000004 4"
  by (simp add: dram_range_unfold dram_at_def in_dram_def in_mmio_def small_mem_def)

theorem phy_write_read_dram_witness:
  "mem_wf small_mem \<and> dram_range small_mem 0x80000004 4 \<and>
   (\<exists>M'. phy_writem32 undefined 0x80000004 0xdeadbeef (small_mem, ()) = Inr (M', ()) \<and>
      phy_readm32 undefined 0x80000004 (M', ()) = Inr (0xdeadbeef, (M', ())) \<and>
      cell M' 0x80000003 = cell small_mem 0x80000003)"
proof -
  have "(4 :: u32) \<le> 0x80000003 - 0x80000004" by simp
  then show ?thesis
    using phy_write_read_dram [OF small_mem_wf, where a = "0x80000004" and vt = undefined and d = "()" and w = "0xdeadbeef"]
      small_mem_wf small_mem_range by blast
qed

section \<open>Accesses at the edges of the DRAM\<close>

text \<open>The array holds the \<open>n\<close> bytes from an address on, in unbounded arithmetic.\<close>

definition dram_holds :: "'cb Memory \<Rightarrow> phy_addr_t \<Rightarrow> nat \<Rightarrow> bool" where
  "dram_holds M a n \<longleftrightarrow> unat (dram_phy_start M) \<le> unat a \<and> unat a + n \<le> unat (dram_phy_start M) + length (memory M)"

text \<open>An access of up to eight bytes that does not touch the MMIO window and does not wrap around.\<close>

definition clear_of_mmio :: "'cb Memory \<Rightarrow> phy_addr_t \<Rightarrow> bool" where
  "clear_of_mmio M a \<longleftrightarrow> unat a + 8 \<le> unat (mmio_phy_base M) \<or> unat (mmio_phy_end_addr M) < unat a \<and> unat a + 8 \<le> 2 ^ 32"

lemma phy_8_cases:
  assumes "mem_wf M" "\<not> in_mmio M a"
  shows "phy_readm8 vt a (M, d) = (if in_dram M a then Inr (cell M a, (M, d)) else Inl (Panic 1))"
    and "phy_writem8 vt a b (M, d) = (if in_dram M a then Inr (set_cell a b M, d) else Inl (Panic 1))"
  using assms phy_readm8_dram [of M a vt d] phy_writem8_dram [of M a vt b d]
  by (auto simp: dram_at_def phy_readm8_def phy_writem8_def no_handler)

lemma clear_bytes:
  assumes "clear_of_mmio M a" "i < 8"
  shows "unat (a + of_nat i) = unat a + i" "\<not> in_mmio M (a + of_nat i)"
proof -
  have "unat (mmio_phy_base M) < 2 ^ 32" using unat_less_exp [of "mmio_phy_base M"] by simp
  then have "unat a + i < 2 ^ 32" using assms by (auto simp: clear_of_mmio_def)
  moreover have "unat (of_nat i :: u32) = i" using assms(2) by (simp add: unat_of_nat)
  ultimately show u: "unat (a + of_nat i) = unat a + i" by (simp add: unat_word_ariths)
  show "\<not> in_mmio M (a + of_nat i)"
    using assms u by (auto simp: in_mmio_def clear_of_mmio_def word_le_nat_alt)
qed

lemma clear_dram:
  assumes "mem_wf M" "clear_of_mmio M a"
  shows "i < 8 \<Longrightarrow> in_dram M (a + of_nat i) \<longleftrightarrow> unat (dram_phy_start M) \<le> unat a + i \<and>
      unat a + i < unat (dram_phy_start M) + length (memory M)"
    and "in_dram M a \<longleftrightarrow> dram_holds M a 1"
    and "n \<le> 8 \<Longrightarrow> dram_holds M a n \<Longrightarrow> dram_range M a n"
proof -
  have l: "unat (memory_size M) = length (memory M)" using assms(1) by (simp add: mem_wf_def)
  show 1: "in_dram M (a + of_nat i) \<longleftrightarrow> unat (dram_phy_start M) \<le> unat a + i \<and>
      unat a + i < unat (dram_phy_start M) + length (memory M)" if "i < 8" for i
    by (simp add: in_dram_nat [OF assms(1)] clear_bytes [OF assms(2) that] l)
  show "in_dram M a \<longleftrightarrow> dram_holds M a 1" using 1 [of 0] by (auto simp: dram_holds_def)
  show "dram_range M a n" if "n \<le> 8" "dram_holds M a n"
    using that 1 clear_bytes(2) [OF assms(2)] by (auto simp: dram_range_def dram_at_def dram_holds_def)
qed

text \<open>A store in the DRAM stops at the first byte past its end, a load at its last byte.\<close>

lemma phy_wide_past_end:
  assumes wf: "mem_wf M" and cl: "clear_of_mmio M a" and a: "dram_holds M a 1"
  shows "\<not> dram_holds M a 2 \<Longrightarrow> phy_readm16 vt a (M, d) = Inl (Panic 1) \<and> phy_writem16 vt a h (M, d) = Inl (Panic 1)"
    and "\<not> dram_holds M a 4 \<Longrightarrow> phy_readm32 vt a (M, d) = Inl (Panic 1) \<and> phy_writem32 vt a w (M, d) = Inl (Panic 1)"
    and "\<not> dram_holds M a 8 \<Longrightarrow> phy_readm64 vt a (M, d) = Inl (Panic 1) \<and> phy_writem64 vt a x (M, d) = Inl (Panic 1)"
proof -
  note m = clear_bytes(2) [OF cl]
  have ad: "in_dram M a" "\<not> in_mmio M a" using clear_dram(2) [OF wf cl] a m [of 0] by simp_all
  have out: "\<not> dram_holds M a (i + 1) \<Longrightarrow> i < 8 \<Longrightarrow> \<not> in_dram M (a + of_nat i)" for i
    using a by (auto simp: clear_dram(1) [OF wf cl] dram_holds_def)
  note b = m [of 1, simplified] m [of 2, simplified] m [of 3, simplified] m [of 4, simplified] m [of 5, simplified]
    m [of 6, simplified] m [of 7, simplified]
  note c = phy_8_cases wf ad b no_handler
  show "phy_readm16 vt a (M, d) = Inl (Panic 1) \<and> phy_writem16 vt a h (M, d) = Inl (Panic 1)" if "\<not> dram_holds M a 2"
    using out [of 1] that by (simp add: phy_readm16_def phy_writem16_def c numeral_2_eq_2)
  show "phy_readm32 vt a (M, d) = Inl (Panic 1) \<and> phy_writem32 vt a w (M, d) = Inl (Panic 1)" if "\<not> dram_holds M a 4"
    using out [of 3] that by (simp add: phy_readm32_def phy_writem32_def c)
  show "phy_readm64 vt a (M, d) = Inl (Panic 1) \<and> phy_writem64 vt a x (M, d) = Inl (Panic 1)" if "\<not> dram_holds M a 8"
    using out [of 7] that by (simp add: phy_readm64_def phy_writem64_def c)
qed

lemma phy_wide_outside:
  assumes "\<not> in_mmio M a" "\<not> in_dram M a"
  shows "phy_readm16 vt a (M, d) = Inl (Panic 1)" "phy_writem16 vt a h (M, d) = Inr (M, d)"
    "phy_readm32 vt a (M, d) = Inl (Panic 1)" "phy_writem32 vt a w (M, d) = Inr (M, d)"
    "phy_readm64 vt a (M, d) = Inl (Panic 1)" "phy_writem64 vt a x (M, d) = Inr (M, d)"
  using assms by (simp_all add: phy_readm16_def phy_writem16_def phy_readm32_def phy_writem32_def phy_readm64_def phy_writem64_def no_handler)

lemma three_outcomes:
  assumes "P \<Longrightarrow> r = x" "Q \<Longrightarrow> \<not> P \<Longrightarrow> r = y" "\<not> Q \<Longrightarrow> r = z" "P \<Longrightarrow> Q"
  shows "r = (if P then x else if Q then y else z)"
  using assms by auto

text \<open>
  Claim C39: the outcome of every access that does not touch the MMIO window, at the exact bounds of the DRAM. A load returns the bytes of the array when all of them
  lie in it and ends the process with exit code 1 otherwise. A store of a byte does the same. A store of 2, 4 or 8 bytes is carried out when all its bytes lie in
  the array, ends the process with exit code 1 when it starts in the array and runs past its end, and is silently dropped when it starts outside. No access reads or writes
  past the array.
\<close>

theorem phy_access_bounds:
  assumes "mem_wf M" and "clear_of_mmio M a"
  shows "phy_readm8 vt a (M, d) = (if dram_holds M a 1 then Inr (memory M ! (unat a - unat (dram_phy_start M)), (M, d)) else Inl (Panic 1)) \<and>
    phy_writem8 vt a b (M, d) =
      (if dram_holds M a 1 then Inr (M\<lparr>memory := (memory M)[unat a - unat (dram_phy_start M) := b]\<rparr>, d) else Inl (Panic 1)) \<and>
    phy_readm16 vt a (M, d) = (if dram_holds M a 2 then Inr (half_at M a, (M, d)) else Inl (Panic 1)) \<and>
    phy_readm32 vt a (M, d) = (if dram_holds M a 4 then Inr (word_at M a, (M, d)) else Inl (Panic 1)) \<and>
    phy_readm64 vt a (M, d) = (if dram_holds M a 8 then Inr (dword_at M a, (M, d)) else Inl (Panic 1)) \<and>
    phy_writem16 vt a h (M, d) = (if dram_holds M a 2 then Inr (set_cells a [byte_of 0 h, byte_of 1 h] M, d)
      else if dram_holds M a 1 then Inl (Panic 1) else Inr (M, d)) \<and>
    phy_writem32 vt a w (M, d) = (if dram_holds M a 4 then Inr (set_cells a [byte_of 0 w, byte_of 1 w, byte_of 2 w, byte_of 3 w] M, d)
      else if dram_holds M a 1 then Inl (Panic 1) else Inr (M, d)) \<and>
    phy_writem64 vt a x (M, d) = (if dram_holds M a 8 then Inr (set_cells a [byte_of 0 x, byte_of 1 x, byte_of 2 x, byte_of 3 x,
        byte_of 4 x, byte_of 5 x, byte_of 6 x, byte_of 7 x] M, d)
      else if dram_holds M a 1 then Inl (Panic 1) else Inr (M, d))"
proof -
  note D = clear_dram(2,3) [OF assms]
  have m: "\<not> in_mmio M a" using clear_bytes(2) [OF assms(2), of 0] by simp
  have o: "unat (a - dram_phy_start M) = unat a - unat (dram_phy_start M)" if "dram_holds M a 1"
    using that by (simp add: dram_holds_def unat_sub word_le_nat_alt)
  have one2: "dram_holds M a 2 \<Longrightarrow> dram_holds M a 1" and one4: "dram_holds M a 4 \<Longrightarrow> dram_holds M a 1"
    and one8: "dram_holds M a 8 \<Longrightarrow> dram_holds M a 1"
    by (simp_all add: dram_holds_def)
  have D2: "dram_holds M a 2 \<Longrightarrow> dram_range M a 2" and D4: "dram_holds M a 4 \<Longrightarrow> dram_range M a 4"
    and D8: "dram_holds M a 8 \<Longrightarrow> dram_range M a 8"
    using D(2) by simp_all
  have out: "\<not> dram_holds M a 1 \<Longrightarrow> \<not> in_dram M a" by (simp add: D(1))
  note O = phy_wide_outside [OF m out]
  note past = phy_wide_past_end [OF assms]
  have b8: "phy_readm8 vt a (M, d) = (if dram_holds M a 1 then Inr (memory M ! (unat a - unat (dram_phy_start M)), (M, d)) else Inl (Panic 1))"
    "phy_writem8 vt a b (M, d) =
      (if dram_holds M a 1 then Inr (M\<lparr>memory := (memory M)[unat a - unat (dram_phy_start M) := b]\<rparr>, d) else Inl (Panic 1))"
    using o by (simp_all add: phy_8_cases [OF assms(1) m] D(1) cell_def set_cell_def)
  have r16: "phy_readm16 vt a (M, d) = (if dram_holds M a 2 then Inr (half_at M a, (M, d)) else if dram_holds M a 1 then Inl (Panic 1) else Inl (Panic 1))"
    by (rule three_outcomes [OF phy_readm16_dram [OF assms(1) D2] past(1) [THEN conjunct1] O(1) one2])
  have w16: "phy_writem16 vt a h (M, d) = (if dram_holds M a 2 then Inr (set_cells a [byte_of 0 h, byte_of 1 h] M, d)
      else if dram_holds M a 1 then Inl (Panic 1) else Inr (M, d))"
    by (rule three_outcomes [OF phy_writem16_dram [OF assms(1) D2] past(1) [THEN conjunct2] O(2) one2])
  have r32: "phy_readm32 vt a (M, d) = (if dram_holds M a 4 then Inr (word_at M a, (M, d)) else if dram_holds M a 1 then Inl (Panic 1) else Inl (Panic 1))"
    by (rule three_outcomes [OF phy_readm32_dram [OF assms(1) D4] past(2) [THEN conjunct1] O(3) one4])
  have w32: "phy_writem32 vt a w (M, d) = (if dram_holds M a 4 then Inr (set_cells a [byte_of 0 w, byte_of 1 w, byte_of 2 w, byte_of 3 w] M, d)
      else if dram_holds M a 1 then Inl (Panic 1) else Inr (M, d))"
    by (rule three_outcomes [OF phy_writem32_dram [OF assms(1) D4] past(2) [THEN conjunct2] O(4) one4])
  have r64: "phy_readm64 vt a (M, d) = (if dram_holds M a 8 then Inr (dword_at M a, (M, d)) else if dram_holds M a 1 then Inl (Panic 1) else Inl (Panic 1))"
    by (rule three_outcomes [OF phy_readm64_dram [OF assms(1) D8] past(3) [THEN conjunct1] O(5) one8])
  have w64: "phy_writem64 vt a x (M, d) = (if dram_holds M a 8 then Inr (set_cells a [byte_of 0 x, byte_of 1 x, byte_of 2 x, byte_of 3 x, byte_of 4 x, byte_of 5 x, byte_of 6 x, byte_of 7 x] M, d)
      else if dram_holds M a 1 then Inl (Panic 1) else Inr (M, d))"
    by (rule three_outcomes [OF phy_writem64_dram [OF assms(1) D8] past(3) [THEN conjunct2] O(6) one8])
  show ?thesis using b8 r16 w16 r32 w32 r64 w64 unfolding if_cancel by (intro conjI)
qed

theorem phy_access_bounds_witness:
  "mem_wf small_mem \<and> clear_of_mmio small_mem 0x8000000e \<and>
   phy_writem32 undefined 0x8000000e 1 (small_mem, ()) = Inl (Panic 1) \<and>
   phy_readm16 undefined 0x8000000e (small_mem, ()) = Inr (half_at small_mem 0x8000000e, (small_mem, ())) \<and>
   phy_writem32 undefined 0x80000010 1 (small_mem, ()) = Inr (small_mem, ())"
proof -
  have c: "clear_of_mmio small_mem 0x8000000e" "clear_of_mmio small_mem 0x80000010"
    by (simp_all add: clear_of_mmio_def small_mem_def)
  have h: "dram_holds small_mem 0x8000000e 2" "dram_holds small_mem 0x8000000e 1" "\<not> dram_holds small_mem 0x8000000e 4"
    "\<not> dram_holds small_mem 0x80000010 1" "\<not> dram_holds small_mem 0x80000010 4"
    by (simp_all add: dram_holds_def small_mem_def)
  show ?thesis
    using phy_access_bounds [OF small_mem_wf c(1), where d = "()" and vt = undefined and w = 1]
      phy_access_bounds [OF small_mem_wf c(2), where d = "()" and vt = undefined and w = 1] small_mem_wf c(1)
    unfolding if_P [OF h(1)] if_P [OF h(2)] if_not_P [OF h(3)] if_not_P [OF h(4)] if_not_P [OF h(5)] by blast
qed

section \<open>Loading\<close>

lemma load_chunks_blit:
  "pos + length bs \<le> length buf \<Longrightarrow>
   load_chunks pos bs buf = Inr (take pos buf @ bs @ drop (pos + length bs) buf)"
proof (induction pos bs buf rule: load_chunks.induct)
  case (1 pos bs buf)
  show ?case
  proof (cases "bs = []")
    case True
    then show ?thesis by (simp add: load_chunks.simps)
  next
    case False
    let ?c = "take CHUNK_SIZE bs"
    have fits: "pos + length ?c \<le> length buf" using "1.prems" by simp
    have "load_chunks pos bs buf = load_chunks (pos + length ?c) (drop CHUNK_SIZE bs)
        (take pos buf @ ?c @ drop (pos + length ?c) buf)"
      using False fits by (subst load_chunks.simps) (simp add: Let_def)
    also have "\<dots> = Inr (take pos buf @ bs @ drop (pos + length bs) buf)"
    proof -
      define c where "c = ?c"
      define r where "r = drop CHUNK_SIZE bs"
      have bs: "bs = c @ r" by (simp add: c_def r_def)
      let ?b = "take pos buf @ c @ drop (pos + length c) buf"
      have p: "pos + length c + length r \<le> length buf" using "1.prems" by (simp add: bs)
      then have "load_chunks (pos + length c) r ?b =
          Inr (take (pos + length c) ?b @ r @ drop (pos + length c + length r) ?b)"
        using "1.IH" [OF False refl fits] unfolding c_def [symmetric] r_def [symmetric] by simp
      also have "take (pos + length c) ?b @ r @ drop (pos + length c + length r) ?b =
          take pos buf @ (c @ r) @ drop (pos + length (c @ r)) buf"
        using p by (simp add: ac_simps)
      finally show ?thesis unfolding c_def [symmetric] r_def [symmetric] bs [symmetric] .
    qed
    finally show ?thesis .
  qed
qed

lemma load_chunks_overflow:
  "pos \<le> length buf \<Longrightarrow> length buf < pos + length bs \<Longrightarrow> load_chunks pos bs buf = Inl Undefined"
proof (induction pos bs buf rule: load_chunks.induct)
  case (1 pos bs buf)
  then have ne: "bs \<noteq> []" by auto
  let ?c = "take CHUNK_SIZE bs"
  show ?case
  proof (cases "pos + length ?c \<le> length buf")
    case True
    then have "load_chunks (pos + length ?c) (drop CHUNK_SIZE bs)
        (take pos buf @ ?c @ drop (pos + length ?c) buf) = Inl Undefined"
      by (intro "1.IH" [OF ne refl True]) (use "1.prems" in auto)
    with ne True show ?thesis by (subst load_chunks.simps) (simp add: Let_def)
  next
    case False
    with ne show ?thesis by (subst load_chunks.simps) (simp add: Let_def)
  qed
qed

text \<open>
  Claim C38: loading an image chunk by chunk copies the whole file to the load address and changes
  nothing else when it fits; a file that is longer than the DRAM behind the load address is written
  past the end of the array, and a file that could not be opened is used all the same.
\<close>

theorem load_address_fp_correct:
  assumes "mem_wf M" and "in_dram M base"
  shows "load_address_fp (Some file) base M =
      (let i = unat (base - dram_phy_start M) in
       if i + length file \<le> length (memory M)
       then Inr (0, M\<lparr>memory := take i (memory M) @ file @ drop (i + length file) (memory M)\<rparr>)
       else Inl Undefined) \<and>
    load_address_fp None base M = Inl Undefined"
  using assms in_dram_index [OF assms]
  by (simp add: load_address_fp_def load_chunks_blit load_chunks_overflow Let_def)

theorem load_address_fp_correct_witness:
  "mem_wf small_mem \<and> in_dram small_mem 0x80000004 \<and>
   load_address_fp (Some (replicate 20 7)) 0x80000004 small_mem = Inl Undefined"
proof -
  have d: "in_dram small_mem 0x80000004" by (simp add: in_dram_def small_mem_def)
  with load_address_fp_correct [OF small_mem_wf d, of "replicate 20 7"] small_mem_wf
  show ?thesis by (simp add: small_mem_def Let_def)
qed

section \<open>Safety of the accessors\<close>

text \<open>
  What the memory relies on when it calls a registered handler: no handler stops with undefined
  behaviour from a device state with the invariant \<open>dinv\<close>, and every handler keeps it. The contract is
  stated for the handlers that a domain holds, at addresses of the registered window.
\<close>

definition domain_ok ::
  "('cb \<Rightarrow> phy_addr_t \<Rightarrow> bool) \<Rightarrow> 'cb mmio_domain \<Rightarrow> bool" where
  "domain_ok window dm \<longleftrightarrow> (\<forall>nodes. dm = Some nodes \<longrightarrow> (\<forall>n \<in> set nodes. \<forall>a.
     nd_start_addr n \<le> a \<longrightarrow> a \<le> nd_end_addr n \<longrightarrow> window (nd_callback n) a))"

definition mem_domains_ok :: "('cb \<Rightarrow> phy_addr_t \<Rightarrow> bool) \<Rightarrow> 'cb Memory \<Rightarrow> bool" where
  "mem_domains_ok window M \<longleftrightarrow> mmio8 M \<noteq> None \<and> mmio16 M \<noteq> None \<and> mmio32 M \<noteq> None \<and>
     domain_ok window (mmio8 M) \<and> domain_ok window (mmio16 M) \<and> domain_ok window (mmio32 M)"

definition bus_inv :: "('cb \<Rightarrow> phy_addr_t \<Rightarrow> bool) \<Rightarrow> ('d \<Rightarrow> bool) \<Rightarrow> ('cb, 'd) bus \<Rightarrow> bool" where
  "bus_inv window dinv = (\<lambda>(M, d). mem_wf M \<and> mem_domains_ok window M \<and> dinv d)"

definition safeE :: "('a \<Rightarrow> bool) \<Rightarrow> halt + 'a \<Rightarrow> bool" where
  "safeE Q r \<longleftrightarrow> (case r of Inl e \<Rightarrow> e \<noteq> Undefined \<and> e \<noteq> AssertFail | Inr x \<Rightarrow> Q x)"

lemma safeE_simps [simp]:
  "safeE Q (Inr x) = Q x" "safeE Q (Inl (Panic c))" "\<not> safeE Q (Inl Undefined)" "\<not> safeE Q (Inl AssertFail)"
  by (simp_all add: safeE_def)

lemma safeE_bnd: "safeE P m \<Longrightarrow> (\<And>x. P x \<Longrightarrow> safeE Q (f x)) \<Longrightarrow> safeE Q (bnd m f)"
  by (cases m) (auto simp: safeE_def)

lemma safeE_mono: "safeE P m \<Longrightarrow> (\<And>x. P x \<Longrightarrow> Q x) \<Longrightarrow> safeE Q m"
  by (auto simp: safeE_def split: sum.splits)

locale mmio_device =
  fixes vt :: "('cb, 'd) MMIOCallback"
    and window :: "'cb \<Rightarrow> phy_addr_t \<Rightarrow> bool"
    and dinv :: "'d \<Rightarrow> bool"
  assumes w8: "dinv d \<Longrightarrow> window cb a \<Longrightarrow> safeE dinv (cb_writem8 vt cb a v8 op d)"
    and w16: "dinv d \<Longrightarrow> window cb a \<Longrightarrow> safeE dinv (cb_writem16 vt cb a v16 op d)"
    and w32: "dinv d \<Longrightarrow> window cb a \<Longrightarrow> safeE dinv (cb_writem32 vt cb a v32 op d)"
    and r8: "dinv d \<Longrightarrow> window cb a \<Longrightarrow> safeE (\<lambda>(v, d'). dinv d') (cb_readm8 vt cb a op d)"
    and r16: "dinv d \<Longrightarrow> window cb a \<Longrightarrow> safeE (\<lambda>(v, d'). dinv d') (cb_readm16 vt cb a op d)"
    and r32: "dinv d \<Longrightarrow> window cb a \<Longrightarrow> safeE (\<lambda>(v, d'). dinv d') (cb_readm32 vt cb a op d)"
begin

lemma handler_safe:
  assumes "domain_ok window dm" "dm \<noteq> None"
  shows "safeE (\<lambda>h. (h = None \<longrightarrow> \<not> in_mmio M a) \<and> (\<forall>n. h = Some n \<longrightarrow> window (nd_callback n) a))
           (match_mmio_handler M dm a w)"
  using assms
  by (auto simp: match_mmio_handler_def domain_ok_def find_Some_iff dest!: nth_mem split: option.splits)

lemma updE_dram: "mem_wf M \<Longrightarrow> in_dram M a \<Longrightarrow>
    updE (memory M) (unat (a - dram_phy_start M)) v = Inr ((memory M)[unat (a - dram_phy_start M) := v])"
  by (simp add: in_dram_index)

lemma bus_inv_store:
  "bus_inv window dinv (M, d) \<Longrightarrow>
   bus_inv window dinv (M\<lparr>memory := (memory M)[i := v]\<rparr>, d)"
  by (simp add: bus_inv_def mem_wf_def mem_domains_ok_def)

lemma bus_invD:
  assumes "bus_inv window dinv (M, d)"
  shows "mem_wf M" "dinv d" "domain_ok window (mmio8 M)" "mmio8 M \<noteq> None"
    "domain_ok window (mmio16 M)" "mmio16 M \<noteq> None" "domain_ok window (mmio32 M)" "mmio32 M \<noteq> None"
  using assms by (simp_all add: bus_inv_def mem_domains_ok_def)

lemma bus_inv_dev: "bus_inv window dinv (M, d) \<Longrightarrow> dinv d' \<Longrightarrow> bus_inv window dinv (M, d')"
  by (simp add: bus_inv_def)

lemma phy_writem8_safe:
  assumes "bus_inv window dinv s"
  shows "safeE (bus_inv window dinv) (phy_writem8 vt a v s)"
proof -
  obtain M d where s: "s = (M, d)" by fastforce
  note I = bus_invD [OF assms [unfolded s]]
  show ?thesis
    unfolding s phy_writem8_def prod.case
  proof (rule safeE_bnd [OF handler_safe [OF I(3,4)]], goal_cases)
    case (1 h)
    show ?case
    proof (cases h)
      case None
      then show ?thesis
        using assms I(1) by (simp add: s updE_dram bus_inv_store)
    next
      case (Some n)
      with 1 have "window (nd_callback n) a" by simp
      then show ?thesis
        unfolding Some option.case
        by (intro safeE_bnd [OF w8 [OF I(2)]]) (use assms in \<open>simp_all add: s bus_inv_dev\<close>)
    qed
  qed
qed

lemma phy_readm8_safe:
  assumes "bus_inv window dinv s"
  shows "safeE (\<lambda>(v, s'). bus_inv window dinv s') (phy_readm8 vt a s)"
proof -
  obtain M d where s: "s = (M, d)" by fastforce
  note I = bus_invD [OF assms [unfolded s]]
  show ?thesis
    unfolding s phy_readm8_def prod.case
  proof (rule safeE_bnd [OF handler_safe [OF I(3,4)]], goal_cases)
    case (1 h)
    show ?case
    proof (cases h)
      case None
      then show ?thesis
        using assms I(1) by (simp add: s in_dram_index)
    next
      case (Some n)
      with 1 have "window (nd_callback n) a" by simp
      then show ?thesis
        unfolding Some option.case
        by (intro safeE_bnd [OF r8 [OF I(2)]]) (use assms in \<open>auto simp: s intro: bus_inv_dev\<close>)
    qed
  qed
qed

lemma phy_writem16_safe:
  assumes "bus_inv window dinv s"
  shows "safeE (bus_inv window dinv) (phy_writem16 vt a v s)"
proof -
  obtain M d where s: "s = (M, d)" by fastforce
  note I = bus_invD [OF assms [unfolded s]]
  show ?thesis
    unfolding s phy_writem16_def prod.case
  proof (rule safeE_bnd [OF handler_safe [OF I(5,6)]], goal_cases)
    case (1 h)
    show ?case
    proof (cases h)
      case None
      then show ?thesis
        using assms
        by (auto simp: s intro!: safeE_bnd [OF phy_writem8_safe] phy_writem8_safe)
    next
      case (Some n)
      with 1 have "window (nd_callback n) a" by simp
      then show ?thesis
        unfolding Some option.case
        by (intro safeE_bnd [OF w16 [OF I(2)]]) (use assms in \<open>simp_all add: s bus_inv_dev\<close>)
    qed
  qed
qed

lemma phy_readm16_safe:
  assumes "bus_inv window dinv s"
  shows "safeE (\<lambda>(v, s'). bus_inv window dinv s') (phy_readm16 vt a s)"
proof -
  obtain M d where s: "s = (M, d)" by fastforce
  note I = bus_invD [OF assms [unfolded s]]
  show ?thesis
    unfolding s phy_readm16_def prod.case
  proof (rule safeE_bnd [OF handler_safe [OF I(5,6)]], goal_cases)
    case (1 h)
    show ?case
    proof (cases h)
      case None
      then show ?thesis
        using assms
        by (auto simp: s intro!: safeE_bnd [OF phy_readm8_safe])
    next
      case (Some n)
      with 1 have "window (nd_callback n) a" by simp
      then show ?thesis
        unfolding Some option.case
        by (intro safeE_bnd [OF r16 [OF I(2)]]) (use assms in \<open>auto simp: s intro: bus_inv_dev\<close>)
    qed
  qed
qed

lemma phy_writem32_safe:
  assumes "bus_inv window dinv s"
  shows "safeE (bus_inv window dinv) (phy_writem32 vt a v s)"
proof -
  obtain M d where s: "s = (M, d)" by fastforce
  note I = bus_invD [OF assms [unfolded s]]
  show ?thesis
    unfolding s phy_writem32_def prod.case
  proof (rule safeE_bnd [OF handler_safe [OF I(7,8)]], goal_cases)
    case (1 h)
    show ?case
    proof (cases h)
      case None
      then show ?thesis
        using assms
        by (auto simp: s intro!: safeE_bnd [OF phy_writem8_safe] phy_writem8_safe)
    next
      case (Some n)
      with 1 have "window (nd_callback n) a" by simp
      then show ?thesis
        unfolding Some option.case
        by (intro safeE_bnd [OF w32 [OF I(2)]]) (use assms in \<open>simp_all add: s bus_inv_dev\<close>)
    qed
  qed
qed

lemma phy_readm32_safe:
  assumes "bus_inv window dinv s"
  shows "safeE (\<lambda>(v, s'). bus_inv window dinv s') (phy_readm32 vt a s)"
proof -
  obtain M d where s: "s = (M, d)" by fastforce
  note I = bus_invD [OF assms [unfolded s]]
  show ?thesis
    unfolding s phy_readm32_def prod.case
  proof (rule safeE_bnd [OF handler_safe [OF I(7,8)]], goal_cases)
    case (1 h)
    show ?case
    proof (cases h)
      case None
      then show ?thesis
        using assms
        by (auto simp: s intro!: safeE_bnd [OF phy_readm8_safe])
    next
      case (Some n)
      with 1 have "window (nd_callback n) a" by simp
      then show ?thesis
        unfolding Some option.case
        by (intro safeE_bnd [OF r32 [OF I(2)]]) (use assms in \<open>auto simp: s intro: bus_inv_dev\<close>)
    qed
  qed
qed

lemma phy_readm64_safe:
  assumes "bus_inv window dinv s" and "\<not> in_mmio (fst s) a"
  shows "safeE (\<lambda>(v, s'). bus_inv window dinv s') (phy_readm64 vt a s)"
proof -
  obtain M d where s: "s = (M, d)" by fastforce
  have "match_mmio_handler M (mmio64 M) a False = Inr None" using assms(2) by (simp add: s match_mmio_handler_def)
  then show ?thesis
    using assms(1) by (auto simp: s phy_readm64_def intro!: safeE_bnd [OF phy_readm8_safe])
qed

lemma phy_writem64_safe:
  assumes "bus_inv window dinv s" and "\<not> in_mmio (fst s) a"
  shows "safeE (bus_inv window dinv) (phy_writem64 vt a v s)"
proof -
  obtain M d where s: "s = (M, d)" by fastforce
  have "match_mmio_handler M (mmio64 M) a True = Inr None" using assms(2) by (simp add: s match_mmio_handler_def)
  then show ?thesis
    using assms(1) by (auto simp: s phy_writem64_def intro!: safeE_bnd [OF phy_writem8_safe] phy_writem8_safe)
qed

end

text \<open>The memory accesses change the contents of the array only.\<close>

definition bus_frame :: "('cb, 'd) bus \<Rightarrow> 'cb Memory" where
  "bus_frame s = (fst s)\<lparr>memory := []\<rparr>"

lemma phy_writem8_frame: "phy_writem8 vt a v s = Inr s' \<Longrightarrow> bus_frame s' = bus_frame s"
  by (cases s) (auto simp: phy_writem8_def bus_frame_def updE_eq_Inr split: option.splits if_splits)

lemma phy_readm8_frame: "phy_readm8 vt a s = Inr (v, s') \<Longrightarrow> bus_frame s' = bus_frame s"
  by (cases s) (auto simp: phy_readm8_def bus_frame_def split: option.splits if_splits)

lemma phy_write_frame:
  "phy_writem16 vt a v16 s = Inr s' \<Longrightarrow> bus_frame s' = bus_frame s" "phy_writem32 vt a v32 s = Inr s' \<Longrightarrow> bus_frame s' = bus_frame s"
  "phy_writem64 vt a v64 s = Inr s' \<Longrightarrow> bus_frame s' = bus_frame s"
  by (cases s; auto simp: phy_writem16_def phy_writem32_def phy_writem64_def bus_frame_def
      dest!: phy_writem8_frame split: option.splits if_splits)+

lemma phy_read_frame:
  "phy_readm16 vt a s = Inr (v16, s') \<Longrightarrow> bus_frame s' = bus_frame s" "phy_readm32 vt a s = Inr (v32, s') \<Longrightarrow> bus_frame s' = bus_frame s"
  "phy_readm64 vt a s = Inr (v64, s') \<Longrightarrow> bus_frame s' = bus_frame s"
  by (cases s; auto simp: phy_readm16_def phy_readm32_def phy_readm64_def bus_frame_def
      dest!: phy_readm8_frame split: option.splits if_splits)+

lemma in_mmio_frame: "in_mmio (bus_frame s) = in_mmio (fst s)"
  by (simp add: bus_frame_def in_mmio_def fun_eq_iff)

text \<open>The invariant of the bus, with the windows and handler lists of \<open>W\<close>.\<close>

definition bus_ok :: "('cb \<Rightarrow> phy_addr_t \<Rightarrow> bool) \<Rightarrow> ('d \<Rightarrow> bool) \<Rightarrow> 'cb Memory \<Rightarrow> ('cb, 'd) bus \<Rightarrow> bool" where
  "bus_ok window dinv W s \<longleftrightarrow> bus_inv window dinv s \<and> bus_frame s = W"

text \<open>The constructor leaves the list of the 64-bit handlers uninitialised, and nothing registers one.\<close>

lemma phy_64_undefined:
  assumes "mmio64 M = None" "in_mmio M a"
  shows "phy_readm64 vt a (M, d) = Inl Undefined" "phy_writem64 vt a x (M, d) = Inl Undefined"
  using assms by (simp_all add: phy_readm64_def phy_writem64_def match_mmio_handler_def)

end
