(* ===== verification/Cache.thy ===== *)
theory Cache
  imports Memory
begin

text \<open>
  The caches of \<open>em/csrc/cache.cc\<close>: set associative, write back, write allocate, with a
  least-recently-used counter per way. The cache calls the memory through the record \<open>mem_ops\<close>
  of the six accessors it uses. Arrays are nested lists with the dimensions the constructor
  allocates; \<open>cache_dirty\<close> is indexed by set first and way second, the others by way
  first, as in the source. The parameters \<open>m_P_WAYS\<close>, \<open>m_P_SETS\<close>, \<open>m_P_LINE\<close> are the logarithms of the
  sizes; the scratch arrays \<open>match\<close> and \<open>sfree\<close> are local lists, since \<open>access\<close> assigns every entry
  before it reads it.
\<close>

section \<open>State\<close>

record 'm mem_ops =
  op_readm8 :: "phy_addr_t \<Rightarrow> 'm \<Rightarrow> halt + u8 \<times> 'm"
  op_readm16 :: "phy_addr_t \<Rightarrow> 'm \<Rightarrow> halt + u16 \<times> 'm"
  op_readm32 :: "phy_addr_t \<Rightarrow> 'm \<Rightarrow> halt + u32 \<times> 'm"
  op_writem8 :: "phy_addr_t \<Rightarrow> u8 \<Rightarrow> 'm \<Rightarrow> halt + 'm"
  op_writem16 :: "phy_addr_t \<Rightarrow> u16 \<Rightarrow> 'm \<Rightarrow> halt + 'm"
  op_writem32 :: "phy_addr_t \<Rightarrow> u32 \<Rightarrow> 'm \<Rightarrow> halt + 'm"

definition phy_ops :: "('cb, 'd) MMIOCallback \<Rightarrow> ('cb, 'd) bus mem_ops" where
  "phy_ops vt = \<lparr>op_readm8 = phy_readm8 vt, op_readm16 = phy_readm16 vt, op_readm32 = phy_readm32 vt,
     op_writem8 = phy_writem8 vt, op_writem16 = phy_writem16 vt, op_writem32 = phy_writem32 vt\<rparr>"

record Cache =
  cache_enabled :: bool
  m_P_WAYS :: nat
  m_P_SETS :: nat
  m_P_LINE :: nat
  cache_v :: "bool list list"
  cache_dirty :: "bool list list"
  cache_lru :: "nat list list"
  cache_addr :: "phy_addr_t list list"
  cache_lines :: "u8 list list list"
  freq_hit :: u64
  freq_miss :: u64
  freq_miss_writeback :: u64

text \<open>Checked two-dimensional accesses.\<close>

definition nth2 :: "'a list list \<Rightarrow> nat \<Rightarrow> nat \<Rightarrow> halt + 'a" where
  "nth2 xss i j = bnd (nthE xss i) (\<lambda>xs. nthE xs j)"

definition upd2 :: "'a list list \<Rightarrow> nat \<Rightarrow> nat \<Rightarrow> 'a \<Rightarrow> halt + 'a list list" where
  "upd2 xss i j v = bnd (nthE xss i) (\<lambda>xs. bnd (updE xs j v) (\<lambda>ys. updE xss i ys))"

definition n_ways :: "Cache \<Rightarrow> nat" where "n_ways c = 2 ^ m_P_WAYS c"
definition n_sets :: "Cache \<Rightarrow> nat" where "n_sets c = 2 ^ m_P_SETS c"
definition line_size :: "Cache \<Rightarrow> nat" where "line_size c = 2 ^ m_P_LINE c"

definition m_block_offset_mask :: "Cache \<Rightarrow> u32" where
  "m_block_offset_mask c = push_bit (m_P_LINE c) 1 - 1"

definition entry_of :: "Cache \<Rightarrow> phy_addr_t \<Rightarrow> nat" where
  "entry_of c pa = unat (drop_bit (m_P_LINE c) pa AND (push_bit (m_P_SETS c) 1 - 1))"

definition tag_of :: "Cache \<Rightarrow> phy_addr_t \<Rightarrow> phy_addr_t" where
  "tag_of c pa = drop_bit (m_P_LINE c + m_P_SETS c) pa"

definition line_paddr :: "Cache \<Rightarrow> phy_addr_t \<Rightarrow> nat \<Rightarrow> phy_addr_t" where
  "line_paddr c maddr entry_idx =
     push_bit (m_P_LINE c + m_P_SETS c) maddr OR push_bit (m_P_LINE c) (of_nat entry_idx)"

definition block_offset :: "Cache \<Rightarrow> phy_addr_t \<Rightarrow> nat" where
  "block_offset c addr = unat (addr AND m_block_offset_mask c)"

section \<open>Construction\<close>

text \<open>
  The initialisation loops of the constructor. \<open>cache_dirty\<close> was allocated with \<open>2^p_sets\<close> rows of
  \<open>2^p_ways\<close> entries and is indexed \<open>[k][j]\<close> with \<open>k\<close> a way and \<open>j\<close> a set. \<open>raw_d\<close> and \<open>raw\<close>
  are the indeterminate contents of the fresh dirty bits and lines.
\<close>

definition all_pairs :: "nat \<Rightarrow> nat \<Rightarrow> (nat \<times> nat) list" where
  "all_pairs m n = concat (map (\<lambda>k. map (\<lambda>j. (k, j)) [0..<n]) [0..<m])"

fun clear_pairs :: "(nat \<times> nat) list \<Rightarrow> bool list list \<Rightarrow> halt + bool list list" where
  "clear_pairs [] d = Inr d"
| "clear_pairs ((k, j) # ps) d = bnd (upd2 d k j False) (clear_pairs ps)"

definition Cache_new ::
  "bool list list \<Rightarrow> u8 list list list \<Rightarrow> bool \<Rightarrow> nat \<Rightarrow> nat \<Rightarrow> nat \<Rightarrow> halt + Cache" where
  "Cache_new raw_d raw en p_ways p_sets p_line =
     bnd (clear_pairs (all_pairs (2 ^ p_ways) (2 ^ p_sets)) raw_d) (\<lambda>dirty.
     Inr \<lparr>cache_enabled = en, m_P_WAYS = p_ways, m_P_SETS = p_sets, m_P_LINE = p_line,
          cache_v = replicate (2 ^ p_ways) (replicate (2 ^ p_sets) False),
          cache_dirty = dirty,
          cache_lru = map (\<lambda>k. replicate (2 ^ p_sets) k) [0..<2 ^ p_ways],
          cache_addr = replicate (2 ^ p_ways) (replicate (2 ^ p_sets) 0),
          cache_lines = raw,
          freq_hit = 0, freq_miss = 0, freq_miss_writeback = 0\<rparr>)"

section \<open>Line transfers\<close>

text \<open>\<open>for (offset = 0; offset < line_size; offset++) mem->phy_writem8(line_paddr + offset, line[offset])\<close>\<close>

fun write_line :: "'m mem_ops \<Rightarrow> phy_addr_t \<Rightarrow> nat list \<Rightarrow> u8 list \<Rightarrow> 'm \<Rightarrow> halt + 'm" where
  "write_line ops pa [] ln m = Inr m"
| "write_line ops pa (off # offs) ln m =
     bnd (nthE ln off) (\<lambda>b.
     bnd (op_writem8 ops (pa + of_nat off) b m) (\<lambda>m'.
     write_line ops pa offs ln m'))"

fun read_line :: "'m mem_ops \<Rightarrow> phy_addr_t \<Rightarrow> nat list \<Rightarrow> u8 list \<Rightarrow> 'm \<Rightarrow> halt + u8 list \<times> 'm" where
  "read_line ops pa [] ln m = Inr (ln, m)"
| "read_line ops pa (off # offs) ln m =
     bnd (op_readm8 ops (pa + of_nat off) m) (\<lambda>(b, m').
     bnd (updE ln off b) (\<lambda>ln'.
     read_line ops pa offs ln' m'))"

section \<open>The access state machine\<close>

text \<open>
  First loop of \<open>access\<close>: over the ways, find a match (asserting that there is at most one), the last way
  whose counter is 0, and whether one of those is dirty. The accumulator is
  \<open>(hit, free_way_idx, dirty)\<close>.
\<close>

fun scan_ways ::
  "Cache \<Rightarrow> nat \<Rightarrow> phy_addr_t \<Rightarrow> nat list \<Rightarrow> bool \<times> nat option \<times> bool \<Rightarrow> halt + bool \<times> nat option \<times> bool" where
  "scan_ways c entry_idx maddr [] acc = Inr acc"
| "scan_ways c entry_idx maddr (i # is) (hit, free_way_idx, dirty) =
     bnd (nth2 (cache_v c) i entry_idx) (\<lambda>v.
     bnd (nth2 (cache_addr c) i entry_idx) (\<lambda>a.
     bnd (nth2 (cache_lru c) i entry_idx) (\<lambda>lru.
     bnd (nth2 (cache_dirty c) entry_idx i) (\<lambda>dt.
     let match = v \<and> a = maddr; sfree = (lru = 0) in
     assertE (match \<longrightarrow> \<not> hit)
       (scan_ways c entry_idx maddr is
          (hit \<or> match, if sfree then Some i else free_way_idx, dirty \<or> (sfree \<and> dt)))))))"

text \<open>The miss path: write the victim back if it is dirty, replace it, refill it.\<close>

definition miss_writeback ::
  "'m mem_ops \<Rightarrow> nat \<Rightarrow> nat \<Rightarrow> bool \<Rightarrow> Cache \<times> 'm \<Rightarrow> halt + Cache \<times> 'm" where
  "miss_writeback ops w entry_idx dirty = (\<lambda>(c, m).
     if dirty then
       bnd (nth2 (cache_addr c) w entry_idx) (\<lambda>a.
       bnd (nth2 (cache_lines c) w entry_idx) (\<lambda>ln.
       bnd (write_line ops (line_paddr c a entry_idx) [0..<line_size c] ln m) (\<lambda>m'.
       Inr (c\<lparr>freq_miss_writeback := freq_miss_writeback c + 1\<rparr>, m'))))
     else Inr (c, m))"

definition miss_refill ::
  "'m mem_ops \<Rightarrow> nat \<Rightarrow> nat \<Rightarrow> phy_addr_t \<Rightarrow> Cache \<times> 'm \<Rightarrow> halt + Cache \<times> 'm" where
  "miss_refill ops w entry_idx maddr = (\<lambda>(c, m).
     bnd (upd2 (cache_v c) w entry_idx True) (\<lambda>v'.
     bnd (upd2 (cache_addr c) w entry_idx maddr) (\<lambda>a'.
     bnd (nth2 (cache_lines c) w entry_idx) (\<lambda>ln.
     bnd (read_line ops (line_paddr c maddr entry_idx) [0..<line_size c] ln m) (\<lambda>(ln', m').
     bnd (upd2 (cache_lines c) w entry_idx ln') (\<lambda>l'.
     Inr (c\<lparr>cache_v := v', cache_addr := a', cache_lines := l'\<rparr>, m')))))))"

text \<open>
  Second loop: recompute \<open>match\<close> and the counter of the matching way. Third loop: age the counters,
  mark the matching way as most recent and, on a store, as dirty; \<open>hit_way\<close> is the last match.
  Since the miss path sets \<open>hit = 1\<close>, the branch of the third loop that would clear a dirty bit
  (\<open>else if (sfree[i])\<close>) is never taken; it is kept here as the case \<open>hit = False\<close>.
\<close>

fun lru_threshold ::
  "Cache \<Rightarrow> nat \<Rightarrow> phy_addr_t \<Rightarrow> nat list \<Rightarrow> bool list \<times> nat \<Rightarrow> halt + bool list \<times> nat" where
  "lru_threshold c entry_idx maddr [] acc = Inr acc"
| "lru_threshold c entry_idx maddr (i # is) (match, lru_thresh) =
     bnd (nth2 (cache_v c) i entry_idx) (\<lambda>v.
     bnd (nth2 (cache_addr c) i entry_idx) (\<lambda>a.
     bnd (nth2 (cache_lru c) i entry_idx) (\<lambda>lru.
     let mt = v \<and> a = maddr in
     lru_threshold c entry_idx maddr is (match @ [mt], lru_thresh OR (if mt then lru else 0)))))"

fun touch_ways ::
  "nat \<Rightarrow> bool \<Rightarrow> bool \<Rightarrow> bool list \<Rightarrow> bool list \<Rightarrow> nat \<Rightarrow> nat list \<Rightarrow> Cache \<times> nat option \<Rightarrow> halt + Cache \<times> nat option" where
  "touch_ways entry_idx hit store sfree match lru_thresh [] acc = Inr acc"
| "touch_ways entry_idx hit store sfree match lru_thresh (i # is) (c, hit_way) =
     bnd (nthE match i) (\<lambda>mt.
     bnd (if hit then
            bnd (nth2 (cache_lru c) i entry_idx) (\<lambda>lru.
            bnd (upd2 (cache_lru c) i entry_idx
                   (if mt then 2 ^ m_P_WAYS c - 1
                    else (lru - (if lru > lru_thresh then 1 else 0)) AND (2 ^ m_P_WAYS c - 1))) (\<lambda>l'.
            if mt then
              bnd (nth2 (cache_dirty c) entry_idx i) (\<lambda>dt.
              bnd (upd2 (cache_dirty c) entry_idx i (dt \<or> store)) (\<lambda>d'.
              Inr (c\<lparr>cache_lru := l', cache_dirty := d'\<rparr>)))
            else Inr (c\<lparr>cache_lru := l'\<rparr>)))
          else
            bnd (nthE sfree i) (\<lambda>sf.
            if sf then bnd (upd2 (cache_dirty c) entry_idx i False) (\<lambda>d'. Inr (c\<lparr>cache_dirty := d'\<rparr>))
            else Inr c)) (\<lambda>c'.
     touch_ways entry_idx hit store sfree match lru_thresh is (c', if mt then Some i else hit_way)))"

text \<open>
  \<open>access\<close>, for an enabled cache: the callers test \<open>enabled\<close> first. Returns \<open>hit_way\<close> and \<open>hit_entry\<close>.
\<close>

definition access ::
  "'m mem_ops \<Rightarrow> phy_addr_t \<Rightarrow> bool \<Rightarrow> Cache \<times> 'm \<Rightarrow> halt + (nat \<times> nat) \<times> Cache \<times> 'm" where
  "access ops pa store = (\<lambda>(c, m).
     let entry_idx = entry_of c pa; maddr = tag_of c pa; ways = [0..<n_ways c] in
     bnd (scan_ways c entry_idx maddr ways (False, None, False)) (\<lambda>(hit, free_way_idx, dirty).
     bnd (if \<not> hit then
            (case free_way_idx of
               None \<Rightarrow> Inl AssertFail
             | Some w \<Rightarrow>
                 bnd (miss_writeback ops w entry_idx dirty (c\<lparr>freq_miss := freq_miss c + 1\<rparr>, m))
                     (miss_refill ops w entry_idx maddr))
          else Inr (c\<lparr>freq_hit := freq_hit c + 1\<rparr>, m)) (\<lambda>(c1, m1).
     bnd (lru_threshold c1 entry_idx maddr ways ([], 0)) (\<lambda>(match, lru_thresh).
     bnd (touch_ways entry_idx True store [] match lru_thresh ways (c1, None)) (\<lambda>(c2, hit_way).
     case hit_way of
       None \<Rightarrow> Inl AssertFail
     | Some w \<Rightarrow> Inr ((w, entry_idx), c2, m1))))))"

section \<open>Loads and stores\<close>

text \<open>One byte of a line, at a checked position.\<close>

definition line_byte :: "Cache \<Rightarrow> nat \<Rightarrow> nat \<Rightarrow> phy_addr_t \<Rightarrow> halt + u8" where
  "line_byte c way entry addr =
     bnd (nth2 (cache_lines c) way entry) (\<lambda>ln. nthE ln (block_offset c addr))"

definition set_line_byte :: "nat \<Rightarrow> nat \<Rightarrow> phy_addr_t \<Rightarrow> u8 \<Rightarrow> Cache \<Rightarrow> halt + Cache" where
  "set_line_byte way entry addr b c =
     bnd (nth2 (cache_lines c) way entry) (\<lambda>ln.
     bnd (updE ln (block_offset c addr) b) (\<lambda>ln'.
     bnd (upd2 (cache_lines c) way entry ln') (\<lambda>l'.
     Inr (c\<lparr>cache_lines := l'\<rparr>))))"

definition cache_writem8 :: "'m mem_ops \<Rightarrow> phy_addr_t \<Rightarrow> u8 \<Rightarrow> Cache \<times> 'm \<Rightarrow> halt + Cache \<times> 'm" where
  "cache_writem8 ops addr val = (\<lambda>(c, m).
     if cache_enabled c then
       bnd (access ops addr True (c, m)) (\<lambda>((way, entry), c1, m1).
       bnd (set_line_byte way entry addr val c1) (\<lambda>c2. Inr (c2, m1)))
     else bnd (op_writem8 ops addr val m) (\<lambda>m1. Inr (c, m1)))"

definition cache_writem16 :: "'m mem_ops \<Rightarrow> phy_addr_t \<Rightarrow> u16 \<Rightarrow> Cache \<times> 'm \<Rightarrow> halt + Cache \<times> 'm" where
  "cache_writem16 ops addr val = (\<lambda>(c, m).
     if cache_enabled c then
       assertE (addr AND 0x1 = 0)
       (bnd (access ops addr True (c, m)) (\<lambda>((way, entry), c1, m1).
        bnd (set_line_byte way entry addr (ucast val) c1) (\<lambda>c2.
        bnd (set_line_byte way entry (addr + 1) (ucast (drop_bit 8 val)) c2) (\<lambda>c3.
        Inr (c3, m1)))))
     else bnd (op_writem16 ops addr val m) (\<lambda>m1. Inr (c, m1)))"

definition cache_writem32 :: "'m mem_ops \<Rightarrow> phy_addr_t \<Rightarrow> u32 \<Rightarrow> Cache \<times> 'm \<Rightarrow> halt + Cache \<times> 'm" where
  "cache_writem32 ops addr val = (\<lambda>(c, m).
     if cache_enabled c then
       assertE (addr AND 0x3 = 0)
       (bnd (access ops addr True (c, m)) (\<lambda>((way, entry), c1, m1).
        bnd (set_line_byte way entry addr (ucast val) c1) (\<lambda>c2.
        bnd (set_line_byte way entry (addr + 1) (ucast (drop_bit 8 val)) c2) (\<lambda>c3.
        bnd (set_line_byte way entry (addr + 2) (ucast (drop_bit 16 val)) c3) (\<lambda>c4.
        bnd (set_line_byte way entry (addr + 3) (ucast (drop_bit 24 val)) c4) (\<lambda>c5.
        Inr (c5, m1)))))))
     else bnd (op_writem32 ops addr val m) (\<lambda>m1. Inr (c, m1)))"

definition cache_readm8 :: "'m mem_ops \<Rightarrow> phy_addr_t \<Rightarrow> Cache \<times> 'm \<Rightarrow> halt + u8 \<times> Cache \<times> 'm" where
  "cache_readm8 ops addr = (\<lambda>(c, m).
     if cache_enabled c then
       bnd (access ops addr False (c, m)) (\<lambda>((way, entry), c1, m1).
       bnd (line_byte c1 way entry addr) (\<lambda>b. Inr (b, c1, m1)))
     else bnd (op_readm8 ops addr m) (\<lambda>(b, m1). Inr (b, c, m1)))"

definition cache_readm16 :: "'m mem_ops \<Rightarrow> phy_addr_t \<Rightarrow> Cache \<times> 'm \<Rightarrow> halt + u16 \<times> Cache \<times> 'm" where
  "cache_readm16 ops addr = (\<lambda>(c, m).
     if cache_enabled c then
       assertE (addr AND 0x1 = 0)
       (bnd (access ops addr False (c, m)) (\<lambda>((way, entry), c1, m1).
        bnd (line_byte c1 way entry addr) (\<lambda>b0.
        bnd (line_byte c1 way entry (addr + 1)) (\<lambda>b1.
        Inr (ucast b0 OR push_bit 8 (ucast b1), c1, m1)))))
     else bnd (op_readm16 ops addr m) (\<lambda>(b, m1). Inr (b, c, m1)))"

definition cache_readm32 :: "'m mem_ops \<Rightarrow> phy_addr_t \<Rightarrow> Cache \<times> 'm \<Rightarrow> halt + u32 \<times> Cache \<times> 'm" where
  "cache_readm32 ops addr = (\<lambda>(c, m).
     if cache_enabled c then
       assertE (addr AND 0x3 = 0)
       (bnd (access ops addr False (c, m)) (\<lambda>((way, entry), c1, m1).
        bnd (line_byte c1 way entry addr) (\<lambda>b0.
        bnd (line_byte c1 way entry (addr + 1)) (\<lambda>b1.
        bnd (line_byte c1 way entry (addr + 2)) (\<lambda>b2.
        bnd (line_byte c1 way entry (addr + 3)) (\<lambda>b3.
        Inr (ucast b0 OR push_bit 8 (ucast b1) OR push_bit 16 (ucast b2) OR push_bit 24 (ucast b3),
             c1, m1)))))))
     else bnd (op_readm32 ops addr m) (\<lambda>(b, m1). Inr (b, c, m1)))"

section \<open>Flush and invalidate\<close>

fun flush_ways ::
  "'m mem_ops \<Rightarrow> nat \<Rightarrow> phy_addr_t \<Rightarrow> nat list \<Rightarrow> Cache \<times> 'm \<Rightarrow> halt + Cache \<times> 'm" where
  "flush_ways ops entry_idx maddr [] cm = Inr cm"
| "flush_ways ops entry_idx maddr (i # is) (c, m) =
     bnd (nth2 (cache_v c) i entry_idx) (\<lambda>v.
     bnd (nth2 (cache_addr c) i entry_idx) (\<lambda>a.
     bnd (nth2 (cache_dirty c) entry_idx i) (\<lambda>dt.
     if v \<and> a = maddr \<and> dt then
       bnd (nth2 (cache_lines c) i entry_idx) (\<lambda>ln.
       bnd (write_line ops (line_paddr c a entry_idx) [0..<line_size c] ln m) (\<lambda>m'.
       bnd (upd2 (cache_dirty c) entry_idx i False) (\<lambda>d'.
       flush_ways ops entry_idx maddr is (c\<lparr>cache_dirty := d'\<rparr>, m'))))
     else flush_ways ops entry_idx maddr is (c, m))))"

definition flush :: "'m mem_ops \<Rightarrow> phy_addr_t \<Rightarrow> Cache \<times> 'm \<Rightarrow> halt + Cache \<times> 'm" where
  "flush ops pa = (\<lambda>(c, m).
     if \<not> cache_enabled c then Inr (c, m)
     else flush_ways ops (entry_of c pa) (tag_of c pa) [0..<n_ways c] (c, m))"

fun invalidate_ways :: "nat \<Rightarrow> nat list \<Rightarrow> Cache \<Rightarrow> halt + Cache" where
  "invalidate_ways entry_idx [] c = Inr c"
| "invalidate_ways entry_idx (i # is) c =
     bnd (upd2 (cache_v c) i entry_idx False) (\<lambda>v'.
     invalidate_ways entry_idx is (c\<lparr>cache_v := v'\<rparr>))"

definition invalidate :: "phy_addr_t \<Rightarrow> Cache \<Rightarrow> halt + Cache" where
  "invalidate pa c =
     (if \<not> cache_enabled c then Inr c
      else invalidate_ways (entry_of c pa) [0..<n_ways c] c)"

end
