(* ===== verification/CacheProps.thy ===== *)
theory CacheProps
  imports Cache
begin

text \<open>
  Correctness of the caches. A well-formed cache (\<open>cache_wf\<close>) has the dimensions its constructor
  allocates, counters that rank the ways of every set, and distinct tags. \<open>coherent\<close> relates it
  to the memory behind it: a dirty line is valid, a clean line equals the memory, and every line lies in
  RAM. \<open>view\<close> is the memory that the processor sees through the cache; the loads and stores
  of the cache implement a flat byte array on it.
\<close>

section \<open>Rectangular arrays\<close>

definition rect :: "'a list list \<Rightarrow> nat \<Rightarrow> nat \<Rightarrow> bool" where
  "rect xss p n \<longleftrightarrow> length xss = p \<and> (\<forall>i < p. length (xss ! i) = n)"

lemma rectD: "rect xss p n \<Longrightarrow> length xss = p" "rect xss p n \<Longrightarrow> i < p \<Longrightarrow> length (xss ! i) = n"
  by (auto simp: rect_def)

lemma nth2_rect: "rect xss p n \<Longrightarrow> i < p \<Longrightarrow> j < n \<Longrightarrow> nth2 xss i j = Inr (xss ! i ! j)"
  by (simp add: nth2_def rectD)

lemma upd2_rect:
  "rect xss p n \<Longrightarrow> i < p \<Longrightarrow> j < n \<Longrightarrow> upd2 xss i j v = Inr (xss[i := (xss ! i)[j := v]])"
  by (simp add: upd2_def rectD)

lemma rect_upd: "rect xss p n \<Longrightarrow> rect (xss[i := (xss ! i)[j := v]]) p n"
  by (cases "i < length xss") (auto simp: rect_def nth_list_update)

lemma nth_upd2:
  "rect xss p n \<Longrightarrow> i < p \<Longrightarrow> j < n \<Longrightarrow>
   xss[i := (xss ! i)[j := v]] ! i' ! j' = (if i' = i \<and> j' = j then v else xss ! i' ! j')"
  by (auto simp: rect_def nth_list_update)

lemma rect_replicate: "rect (replicate p (replicate n x)) p n"
  by (simp add: rect_def)

lemmas rect_simps = nth2_rect upd2_rect rect_upd nth_upd2

section \<open>Decomposition of addresses\<close>

definition geometry :: "Cache \<Rightarrow> bool" where
  "geometry c \<longleftrightarrow> m_P_LINE c + m_P_SETS c < 32"

definition same_geometry :: "Cache \<Rightarrow> Cache \<Rightarrow> bool" where
  "same_geometry c' c \<longleftrightarrow> m_P_WAYS c' = m_P_WAYS c \<and> m_P_SETS c' = m_P_SETS c \<and>
     m_P_LINE c' = m_P_LINE c \<and> cache_enabled c' = cache_enabled c"

lemma entry_of_nat: "entry_of c a = unat a div line_size c mod n_sets c"
  unfolding entry_of_def push_bit_eq_mult mult_1 unat_and_mask_mod
  by (simp add: unat_drop_bit line_size_def n_sets_def)

lemma tag_of_nat: "unat (tag_of c a) = unat a div line_size c div n_sets c"
  by (simp add: tag_of_def unat_drop_bit line_size_def n_sets_def power_add div_mult2_eq)

lemma block_offset_nat: "block_offset c a = unat a mod line_size c"
  unfolding block_offset_def m_block_offset_mask_def push_bit_eq_mult mult_1 unat_and_mask_mod
  by (simp add: line_size_def)

definition tag_ok :: "Cache \<Rightarrow> phy_addr_t \<Rightarrow> bool" where
  "tag_ok c t \<longleftrightarrow> (unat t + 1) * (line_size c * n_sets c) \<le> 2 ^ 32"

lemma sizes_pos [simp]: "0 < line_size c" "0 < n_sets c" "0 < n_ways c"
  by (simp_all add: line_size_def n_sets_def n_ways_def)

lemma entry_of_less [simp]: "entry_of c a < n_sets c"
  by (simp add: entry_of_nat)

lemma block_offset_less [simp]: "block_offset c a < line_size c"
  by (simp add: block_offset_nat)

lemma tag_of_ok: "geometry c \<Longrightarrow> tag_ok c (tag_of c a)"
proof -
  assume "geometry c"
  then have "32 = (m_P_LINE c + m_P_SETS c) + (32 - (m_P_LINE c + m_P_SETS c))"
    by (simp add: geometry_def)
  then have p: "(2::nat) ^ 32 = line_size c * n_sets c * 2 ^ (32 - (m_P_LINE c + m_P_SETS c))"
    by (metis line_size_def n_sets_def power_add)
  have "unat a < 2 ^ 32" using unat_less_exp [of a] by simp
  then have "unat a div (line_size c * n_sets c) < 2 ^ (32 - (m_P_LINE c + m_P_SETS c))"
    unfolding p by (simp add: less_mult_imp_div_less mult.commute)
  then have "unat a div (line_size c * n_sets c) + 1 \<le> 2 ^ (32 - (m_P_LINE c + m_P_SETS c))"
    by simp
  from mult_le_mono2 [OF this, of "line_size c * n_sets c"] show ?thesis
    unfolding tag_ok_def tag_of_nat p by (simp add: div_mult2_eq mult.commute)
qed

lemma line_paddr_nat:
  assumes "geometry c" "tag_ok c t" "s < n_sets c"
  shows "unat (line_paddr c t s) = (unat t * n_sets c + s) * line_size c"
proof -
  let ?n = "m_P_LINE c + m_P_SETS c"
  have sz: "line_size c * n_sets c = 2 ^ ?n"
    by (simp add: line_size_def n_sets_def power_add)
  have t: "unat t * 2 ^ ?n + 2 ^ ?n \<le> 2 ^ 32"
    using assms(2) by (simp add: tag_ok_def sz)
  have s: "s * line_size c < 2 ^ ?n"
    using assms(3) by (simp add: sz [symmetric] mult.commute)
  have us: "unat (of_nat s :: u32) = s"
  proof -
    have "n_sets c \<le> 2 ^ 32" using assms(1) unfolding n_sets_def
      by (intro power_increasing) (simp_all add: geometry_def)
    then show ?thesis using assms(3) by (simp add: unat_of_nat)
  qed
  have pos: "(0::nat) < 2 ^ ?n" by simp
  have h: "unat (push_bit ?n t) = unat t * 2 ^ ?n"
  proof (rule unat_push_bit)
    have "unat t * 2 ^ ?n < 2 ^ 32" using t pos by linarith
    then show "unat t * 2 ^ ?n < 2 ^ LENGTH(32)" by simp
  qed
  have l: "unat (push_bit (m_P_LINE c) (of_nat s :: u32)) = s * line_size c"
    using unat_push_bit [of "of_nat s :: u32" "m_P_LINE c"] t s us by (simp add: line_size_def)
  have "push_bit ?n t AND push_bit (m_P_LINE c) (of_nat s :: u32) = 0"
  proof (rule bit_eqI)
    fix i
    have "\<not> bit (push_bit (m_P_LINE c) (of_nat s :: u32)) i" if "?n \<le> i"
    proof -
      have "unat (push_bit (m_P_LINE c) (of_nat s :: u32)) < 2 ^ i"
        unfolding l by (rule less_le_trans [OF s power_increasing [OF that]]) simp
      then show ?thesis by (rule not_bit_if_less)
    qed
    then show "bit (push_bit ?n t AND push_bit (m_P_LINE c) (of_nat s :: u32)) i \<longleftrightarrow> bit (0::u32) i"
      by (auto simp: bit_and_iff bit_push_bit_iff)
  qed
  then have "line_paddr c t s = push_bit ?n t + push_bit (m_P_LINE c) (of_nat s)"
    unfolding line_paddr_def by (rule disjunctive_add_eq_or [symmetric])
  then have "unat (line_paddr c t s) = unat t * 2 ^ ?n + s * line_size c"
    using t s by (simp add: unat_word_ariths h l)
  then show ?thesis by (simp add: sz [symmetric] algebra_simps)
qed

text \<open>Tag, set and offset determine an address and are determined by it.\<close>

lemma addr_compose:
  assumes "geometry c" "tag_ok c t" "s < n_sets c" "off < line_size c"
  shows "unat (line_paddr c t s + of_nat off) = (unat t * n_sets c + s) * line_size c + off"
    "entry_of c (line_paddr c t s + of_nat off) = s"
    "tag_of c (line_paddr c t s + of_nat off) = t"
    "block_offset c (line_paddr c t s + of_nat off) = off"
proof -
  have "(unat t * n_sets c + s + 1) * line_size c \<le> (unat t + 1) * (line_size c * n_sets c)"
  proof -
    have "unat t * n_sets c + s + 1 \<le> (unat t + 1) * n_sets c" using assms(3) by simp
    from mult_le_mono1 [OF this, of "line_size c"] show ?thesis by (simp add: ac_simps)
  qed
  then have b: "(unat t * n_sets c + s) * line_size c + line_size c \<le> 2 ^ 32"
    using assms(2) unfolding tag_ok_def by simp
  have "unat (of_nat off :: u32) = off"
    using b assms(4) by (simp add: unat_of_nat)
  then show u: "unat (line_paddr c t s + of_nat off) = (unat t * n_sets c + s) * line_size c + off"
    using b assms(4) line_paddr_nat [OF assms(1-3)] by (simp add: unat_word_ariths)
  have q: "((unat t * n_sets c + s) * line_size c + off) div line_size c = unat t * n_sets c + s"
    using assms(4) by simp
  show "entry_of c (line_paddr c t s + of_nat off) = s"
    using assms(3) by (simp add: entry_of_nat u q)
  show "tag_of c (line_paddr c t s + of_nat off) = t"
    using assms(3) by (simp add: word_unat_eq_iff tag_of_nat u q)
  show "block_offset c (line_paddr c t s + of_nat off) = off"
    using assms(4) by (simp add: block_offset_nat u)
qed

lemma addr_decompose:
  assumes "geometry c"
  shows "line_paddr c (tag_of c a) (entry_of c a) + of_nat (block_offset c a) = a"
  using addr_compose(1) [OF assms tag_of_ok [OF assms] entry_of_less block_offset_less, of a a a]
  by (simp add: word_unat_eq_iff tag_of_nat entry_of_nat block_offset_nat)

section \<open>Well-formed caches\<close>

abbreviation cvalid :: "Cache \<Rightarrow> nat \<Rightarrow> nat \<Rightarrow> bool" where "cvalid c w s \<equiv> cache_v c ! w ! s"
abbreviation ctag :: "Cache \<Rightarrow> nat \<Rightarrow> nat \<Rightarrow> phy_addr_t" where "ctag c w s \<equiv> cache_addr c ! w ! s"
abbreviation clru :: "Cache \<Rightarrow> nat \<Rightarrow> nat \<Rightarrow> nat" where "clru c w s \<equiv> cache_lru c ! w ! s"
abbreviation cdirty :: "Cache \<Rightarrow> nat \<Rightarrow> nat \<Rightarrow> bool" where "cdirty c s w \<equiv> cache_dirty c ! s ! w"
abbreviation cline :: "Cache \<Rightarrow> nat \<Rightarrow> nat \<Rightarrow> u8 list" where "cline c w s \<equiv> cache_lines c ! w ! s"

definition match_way :: "Cache \<Rightarrow> nat \<Rightarrow> phy_addr_t \<Rightarrow> nat \<Rightarrow> bool" where
  "match_way c s t w \<longleftrightarrow> cvalid c w s \<and> ctag c w s = t"

definition cache_dims :: "Cache \<Rightarrow> bool" where
  "cache_dims c \<longleftrightarrow> geometry c \<and>
     rect (cache_v c) (n_ways c) (n_sets c) \<and> rect (cache_dirty c) (n_sets c) (n_ways c) \<and>
     rect (cache_lru c) (n_ways c) (n_sets c) \<and> rect (cache_addr c) (n_ways c) (n_sets c) \<and>
     rect (cache_lines c) (n_ways c) (n_sets c) \<and>
     (\<forall>w < n_ways c. \<forall>s < n_sets c. length (cline c w s) = line_size c)"

text \<open>The counters of a set rank its ways: they are a permutation of \<open>0, \<dots>, ways - 1\<close>.\<close>

definition lru_ranks :: "Cache \<Rightarrow> nat \<Rightarrow> bool" where
  "lru_ranks c s \<longleftrightarrow> bij_betw (\<lambda>w. clru c w s) {..<n_ways c} {..<n_ways c}"

definition tags_distinct :: "Cache \<Rightarrow> nat \<Rightarrow> bool" where
  "tags_distinct c s \<longleftrightarrow> (\<forall>w < n_ways c. \<forall>w' < n_ways c.
     cvalid c w s \<longrightarrow> match_way c s (ctag c w s) w' \<longrightarrow> w' = w)"

definition cache_wf :: "Cache \<Rightarrow> bool" where
  "cache_wf c \<longleftrightarrow> cache_dims c \<and>
     (\<forall>s < n_sets c. lru_ranks c s \<and> tags_distinct c s \<and>
        (\<forall>w < n_ways c. cvalid c w s \<longrightarrow> tag_ok c (ctag c w s)))"

lemma dimsD:
  assumes "cache_dims c"
  shows "geometry c" "rect (cache_v c) (n_ways c) (n_sets c)" "rect (cache_dirty c) (n_sets c) (n_ways c)"
    "rect (cache_lru c) (n_ways c) (n_sets c)" "rect (cache_addr c) (n_ways c) (n_sets c)"
    "rect (cache_lines c) (n_ways c) (n_sets c)"
    "w < n_ways c \<Longrightarrow> s < n_sets c \<Longrightarrow> length (cline c w s) = line_size c"
  using assms by (auto simp: cache_dims_def)

lemma match_unique:
  "tags_distinct c s \<Longrightarrow> match_way c s t w \<Longrightarrow> match_way c s t w' \<Longrightarrow> w < n_ways c \<Longrightarrow> w' < n_ways c \<Longrightarrow> w' = w"
  by (auto simp: tags_distinct_def match_way_def)

lemma lru_inj: "lru_ranks c s \<Longrightarrow> clru c w s = clru c w' s \<Longrightarrow> w < n_ways c \<Longrightarrow> w' < n_ways c \<Longrightarrow> w = w'"
  by (auto simp: lru_ranks_def bij_betw_def dest: inj_onD)

lemma lru_less: "lru_ranks c s \<Longrightarrow> w < n_ways c \<Longrightarrow> clru c w s < n_ways c"
  by (auto simp: lru_ranks_def bij_betw_def)

lemma lru_ranksI:
  assumes "\<And>w. w < n_ways c \<Longrightarrow> clru c w s < n_ways c"
    and "\<And>w w'. w < n_ways c \<Longrightarrow> w' < n_ways c \<Longrightarrow> clru c w s = clru c w' s \<Longrightarrow> w = w'"
  shows "lru_ranks c s"
  unfolding lru_ranks_def bij_betw_def
proof (rule conjI)
  show i: "inj_on (\<lambda>w. clru c w s) {..<n_ways c}" using assms(2) by (auto intro: inj_onI)
  show "(\<lambda>w. clru c w s) ` {..<n_ways c} = {..<n_ways c}"
    by (rule endo_inj_surj [OF _ _ i]) (use assms(1) in auto)
qed

lemma victim_exists: "lru_ranks c s \<Longrightarrow> \<exists>w < n_ways c. clru c w s = 0"
proof -
  assume "lru_ranks c s"
  then have "(0::nat) \<in> (\<lambda>w. clru c w s) ` {..<n_ways c}" by (simp add: lru_ranks_def bij_betw_def)
  then show ?thesis by auto
qed

section \<open>The loops of an access\<close>

lemma scan_ways_step:
  assumes "cache_dims c" "s < n_sets c" "i < n_ways c" "match_way c s t i \<longrightarrow> \<not> hit"
  shows "scan_ways c s t (i # ws) (hit, fw, d) =
      scan_ways c s t ws (hit \<or> match_way c s t i, if clru c i s = 0 then Some i else fw,
        d \<or> (clru c i s = 0 \<and> cdirty c s i))"
  unfolding scan_ways.simps using assms dimsD [OF assms(1)]
  by (simp only: nth2_rect bnd_simps Let_def match_way_def [symmetric]) (simp add: assertE_def)

lemma scan_ways_eq:
  assumes "cache_dims c" "s < n_sets c" "tags_distinct c s"
    and v: "v < n_ways c" "\<And>w. w < n_ways c \<Longrightarrow> clru c w s = 0 \<longleftrightarrow> w = v"
  shows "set ws \<subseteq> {..<n_ways c} \<Longrightarrow> distinct ws \<Longrightarrow> (hit \<longrightarrow> (\<forall>w \<in> set ws. \<not> match_way c s t w)) \<Longrightarrow>
    scan_ways c s t ws (hit, fw, d) =
      Inr (hit \<or> (\<exists>w \<in> set ws. match_way c s t w), if v \<in> set ws then Some v else fw,
           d \<or> (v \<in> set ws \<and> cdirty c s v))"
proof (induction ws arbitrary: hit fw d)
  case Nil
  then show ?case by simp
next
  case (Cons i ws)
  have i: "i < n_ways c" and ws: "set ws \<subseteq> {..<n_ways c}" "distinct ws" "i \<notin> set ws"
    using Cons.prems by auto
  have nm: "hit \<or> match_way c s t i \<longrightarrow> (\<forall>w \<in> set ws. \<not> match_way c s t w)"
  proof (intro impI ballI notI)
    fix w assume h: "hit \<or> match_way c s t i" and w: "w \<in> set ws" "match_way c s t w"
    with Cons.prems(3) have "match_way c s t i" by auto
    from match_unique [OF assms(3) this w(2) i] w(1) ws show False by auto
  qed
  have nh: "match_way c s t i \<longrightarrow> \<not> hit" using Cons.prems(3) by auto
  show ?case
    unfolding scan_ways_step [OF assms(1,2) i nh] Cons.IH [OF ws(1,2) nm] v(2) [OF i]
    by (cases "i = v") (simp_all add: ws(3) disj_assoc)
qed

lemma lru_threshold_step:
  assumes "cache_dims c" "s < n_sets c" "i < n_ways c"
  shows "lru_threshold c s t (i # ws) (ms, th) =
      lru_threshold c s t ws (ms @ [match_way c s t i], th OR (if match_way c s t i then clru c i s else 0))"
  unfolding lru_threshold.simps using assms dimsD [OF assms(1)]
  by (simp only: nth2_rect bnd_simps Let_def match_way_def [symmetric])

lemma lru_threshold_eq:
  assumes "cache_dims c" "s < n_sets c" "tags_distinct c s" "h < n_ways c" "match_way c s t h"
  shows "set ws \<subseteq> {..<n_ways c} \<Longrightarrow> distinct ws \<Longrightarrow> (h \<in> set ws \<longrightarrow> th = 0) \<Longrightarrow>
    lru_threshold c s t ws (ms, th) =
      Inr (ms @ map (match_way c s t) ws, if h \<in> set ws then clru c h s else th)"
proof (induction ws arbitrary: ms th)
  case Nil
  then show ?case by simp
next
  case (Cons i ws)
  have i: "i < n_ways c" and ws: "set ws \<subseteq> {..<n_ways c}" "distinct ws" "i \<notin> set ws"
    using Cons.prems by auto
  have m: "match_way c s t i \<longleftrightarrow> i = h"
    using match_unique [OF assms(3,5) _ assms(4) i] assms(5) by blast
  let ?th = "th OR (if match_way c s t i then clru c i s else 0)"
  have "h \<in> set ws \<longrightarrow> ?th = 0" using Cons.prems(3) ws(3) by (auto simp: m)
  from Cons.IH [OF ws(1,2) this] show ?case
    unfolding lru_threshold_step [OF assms(1,2) i] using Cons.prems(3) ws(3) by (auto simp: m)
qed

text \<open>What one turn of the third loop does to the cache, when \<open>hit\<close> is set.\<close>

definition aged :: "nat \<Rightarrow> nat \<Rightarrow> nat" where
  "aged th r = (if r > th then r - 1 else r)"

definition touch1 :: "nat \<Rightarrow> bool \<Rightarrow> nat \<Rightarrow> bool \<Rightarrow> nat \<Rightarrow> Cache \<Rightarrow> Cache" where
  "touch1 s store th mt i c = c\<lparr>
     cache_lru := (cache_lru c)[i := (cache_lru c ! i)[s := if mt then n_ways c - 1 else aged th (clru c i s)]],
     cache_dirty := (cache_dirty c)[s := (cache_dirty c ! s)[i := cdirty c s i \<or> (mt \<and> store)]]\<rparr>"

lemma touch1_frame [simp]:
  "m_P_WAYS (touch1 s st th mt i c) = m_P_WAYS c" "m_P_SETS (touch1 s st th mt i c) = m_P_SETS c"
  "m_P_LINE (touch1 s st th mt i c) = m_P_LINE c" "cache_enabled (touch1 s st th mt i c) = cache_enabled c"
  "n_ways (touch1 s st th mt i c) = n_ways c" "n_sets (touch1 s st th mt i c) = n_sets c"
  "line_size (touch1 s st th mt i c) = line_size c" "geometry (touch1 s st th mt i c) = geometry c"
  "cache_v (touch1 s st th mt i c) = cache_v c" "cache_addr (touch1 s st th mt i c) = cache_addr c"
  "cache_lines (touch1 s st th mt i c) = cache_lines c"
  by (simp_all add: touch1_def n_ways_def n_sets_def line_size_def geometry_def)

lemma touch1_dims: "cache_dims c \<Longrightarrow> cache_dims (touch1 s st th mt i c)"
  by (simp add: cache_dims_def) (simp add: touch1_def rect_upd)

lemma touch1_lru:
  "cache_dims c \<Longrightarrow> i < n_ways c \<Longrightarrow> s < n_sets c \<Longrightarrow>
   clru (touch1 s st th mt i c) w s' =
     (if w = i \<and> s' = s then if mt then n_ways c - 1 else aged th (clru c i s) else clru c w s')"
  by (simp add: touch1_def nth_upd2 [OF dimsD(4)])

lemma touch1_dirty:
  "cache_dims c \<Longrightarrow> i < n_ways c \<Longrightarrow> s < n_sets c \<Longrightarrow>
   cdirty (touch1 s st th mt i c) s' w =
     (if s' = s \<and> w = i then cdirty c s i \<or> (mt \<and> st) else cdirty c s' w)"
  by (simp add: touch1_def nth_upd2 [OF dimsD(3)])

lemma and_ways_mask: "r < n_ways c \<Longrightarrow> r AND (2 ^ m_P_WAYS c - 1) = r"
proof -
  assume "r < n_ways c"
  then have "r AND mask (m_P_WAYS c) = r"
    by (metis n_ways_def take_bit_eq_mask take_bit_nat_eq_self)
  then show ?thesis by (simp add: mask_eq_exp_minus_1)
qed

lemma touch_ways_step:
  assumes "cache_dims c" "s < n_sets c" "i < n_ways c" "length ms = n_ways c" "clru c i s < n_ways c"
  shows "touch_ways s True st sf ms th (i # ws) (c, hw) =
    touch_ways s True st sf ms th ws (touch1 s st th (ms ! i) i c, if ms ! i then Some i else hw)"
proof -
  note D = dimsD [OF assms(1)]
  have a: "(clru c i s - (if clru c i s > th then 1 else 0)) AND (2 ^ m_P_WAYS c - 1) = aged th (clru c i s)"
  proof -
    have e: "clru c i s - (if clru c i s > th then 1 else 0) = aged th (clru c i s)"
      by (simp add: aged_def)
    show ?thesis unfolding e by (rule and_ways_mask) (use assms(5) in \<open>auto simp: aged_def\<close>)
  qed
  have len: "i < length ms" using assms(3,4) by simp
  show ?thesis
    by (simp only: touch_ways.simps if_True nthE_in [OF len] nth2_rect [OF D(3) assms(2,3)]
        nth2_rect [OF D(4) assms(3,2)] bnd_simps a)
      (simp add: upd2_rect [OF D(3)] upd2_rect [OF D(4)] assms(2,3) touch1_def,
       simp add: n_ways_def)
qed

lemma touch_ways_eq:
  assumes h: "h < n_ways c0" and ms: "length ms = n_ways c0" "\<And>i. i < n_ways c0 \<Longrightarrow> ms ! i \<longleftrightarrow> i = h"
    and s: "s < n_sets c0"
  shows "cache_dims c \<Longrightarrow> n_ways c = n_ways c0 \<Longrightarrow> n_sets c = n_sets c0 \<Longrightarrow>
    set ws \<subseteq> {..<n_ways c0} \<Longrightarrow> distinct ws \<Longrightarrow> (\<forall>w < n_ways c0. clru c w s < n_ways c0) \<Longrightarrow>
    touch_ways s True st sf ms th ws (c, hw) =
      Inr (fold (\<lambda>i. touch1 s st th (i = h) i) ws c, if h \<in> set ws then Some h else hw)"
proof (induction ws arbitrary: c hw)
  case Nil
  then show ?case by simp
next
  case (Cons i ws)
  have i: "i < n_ways c" "i < n_ways c0" using Cons.prems by auto
  have lru: "clru c i s < n_ways c" using Cons.prems i by simp
  have sc: "s < n_sets c" using s Cons.prems by simp
  have len: "length ms = n_ways c" using ms(1) Cons.prems(2) by simp
  let ?c = "touch1 s st th (ms ! i) i c"
  have "\<forall>w < n_ways c0. clru ?c w s < n_ways c0"
    using Cons.prems(1-3,6) i sc by (auto simp: touch1_lru aged_def)
  from Cons.IH [OF touch1_dims [OF Cons.prems(1)] _ _ _ _ this] show ?case
    unfolding touch_ways_step [OF Cons.prems(1) sc i(1) len lru] using Cons.prems ms(2) [OF i(2)] by simp
qed

lemma fold_touch1:
  assumes "s < n_sets c0"
  shows "cache_dims c \<Longrightarrow> n_ways c = n_ways c0 \<Longrightarrow> n_sets c = n_sets c0 \<Longrightarrow> set ws \<subseteq> {..<n_ways c0} \<Longrightarrow> distinct ws \<Longrightarrow>
    (let c' = fold (\<lambda>i. touch1 s st th (i = h) i) ws c in
     m_P_WAYS c' = m_P_WAYS c \<and> m_P_SETS c' = m_P_SETS c \<and> m_P_LINE c' = m_P_LINE c \<and>
     cache_enabled c' = cache_enabled c \<and> cache_v c' = cache_v c \<and> cache_addr c' = cache_addr c \<and>
     cache_lines c' = cache_lines c \<and> cache_dims c' \<and>
     (\<forall>w s'. clru c' w s' = (if s' = s \<and> w \<in> set ws
        then if w = h then n_ways c0 - 1 else aged th (clru c w s) else clru c w s')) \<and>
     (\<forall>s' w. cdirty c' s' w = (cdirty c s' w \<or> (s' = s \<and> w = h \<and> h \<in> set ws \<and> st))))"
proof (induction ws arbitrary: c)
  case Nil
  then show ?case by (simp add: Let_def)
next
  case (Cons i ws)
  have i: "i < n_ways c" "s < n_sets c" "i \<notin> set ws" using Cons.prems assms by auto
  define c1 where "c1 = touch1 s st th (i = h) i c"
  have F: "fold (\<lambda>i. touch1 s st th (i = h) i) (i # ws) c = fold (\<lambda>i. touch1 s st th (i = h) i) ws c1"
    by (simp add: c1_def)
  have L: "clru c1 w s' = (if w = i \<and> s' = s then if i = h then n_ways c0 - 1 else aged th (clru c i s)
      else clru c w s')" for w s'
    unfolding c1_def touch1_lru [OF Cons.prems(1) i(1,2)] Cons.prems(2) by (rule refl)
  have D: "cdirty c1 s' w = (if s' = s \<and> w = i then cdirty c s i \<or> (i = h \<and> st) else cdirty c s' w)" for s' w
    unfolding c1_def by (rule touch1_dirty [OF Cons.prems(1) i(1,2)])
  have fr: "m_P_WAYS c1 = m_P_WAYS c" "m_P_SETS c1 = m_P_SETS c" "m_P_LINE c1 = m_P_LINE c"
    "cache_enabled c1 = cache_enabled c" "cache_v c1 = cache_v c" "cache_addr c1 = cache_addr c"
    "cache_lines c1 = cache_lines c" "n_ways c1 = n_ways c0" "n_sets c1 = n_sets c0" "cache_dims c1"
    using Cons.prems(1-3) by (simp_all add: c1_def touch1_dims)
  have "set ws \<subseteq> {..<n_ways c0}" "distinct ws" using Cons.prems by auto
  note IH = Cons.IH [OF fr(10,8,9) this, unfolded Let_def]
  show ?case
    unfolding Let_def F
    by (intro conjI allI) (use IH i(3) in \<open>auto simp: fr L D\<close>)
qed

text \<open>The whole third loop, for the matching way \<open>h\<close>.\<close>

definition touched :: "nat \<Rightarrow> bool \<Rightarrow> nat \<Rightarrow> Cache \<Rightarrow> Cache" where
  "touched s st h c = fold (\<lambda>i. touch1 s st (clru c h s) (i = h) i) [0..<n_ways c] c"

lemma touched_props:
  assumes "cache_dims c" "s < n_sets c" "h < n_ways c"
  shows "m_P_WAYS (touched s st h c) = m_P_WAYS c" "m_P_SETS (touched s st h c) = m_P_SETS c"
    "m_P_LINE (touched s st h c) = m_P_LINE c" "cache_enabled (touched s st h c) = cache_enabled c"
    "cache_v (touched s st h c) = cache_v c" "cache_addr (touched s st h c) = cache_addr c"
    "cache_lines (touched s st h c) = cache_lines c" "cache_dims (touched s st h c)"
    "w < n_ways c \<Longrightarrow> clru (touched s st h c) w s' = (if s' = s
        then if w = h then n_ways c - 1 else aged (clru c h s) (clru c w s) else clru c w s')"
    "cdirty (touched s st h c) s' w = (cdirty c s' w \<or> (s' = s \<and> w = h \<and> st))"
proof -
  have "set [0..<n_ways c] \<subseteq> {..<n_ways c}" "distinct [0..<n_ways c]" by auto
  note F = fold_touch1 [OF assms(2,1) refl refl this, of st "clru c h s" h, folded touched_def, unfolded Let_def]
  show "m_P_WAYS (touched s st h c) = m_P_WAYS c" "m_P_SETS (touched s st h c) = m_P_SETS c"
    "m_P_LINE (touched s st h c) = m_P_LINE c" "cache_enabled (touched s st h c) = cache_enabled c"
    "cache_v (touched s st h c) = cache_v c" "cache_addr (touched s st h c) = cache_addr c"
    "cache_lines (touched s st h c) = cache_lines c" "cache_dims (touched s st h c)"
    "w < n_ways c \<Longrightarrow> clru (touched s st h c) w s' = (if s' = s
        then if w = h then n_ways c - 1 else aged (clru c h s) (clru c w s) else clru c w s')"
    "cdirty (touched s st h c) s' w = (cdirty c s' w \<or> (s' = s \<and> w = h \<and> st))"
    using F assms(3) by simp_all
qed

lemma touched_lru_ranks:
  assumes "cache_dims c" "s < n_sets c" "h < n_ways c" "s' < n_sets c" "lru_ranks c s" "lru_ranks c s'"
  shows "lru_ranks (touched s st h c) s'"
proof (rule lru_ranksI)
  note T = touched_props [OF assms(1-3)]
  have n: "n_ways (touched s st h c) = n_ways c" by (simp add: n_ways_def T)
  have hl: "clru c h s < n_ways c" using assms by (simp add: lru_less)
  {
    fix w assume "w < n_ways (touched s st h c)"
    then have w: "w < n_ways c" by (simp add: n)
    then have "clru c w s < n_ways c" "clru c w s' < n_ways c" using assms by (simp_all add: lru_less)
    then show "clru (touched s st h c) w s' < n_ways (touched s st h c)"
      by (auto simp: n T(9) [OF w] aged_def)
  }
  fix w w' assume "w < n_ways (touched s st h c)" "w' < n_ways (touched s st h c)"
    and eq: "clru (touched s st h c) w s' = clru (touched s st h c) w' s'"
  then have w: "w < n_ways c" "w' < n_ways c" by (simp_all add: n)
  have ne: "x \<noteq> h \<Longrightarrow> clru c x s \<noteq> clru c h s" if "x < n_ways c" for x
    using lru_inj [OF assms(5)] that assms(3) by blast
  have lt: "x \<noteq> h \<Longrightarrow> aged (clru c h s) (clru c x s) < n_ways c - 1" if "x < n_ways c" for x
    using ne [OF that] lru_less [OF assms(5) that] hl by (auto simp: aged_def)
  have inj: "x \<noteq> h \<Longrightarrow> y \<noteq> h \<Longrightarrow> aged (clru c h s) (clru c x s) = aged (clru c h s) (clru c y s) \<Longrightarrow> x = y"
    if "x < n_ways c" "y < n_ways c" for x y
    using ne [OF that(1)] ne [OF that(2)] lru_inj [OF assms(5) _ that] by (auto simp: aged_def split: if_splits)
  show "w = w'"
  proof (cases "s' = s")
    case True
    with eq have "(if w = h then n_ways c - 1 else aged (clru c h s) (clru c w s)) =
        (if w' = h then n_ways c - 1 else aged (clru c h s) (clru c w' s))"
      by (simp add: T(9) [OF w(1)] T(9) [OF w(2)])
    then show ?thesis using lt [OF w(1)] lt [OF w(2)] inj [OF w] by (auto split: if_splits)
  next
    case False
    with eq show ?thesis using lru_inj [OF assms(6) _ w] by (simp add: T(9) [OF w(1)] T(9) [OF w(2)])
  qed
qed

section \<open>Coherence and the memory seen through the cache\<close>

definition view :: "Cache \<Rightarrow> (phy_addr_t \<Rightarrow> u8) \<Rightarrow> phy_addr_t \<Rightarrow> u8" where
  "view c mb a =
     (if cache_enabled c then
        (case find (match_way c (entry_of c a) (tag_of c a)) [0..<n_ways c] of
           Some w \<Rightarrow> cline c w (entry_of c a) ! block_offset c a
         | None \<Rightarrow> mb a)
      else mb a)"

definition slot_coherent :: "Cache \<Rightarrow> (phy_addr_t \<Rightarrow> u8) \<Rightarrow> (phy_addr_t \<Rightarrow> bool) \<Rightarrow> nat \<Rightarrow> nat \<Rightarrow> bool" where
  "slot_coherent c mb rm w s \<longleftrightarrow> (cdirty c s w \<longrightarrow> cvalid c w s) \<and>
     (cvalid c w s \<longrightarrow> (\<forall>off < line_size c.
        rm (line_paddr c (ctag c w s) s + of_nat off) \<and>
        (\<not> cdirty c s w \<longrightarrow> cline c w s ! off = mb (line_paddr c (ctag c w s) s + of_nat off))))"

definition coherent :: "Cache \<Rightarrow> (phy_addr_t \<Rightarrow> u8) \<Rightarrow> (phy_addr_t \<Rightarrow> bool) \<Rightarrow> bool" where
  "coherent c mb rm \<longleftrightarrow> (\<forall>w < n_ways c. \<forall>s < n_sets c. slot_coherent c mb rm w s)"

text \<open>The line that holds an address lies in RAM.\<close>

definition line_in_ram :: "Cache \<Rightarrow> (phy_addr_t \<Rightarrow> bool) \<Rightarrow> phy_addr_t \<Rightarrow> bool" where
  "line_in_ram c rm pa \<longleftrightarrow>
     (\<forall>off < line_size c. rm (line_paddr c (tag_of c pa) (entry_of c pa) + of_nat off))"

text \<open>Everything but the statistics.\<close>

definition same_core :: "Cache \<Rightarrow> Cache \<Rightarrow> bool" where
  "same_core c' c \<longleftrightarrow> same_geometry c' c \<and> cache_v c' = cache_v c \<and> cache_dirty c' = cache_dirty c \<and>
     cache_lru c' = cache_lru c \<and> cache_addr c' = cache_addr c \<and> cache_lines c' = cache_lines c"

lemma same_geometry_eqs:
  assumes "same_geometry c' c"
  shows "n_ways c' = n_ways c" "n_sets c' = n_sets c" "line_size c' = line_size c"
    "entry_of c' = entry_of c" "tag_of c' = tag_of c" "line_paddr c' = line_paddr c"
    "block_offset c' = block_offset c" "geometry c' = geometry c" "tag_ok c' = tag_ok c"
    "cache_enabled c' = cache_enabled c" "line_in_ram c' = line_in_ram c"
  using assms
  by (auto simp: same_geometry_def n_ways_def n_sets_def line_size_def entry_of_def tag_of_def
      line_paddr_def block_offset_def m_block_offset_mask_def geometry_def tag_ok_def line_in_ram_def fun_eq_iff)

lemma same_core_eqs:
  assumes "same_core c' c"
  shows "match_way c' = match_way c" "cache_dims c' = cache_dims c" "lru_ranks c' = lru_ranks c"
    "tags_distinct c' = tags_distinct c" "cache_wf c' = cache_wf c" "view c' = view c" "coherent c' = coherent c"
proof -
  have g: "same_geometry c' c" using assms by (simp add: same_core_def)
  have a: "cache_v c' = cache_v c" "cache_dirty c' = cache_dirty c" "cache_lru c' = cache_lru c"
    "cache_addr c' = cache_addr c" "cache_lines c' = cache_lines c"
    using assms by (simp_all add: same_core_def)
  note e = a same_geometry_eqs [OF g]
  show mw: "match_way c' = match_way c" by (simp add: match_way_def fun_eq_iff e)
  show d: "cache_dims c' = cache_dims c" by (simp add: cache_dims_def e)
  show l: "lru_ranks c' = lru_ranks c" by (simp add: lru_ranks_def fun_eq_iff e)
  show t: "tags_distinct c' = tags_distinct c" by (simp add: tags_distinct_def fun_eq_iff e mw)
  show "cache_wf c' = cache_wf c" by (simp add: cache_wf_def e d l t)
  show "view c' = view c" by (intro ext) (simp only: view_def e mw)
  show "coherent c' = coherent c" by (simp add: coherent_def slot_coherent_def fun_eq_iff e)
qed

lemma same_core_freq [simp]:
  "same_core (c\<lparr>freq_hit := x\<rparr>) c" "same_core (c\<lparr>freq_miss := x\<rparr>) c"
  "same_core (c\<lparr>freq_miss := x, freq_miss_writeback := y\<rparr>) c"
  by (simp_all add: same_core_def same_geometry_def)

lemma same_coreD: "same_core c' c \<Longrightarrow> same_geometry c' c"
  by (simp add: same_core_def)

lemma wfD:
  assumes "cache_wf c"
  shows "cache_dims c" "geometry c" "s < n_sets c \<Longrightarrow> lru_ranks c s" "s < n_sets c \<Longrightarrow> tags_distinct c s"
    "s < n_sets c \<Longrightarrow> w < n_ways c \<Longrightarrow> cvalid c w s \<Longrightarrow> tag_ok c (ctag c w s)"
  using assms by (auto simp: cache_wf_def cache_dims_def)

lemma find_way:
  assumes "tags_distinct c s" "match_way c s t w" "w < n_ways c"
  shows "find (match_way c s t) [0..<n_ways c] = Some w"
proof (cases "find (match_way c s t) [0..<n_ways c]")
  case None
  then show ?thesis using assms(2,3) by (auto simp: find_None_iff)
next
  case (Some w')
  then have "match_way c s t w'" "w' < n_ways c" by (auto simp: find_Some_iff)
  then show ?thesis using Some match_unique [OF assms(1,2) _ assms(3)] by simp
qed

lemma view_hit:
  "cache_wf c \<Longrightarrow> cache_enabled c \<Longrightarrow> w < n_ways c \<Longrightarrow> match_way c (entry_of c a) (tag_of c a) w \<Longrightarrow>
   view c mb a = cline c w (entry_of c a) ! block_offset c a"
  by (simp add: view_def find_way wfD)

lemma view_miss:
  "\<forall>w < n_ways c. \<not> match_way c (entry_of c a) (tag_of c a) w \<Longrightarrow> view c mb a = mb a"
proof -
  assume "\<forall>w < n_ways c. \<not> match_way c (entry_of c a) (tag_of c a) w"
  then have "find (match_way c (entry_of c a) (tag_of c a)) [0..<n_ways c] = None"
    by (auto simp: find_None_iff)
  then show ?thesis by (simp add: view_def)
qed

lemma coherent_slot:
  assumes "coherent c mb rm" "w < n_ways c" "s < n_sets c"
  shows "cdirty c s w \<Longrightarrow> cvalid c w s"
    "cvalid c w s \<Longrightarrow> off < line_size c \<Longrightarrow> rm (line_paddr c (ctag c w s) s + of_nat off)"
    "cvalid c w s \<Longrightarrow> off < line_size c \<Longrightarrow> \<not> cdirty c s w \<Longrightarrow>
       cline c w s ! off = mb (line_paddr c (ctag c w s) s + of_nat off)"
  using assms by (auto simp: coherent_def slot_coherent_def)

subsection \<open>Aging keeps coherence and the view\<close>

lemma touched_same:
  assumes "cache_dims c" "s < n_sets c" "h < n_ways c"
  shows "same_geometry (touched s st h c) c" "match_way (touched s st h c) = match_way c"
  using touched_props [OF assms] by (simp_all add: same_geometry_def match_way_def fun_eq_iff)

lemma touched_wf:
  assumes "cache_wf c" "s < n_sets c" "h < n_ways c"
  shows "cache_wf (touched s st h c)"
proof -
  note T = touched_props [OF wfD(1) [OF assms(1)] assms(2,3)]
  note g = touched_same [OF wfD(1) [OF assms(1)] assms(2,3), of st]
  note e = same_geometry_eqs [OF g(1)]
  show ?thesis
    unfolding cache_wf_def tags_distinct_def
    using assms T(5,6,8) wfD [OF assms(1)]
    by (auto simp: e g(2) touched_lru_ranks tags_distinct_def)
qed

lemma touched_view:
  assumes "cache_dims c" "s < n_sets c" "h < n_ways c"
  shows "view (touched s st h c) mb = view c mb"
  using touched_props(7) [OF assms] touched_same [OF assms, of st]
  by (intro ext) (simp add: view_def same_geometry_eqs [OF touched_same(1) [OF assms]] cong: option.case_cong)

lemma touched_coherent:
  assumes "cache_wf c" "s < n_sets c" "h < n_ways c" "coherent c mb rm" "cvalid c h s"
  shows "coherent (touched s st h c) mb rm"
proof -
  note T = touched_props [OF wfD(1) [OF assms(1)] assms(2,3)]
  note e = same_geometry_eqs [OF touched_same(1) [OF wfD(1) [OF assms(1)] assms(2,3)], of st]
  show ?thesis
    using assms(4,5) by (auto simp: coherent_def slot_coherent_def e T(5-7,10))
qed

subsection \<open>Replacing a line\<close>

definition replaced :: "nat \<Rightarrow> nat \<Rightarrow> phy_addr_t \<Rightarrow> u8 list \<Rightarrow> Cache \<Rightarrow> Cache" where
  "replaced w s t ln c = c\<lparr>cache_v := (cache_v c)[w := (cache_v c ! w)[s := True]],
     cache_addr := (cache_addr c)[w := (cache_addr c ! w)[s := t]],
     cache_lines := (cache_lines c)[w := (cache_lines c ! w)[s := ln]]\<rparr>"

lemma replaced_same: "same_geometry (replaced w s t ln c) c"
  by (simp add: replaced_def same_geometry_def)

lemma replaced_props:
  assumes "cache_dims c" "s < n_sets c" "v < n_ways c" "length ln = line_size c"
  shows "cvalid (replaced v s t ln c) w s' \<longleftrightarrow> (w = v \<and> s' = s) \<or> cvalid c w s'"
    "ctag (replaced v s t ln c) w s' = (if w = v \<and> s' = s then t else ctag c w s')"
    "cline (replaced v s t ln c) w s' = (if w = v \<and> s' = s then ln else cline c w s')"
    "cache_dirty (replaced v s t ln c) = cache_dirty c" "cache_lru (replaced v s t ln c) = cache_lru c"
    "cache_dims (replaced v s t ln c)"
proof -
  note D = dimsD [OF assms(1)]
  show "cvalid (replaced v s t ln c) w s' \<longleftrightarrow> (w = v \<and> s' = s) \<or> cvalid c w s'"
    "ctag (replaced v s t ln c) w s' = (if w = v \<and> s' = s then t else ctag c w s')"
    and l: "cline (replaced v s t ln c) w s' = (if w = v \<and> s' = s then ln else cline c w s')" for w s'
    using assms by (auto simp: replaced_def nth_upd2 [OF D(2)] nth_upd2 [OF D(5)] nth_upd2 [OF D(6)])
  show "cache_dirty (replaced v s t ln c) = cache_dirty c" "cache_lru (replaced v s t ln c) = cache_lru c"
    by (simp_all add: replaced_def)
  have "\<forall>w < n_ways c. \<forall>s' < n_sets c. length (cline (replaced v s t ln c) w s') = line_size c"
    using assms(4) D(7) by (simp add: l)
  then show "cache_dims (replaced v s t ln c)"
    unfolding cache_dims_def same_geometry_eqs [OF replaced_same] using D(1-6)
    by (auto simp: replaced_def rect_upd)
qed

lemma replaced_match:
  assumes "cache_dims c" "s < n_sets c" "v < n_ways c" "length ln = line_size c"
  shows "match_way (replaced v s t ln c) s' t' w \<longleftrightarrow>
    (if w = v \<and> s' = s then t' = t else match_way c s' t' w)"
  by (auto simp: match_way_def replaced_props [OF assms])

lemma replaced_wf:
  assumes wf: "cache_wf c" and s: "s < n_sets c" "v < n_ways c" "length ln = line_size c" "tag_ok c t"
    and miss: "\<forall>w < n_ways c. \<not> match_way c s t w"
  shows "cache_wf (replaced v s t ln c)"
proof -
  note D = wfD(1) [OF wf]
  note R = replaced_props [OF D s(1-3)]
  note e = same_geometry_eqs [OF replaced_same]
  have "tags_distinct (replaced v s t ln c) s'" if "s' < n_sets c" for s'
    using wfD(4) [OF wf that] miss
    unfolding tags_distinct_def e R(1,2) replaced_match [OF D s(1-3)]
    by (auto simp: match_way_def)
  moreover have "lru_ranks (replaced v s t ln c) = lru_ranks c"
    by (simp add: lru_ranks_def fun_eq_iff R(5) e)
  ultimately show ?thesis
    using wfD [OF wf] s(4) by (auto simp: cache_wf_def e R(1,2,6))
qed

lemma line_member:
  assumes "geometry c" "tag_ok c t" "s < n_sets c"
  shows "unat (a - line_paddr c t s) < line_size c \<longleftrightarrow> entry_of c a = s \<and> tag_of c a = t"
    and "entry_of c a = s \<Longrightarrow> tag_of c a = t \<Longrightarrow> unat (a - line_paddr c t s) = block_offset c a"
proof -
  have off: "unat (a - line_paddr c t s) = block_offset c a" if "entry_of c a = s" "tag_of c a = t"
  proof -
    have "a - line_paddr c t s = of_nat (block_offset c a)"
      using addr_decompose [OF assms(1), of a] that by (metis add_diff_cancel_left')
    moreover have "block_offset c a < 2 ^ 32"
      using unat_less_exp [of a] by (simp add: block_offset_nat) (meson le_less_trans mod_less_eq_dividend)
    ultimately show ?thesis by (simp add: unat_of_nat)
  qed
  then show "entry_of c a = s \<Longrightarrow> tag_of c a = t \<Longrightarrow> unat (a - line_paddr c t s) = block_offset c a" .
  have "entry_of c a = s \<and> tag_of c a = t" if "unat (a - line_paddr c t s) < line_size c"
    using addr_compose(2,3) [OF assms that] by simp
  then show "unat (a - line_paddr c t s) < line_size c \<longleftrightarrow> entry_of c a = s \<and> tag_of c a = t"
    using off by auto
qed

text \<open>The memory after the victim is written back, and the line read from it.\<close>

definition written_back :: "Cache \<Rightarrow> nat \<Rightarrow> nat \<Rightarrow> (phy_addr_t \<Rightarrow> u8) \<Rightarrow> phy_addr_t \<Rightarrow> u8" where
  "written_back c v s mb a =
     (if cdirty c s v \<and> entry_of c a = s \<and> tag_of c a = ctag c v s then cline c v s ! block_offset c a else mb a)"

definition line_of :: "Cache \<Rightarrow> (phy_addr_t \<Rightarrow> u8) \<Rightarrow> phy_addr_t \<Rightarrow> nat \<Rightarrow> u8 list" where
  "line_of c mb t s = map (\<lambda>off. mb (line_paddr c t s + of_nat off)) [0..<line_size c]"

lemma line_of_nth: "off < line_size c \<Longrightarrow> line_of c mb t s ! off = mb (line_paddr c t s + of_nat off)"
  "length (line_of c mb t s) = line_size c"
  by (simp_all add: line_of_def)

text \<open>The line of the victim is found in memory once it has been written back.\<close>

lemma evicted_view:
  assumes wf: "cache_wf c" and co: "coherent c mb rm" and s: "s < n_sets c" "v < n_ways c"
    and a: "entry_of c a = s" "match_way c s (tag_of c a) v" "tag_of c a \<noteq> t"
  shows "view (replaced v s t (line_of c mb' t s) c) (written_back c v s mb) a = cline c v s ! block_offset c a"
proof -
  note D = wfD(1) [OF wf] and G = wfD(2) [OF wf]
  note e = same_geometry_eqs [OF replaced_same, of v s t "line_of c mb' t s" c]
  note M = replaced_match [OF D s(1,2) line_of_nth(2), of t mb' t s]
  have t: "tag_of c a = ctag c v s" "cvalid c v s" using a by (auto simp: match_way_def)
  have "\<not> match_way (replaced v s t (line_of c mb' t s) c) s (tag_of c a) w" if "w < n_ways c" for w
    using a s(2) match_unique [OF wfD(4) [OF wf s(1)], of "tag_of c a" v w] that by (auto simp: M)
  then have "view (replaced v s t (line_of c mb' t s) c) (written_back c v s mb) a = written_back c v s mb a"
    using a(1) by (simp add: view_miss e)
  also have "\<dots> = cline c v s ! block_offset c a"
    using a(1) t coherent_slot(3) [OF co s(2,1) t(2) block_offset_less, of a] addr_decompose [OF G, of a]
    by (auto simp: written_back_def)
  finally show ?thesis .
qed

lemma replaced_view:
  assumes wf: "cache_wf c" and en: "cache_enabled c" and co: "coherent c mb rm"
    and s: "s < n_sets c" "v < n_ways c" "tag_ok c t"
    and miss: "\<forall>w < n_ways c. \<not> match_way c s t w"
  defines "mb' \<equiv> written_back c v s mb"
  shows "view (replaced v s t (line_of c mb' t s) c) mb' = view c mb"
proof
  fix a
  let ?c = "replaced v s t (line_of c mb' t s) c"
  let ?e = "entry_of c a" and ?t = "tag_of c a"
  note D = wfD(1) [OF wf] and G = wfD(2) [OF wf]
  note e = same_geometry_eqs [OF replaced_same, of v s t "line_of c mb' t s" c]
  note R = replaced_props [OF D s(1,2) line_of_nth(2), of t mb' t s]
  note M = replaced_match [OF D s(1,2) line_of_nth(2), of t mb' t s]
  have wf': "cache_wf ?c" by (rule replaced_wf [OF wf s(1,2) line_of_nth(2) s(3) miss])
  have en': "cache_enabled ?c" using en by (simp add: e)
  have dirty_v: "match_way c s (ctag c v s) v" if "cdirty c s v"
    using coherent_slot(1) [OF co s(2,1) that] by (simp add: match_way_def)
  consider (new) "?e = s" "?t = t" | (old) w where "w < n_ways c" "match_way c ?e ?t w" "\<not> (?e = s \<and> ?t = t)"
    | (none) "\<forall>w < n_ways c. \<not> match_way c ?e ?t w" "\<not> (?e = s \<and> ?t = t)" by blast
  then show "view ?c mb' a = view c mb a"
  proof cases
    case new
    have "view ?c mb' a = mb' a"
      using view_hit [OF wf' en', of v a mb'] s(2) new addr_decompose [OF G, of a]
      by (simp add: e M R(3) line_of_nth)
    also have "\<dots> = mb a"
      using new dirty_v miss s(2) by (auto simp: mb'_def written_back_def)
    finally show ?thesis using miss new by (simp add: view_miss)
  next
    case (old w)
    show ?thesis
    proof (cases "w = v \<and> ?e = s")
      case True
      then show ?thesis
        using view_hit [OF wf en old(1,2)] evicted_view [OF wf co s(1,2), of a t mb'] old(2,3) by (auto simp: mb'_def)
    next
      case False
      then show ?thesis
        using view_hit [OF wf en old(1,2)] view_hit [OF wf' en', of w a mb'] old(1,2) by (auto simp: e M R(3))
    qed
  next
    case none
    have "view ?c mb' a = mb' a" using none by (intro view_miss) (auto simp: e M)
    also have "\<dots> = mb a" using none(1) dirty_v s(2) by (auto simp: mb'_def written_back_def)
    finally show ?thesis using none(1) by (simp add: view_miss)
  qed
qed

lemma replaced_coherent:
  assumes wf: "cache_wf c" and co: "coherent c mb rm"
    and s: "s < n_sets c" "v < n_ways c" "tag_ok c t"
    and rm: "\<forall>off < line_size c. rm (line_paddr c t s + of_nat off)"
  defines "mb' \<equiv> written_back c v s mb"
  shows "coherent (replaced v s t (line_of c mb' t s) c) mb' rm"
  unfolding coherent_def same_geometry_eqs [OF replaced_same]
proof (intro allI impI)
  fix w s' assume w: "w < n_ways c" "s' < n_sets c"
  note D = wfD(1) [OF wf] and G = wfD(2) [OF wf]
  note e = same_geometry_eqs [OF replaced_same, of v s t "line_of c mb' t s" c]
  note R = replaced_props [OF D s(1,2) line_of_nth(2), of t mb' t s]
  have clean: "mb' (line_paddr c (ctag c w s') s' + of_nat off) = mb (line_paddr c (ctag c w s') s' + of_nat off)"
    if "cvalid c w s'" "off < line_size c" "\<not> (w = v \<and> s' = s)" for off
  proof -
    note A = addr_compose [OF G wfD(5) [OF wf w(2,1) that(1)] w(2) that(2)]
    have "\<not> (cdirty c s v \<and> s' = s \<and> ctag c w s' = ctag c v s)"
      using coherent_slot(1) [OF co s(2,1)] wfD(4) [OF wf s(1)] that(1,3) w s(2)
      by (auto simp: tags_distinct_def match_way_def)
    then show ?thesis by (auto simp: mb'_def written_back_def A)
  qed
  show "slot_coherent (replaced v s t (line_of c mb' t s) c) mb' rm w s'"
    unfolding slot_coherent_def e R(1-4)
    using coherent_slot [OF co w] rm clean by (auto simp: line_of_nth)
qed

subsection \<open>Writing a byte of a line\<close>

definition put_byte :: "nat \<Rightarrow> phy_addr_t \<Rightarrow> u8 \<Rightarrow> Cache \<Rightarrow> Cache" where
  "put_byte w a b c = c\<lparr>cache_lines := (cache_lines c)[w := (cache_lines c ! w)
     [entry_of c a := (cline c w (entry_of c a))[block_offset c a := b]]]\<rparr>"

lemma put_byte_same: "same_geometry (put_byte w a b c) c"
  by (simp add: put_byte_def same_geometry_def)

lemma put_byte_props:
  assumes "cache_dims c" "w < n_ways c"
  shows "cline (put_byte w a b c) w' s' =
      (if w' = w \<and> s' = entry_of c a then (cline c w s')[block_offset c a := b] else cline c w' s')"
    "match_way (put_byte w a b c) = match_way c" "cache_dirty (put_byte w a b c) = cache_dirty c"
    "cache_v (put_byte w a b c) = cache_v c" "cache_addr (put_byte w a b c) = cache_addr c"
    "cache_lru (put_byte w a b c) = cache_lru c" "cache_dims (put_byte w a b c)"
proof -
  note D = dimsD [OF assms(1)]
  show l: "cline (put_byte w a b c) w' s' =
      (if w' = w \<and> s' = entry_of c a then (cline c w s')[block_offset c a := b] else cline c w' s')" for w' s'
    using assms(2) by (auto simp: put_byte_def nth_upd2 [OF D(6)])
  show r: "match_way (put_byte w a b c) = match_way c" "cache_dirty (put_byte w a b c) = cache_dirty c"
    "cache_v (put_byte w a b c) = cache_v c" "cache_addr (put_byte w a b c) = cache_addr c"
    "cache_lru (put_byte w a b c) = cache_lru c"
    by (auto simp: put_byte_def match_way_def fun_eq_iff)
  have "rect (cache_lines (put_byte w a b c)) (n_ways c) (n_sets c)"
    using D(6) by (simp add: put_byte_def rect_upd)
  then show "cache_dims (put_byte w a b c)"
    unfolding cache_dims_def same_geometry_eqs [OF put_byte_same]
    using D by (simp add: r l)
qed

lemma set_line_byte_eq:
  assumes "cache_dims c" "w < n_ways c" "entry_of c a = s"
  shows "set_line_byte w s a b c = Inr (put_byte w a b c)"
proof -
  have "s < n_sets c" using entry_of_less [of c a] assms(3) by simp
  then show ?thesis
    using assms dimsD [OF assms(1)]
    by (auto simp: set_line_byte_def nth2_rect [OF dimsD(6) [OF assms(1)]] upd2_rect [OF dimsD(6) [OF assms(1)]] put_byte_def)
qed

lemma put_byte_wf:
  assumes "cache_wf c" "w < n_ways c"
  shows "cache_wf (put_byte w a b c)"
proof -
  note P = put_byte_props [OF wfD(1) [OF assms(1)] assms(2), of a b]
  note e = same_geometry_eqs [OF put_byte_same, of w a b c]
  have "lru_ranks (put_byte w a b c) = lru_ranks c" "tags_distinct (put_byte w a b c) = tags_distinct c"
    by (simp_all add: fun_eq_iff lru_ranks_def tags_distinct_def P(2,4,5,6) e)
  then show ?thesis using assms(1) by (simp add: cache_wf_def P(4,5,7) e)
qed

lemma put_byte_view:
  assumes wf: "cache_wf c" and w: "w < n_ways c" and en: "cache_enabled c"
    and m: "match_way c (entry_of c a) (tag_of c a) w"
  shows "view (put_byte w a b c) mb = (view c mb)(a := b)"
proof
  fix x
  note P = put_byte_props [OF wfD(1) [OF wf] w]
  note e = same_geometry_eqs [OF put_byte_same, of w a b c]
  note wf' = put_byte_wf [OF wf w, of a b]
  show "view (put_byte w a b c) mb x = ((view c mb)(a := b)) x"
  proof (cases "\<exists>u < n_ways c. match_way c (entry_of c x) (tag_of c x) u")
    case False
    with m w have "x \<noteq> a" by auto
    moreover have "view (put_byte w a b c) mb x = mb x" "view c mb x = mb x"
      using False by (simp_all add: view_miss P e)
    ultimately show ?thesis by simp
  next
    case True
    then obtain u where u: "u < n_ways c" "match_way c (entry_of c x) (tag_of c x) u" by blast
    have v: "view (put_byte w a b c) mb x = cline (put_byte w a b c) u (entry_of c x) ! block_offset c x"
      "view c mb x = cline c u (entry_of c x) ! block_offset c x"
      using u view_hit [OF wf', of u x] view_hit [OF wf en u] en by (simp_all add: P e)
    show ?thesis
    proof (cases "x = a")
      case True
      with u m w match_unique [OF wfD(4) [OF wf entry_of_less], of a "tag_of c a" u w] have "u = w" by simp
      with True show ?thesis using v(1) dimsD(7) [OF wfD(1) [OF wf] w entry_of_less, of a] by (simp add: P(1))
    next
      case False
      have "block_offset c x \<noteq> block_offset c a" if "entry_of c x = entry_of c a" "u = w"
        using False that u(2) m addr_decompose [OF wfD(2) [OF wf], of a] addr_decompose [OF wfD(2) [OF wf], of x]
        by (auto simp: match_way_def)
      then show ?thesis using False by (auto simp: v P(1))
    qed
  qed
qed

lemma put_byte_coherent:
  assumes "cache_wf c" "w < n_ways c" "coherent c mb rm" "cdirty c (entry_of c a) w"
  shows "coherent (put_byte w a b c) mb rm"
  unfolding coherent_def slot_coherent_def same_geometry_eqs [OF put_byte_same]
  using coherent_slot [OF assms(3)] assms(4) by (auto simp: put_byte_props [OF wfD(1) [OF assms(1)] assms(2)])

end
