(* ===== verification/CachePort.thy ===== *)
theory CachePort
  imports CacheProps
begin

text \<open>
  The operations of a cache on the memory behind it. The locale \<open>cached_port\<close> is the interface: what a
  cache needs of the memory accessors. Inside it, \<open>access\<close>, the loads and stores and \<open>flush\<close> are shown to keep the
  invariant and to implement a flat byte memory; the locale is interpreted on the physical memory.
\<close>

section \<open>A cache in front of a byte port\<close>

text \<open>Little-endian values of a flat byte memory, and its updates.\<close>

definition le16 :: "(phy_addr_t \<Rightarrow> u8) \<Rightarrow> phy_addr_t \<Rightarrow> u16" where
  "le16 f a = push_bit 8 (ucast (f (a + 1))) OR ucast (f a)"

definition le32 :: "(phy_addr_t \<Rightarrow> u8) \<Rightarrow> phy_addr_t \<Rightarrow> u32" where
  "le32 f a = push_bit 24 (ucast (f (a + 3))) OR push_bit 16 (ucast (f (a + 2)))
     OR push_bit 8 (ucast (f (a + 1))) OR ucast (f a)"

definition upd16 :: "phy_addr_t \<Rightarrow> u16 \<Rightarrow> (phy_addr_t \<Rightarrow> u8) \<Rightarrow> phy_addr_t \<Rightarrow> u8" where
  "upd16 a v f = f(a := byte_of 0 v, a + 1 := byte_of 1 v)"

definition upd32 :: "phy_addr_t \<Rightarrow> u32 \<Rightarrow> (phy_addr_t \<Rightarrow> u8) \<Rightarrow> phy_addr_t \<Rightarrow> u8" where
  "upd32 a v f = f(a := byte_of 0 v, a + 1 := byte_of 1 v, a + 2 := byte_of 2 v, a + 3 := byte_of 3 v)"

definition ram_range :: "(phy_addr_t \<Rightarrow> bool) \<Rightarrow> phy_addr_t \<Rightarrow> nat \<Rightarrow> bool" where
  "ram_range rm a n \<longleftrightarrow> (\<forall>i < n. rm (a + of_nat i))"

lemma le32_upd32: "le32 (upd32 a v f) a = v"
  by (simp add: le32_def upd32_def bytes_word32 del: One_nat_def)

lemma le16_upd16: "le16 (upd16 a v f) a = v"
  by (simp add: le16_def upd16_def bytes_word16 del: One_nat_def)

text \<open>An aligned access stays inside one line.\<close>

lemma aligned_same_line:
  assumes "unat a mod n = 0" "k < n" "n dvd line_size c" "n dvd 2 ^ 32"
  shows "entry_of c (a + of_nat k) = entry_of c a" "tag_of c (a + of_nat k) = tag_of c a"
proof -
  obtain q where q: "line_size c = n * q" using assms(3) by blast
  obtain b where b: "unat a = n * b" using assms(1) by (metis mod_0_imp_dvd dvdE)
  obtain r where r: "2 ^ 32 = n * r" using assms(4) by blast
  have "unat a < 2 ^ 32" using unat_less_exp [of a] by simp
  then have "n * b < n * r" unfolding b r .
  then have "b < r" by simp
  then have "n * Suc b \<le> n * r" by (simp only: Suc_le_eq mult_le_mono2)
  then have lt: "n * b + k < 2 ^ 32" using assms(2) unfolding r by simp
  then have "unat (of_nat k :: u32) = k" by (simp add: unat_of_nat)
  then have u: "unat (a + of_nat k) = n * b + k" using lt b by (simp add: unat_word_ariths)
  have "(n * b + k) div (n * q) = (n * b) div (n * q)"
    using assms(2) by (simp add: div_mult2_eq)
  then show "entry_of c (a + of_nat k) = entry_of c a" "tag_of c (a + of_nat k) = tag_of c a"
    by (simp_all add: entry_of_nat tag_of_nat word_unat_eq_iff u b q)
qed

lemma and3_mod: "a AND 0x3 = 0 \<longleftrightarrow> unat a mod 4 = 0" for a :: u32
  using unat_and_mask_mod [of a 2] by (simp add: word_unat_eq_iff)

lemma and1_mod: "a AND 0x1 = 0 \<longleftrightarrow> unat a mod 2 = 0" for a :: u32
  using unat_and_mask_mod [of a 1] by (simp add: word_unat_eq_iff)

locale cached_port = byte_port rd8 wr8 byte ok ram rest
  for rd8 :: "phy_addr_t \<Rightarrow> 'm \<Rightarrow> halt + u8 \<times> 'm" and wr8 and byte and ok and ram and rest :: "'m \<Rightarrow> 'r" +
  fixes ops :: "'m mem_ops"
  assumes ops_rd: "op_readm8 ops = rd8" and ops_wr: "op_writem8 ops = wr8"
    and rd16_ram: "ok m \<Longrightarrow> ram_range (ram m) a 2 \<Longrightarrow> op_readm16 ops a m = Inr (le16 (byte m) a, m)"
    and rd32_ram: "ok m \<Longrightarrow> ram_range (ram m) a 4 \<Longrightarrow> op_readm32 ops a m = Inr (le32 (byte m) a, m)"
    and wr16_ram: "ok m \<Longrightarrow> ram_range (ram m) a 2 \<Longrightarrow>
      \<exists>m'. op_writem16 ops a h m = Inr m' \<and> ok m' \<and> ram m' = ram m \<and> rest m' = rest m \<and>
           byte m' = upd16 a h (byte m)"
    and wr32_ram: "ok m \<Longrightarrow> ram_range (ram m) a 4 \<Longrightarrow>
      \<exists>m'. op_writem32 ops a w m = Inr m' \<and> ok m' \<and> ram m' = ram m \<and> rest m' = rest m \<and>
           byte m' = upd32 a w (byte m)"
begin

lemma write_line_ok:
  assumes "length ln = n" "n < 2 ^ 32"
  shows "k \<le> n \<Longrightarrow> ok m \<Longrightarrow> (\<forall>off < n. ram m (pa + of_nat off)) \<Longrightarrow>
    \<exists>m'. write_line ops pa [k..<n] ln m = Inr m' \<and> ok m' \<and> ram m' = ram m \<and> rest m' = rest m \<and>
      (\<forall>a. byte m' a = (if k \<le> unat (a - pa) \<and> unat (a - pa) < n then ln ! unat (a - pa) else byte m a))"
proof (induction "n - k" arbitrary: k m)
  case 0
  then show ?case by auto
next
  case (Suc j)
  then have k: "k < n" by simp
  obtain m1 where m1: "wr8 (pa + of_nat k) (ln ! k) m = Inr m1" "ok m1" "ram m1 = ram m" "rest m1 = rest m"
    "byte m1 = (byte m)(pa + of_nat k := ln ! k)"
    using wr8_ram Suc.prems k by blast
  have "j = n - Suc k" "Suc k \<le> n" using Suc.hyps(2) k by simp_all
  from Suc.hyps(1) [OF this m1(2)] obtain m2 where m2: "write_line ops pa [Suc k..<n] ln m1 = Inr m2"
    "ok m2" "ram m2 = ram m" "rest m2 = rest m"
    "\<forall>a. byte m2 a = (if Suc k \<le> unat (a - pa) \<and> unat (a - pa) < n then ln ! unat (a - pa) else byte m1 a)"
    using Suc.prems(3) m1 by auto
  have "unat (of_nat k :: u32) = k" using k assms(2) by (simp add: unat_of_nat)
  then have u: "a = pa + of_nat k \<longleftrightarrow> unat (a - pa) = k" for a
    by (metis add_diff_cancel_left' diff_add_cancel add.commute word_unat_eq_iff)
  have "write_line ops pa [k..<n] ln m = Inr m2"
    using k assms(1) by (simp add: upt_conv_Cons ops_wr m1 m2(1))
  moreover have "byte m2 a = (if k \<le> unat (a - pa) \<and> unat (a - pa) < n then ln ! unat (a - pa) else byte m a)" for a
    using k by (auto simp: m2(5) m1(5) u)
  ultimately show ?case using m2 by blast
qed

lemma read_line_ok:
  assumes "ok m" "\<forall>off < n. ram m (pa + of_nat off)"
  shows "k \<le> n \<Longrightarrow> length ln = n \<Longrightarrow>
    read_line ops pa [k..<n] ln m = Inr (take k ln @ map (\<lambda>off. byte m (pa + of_nat off)) [k..<n], m)"
proof (induction "n - k" arbitrary: k ln)
  case 0
  then show ?case by simp
next
  case (Suc j)
  then have k: "k < n" by simp
  have "rd8 (pa + of_nat k) m = Inr (byte m (pa + of_nat k), m)"
    using rd8_ram assms k by blast
  moreover have "j = n - Suc k" "Suc k \<le> n" using Suc.hyps(2) k by simp_all
  ultimately show ?case
    using Suc.hyps(1) [of "Suc k" "ln[k := byte m (pa + of_nat k)]"] Suc.prems k
    by (simp add: upt_conv_Cons ops_rd take_Suc_conv_app_nth)
qed

end

text \<open>The second and third loops, once way \<open>h\<close> holds the line.\<close>

lemma access_tail:
  assumes wf: "cache_wf c" and s: "s < n_sets c" and h: "h < n_ways c" "match_way c s t h"
  shows "bnd (lru_threshold c s t [0..<n_ways c] ([], 0)) (\<lambda>(match, lru_thresh).
     bnd (touch_ways s True st [] match lru_thresh [0..<n_ways c] (c, None)) (\<lambda>(c2, hit_way).
     case hit_way of None \<Rightarrow> Inl AssertFail | Some w \<Rightarrow> Inr ((w, s), c2, m))) =
   Inr ((h, s), touched s st h c, m)"
proof -
  note D = wfD(1) [OF wf]
  let ?ws = "[0..<n_ways c]"
  let ?ms = "map (match_way c s t) ?ws"
  have ws: "set ?ws \<subseteq> {..<n_ways c}" "distinct ?ws" by auto
  have th: "lru_threshold c s t ?ws ([], 0) = Inr (?ms, clru c h s)"
    using lru_threshold_eq [OF D s wfD(4) [OF wf s] h ws, of 0 "[]"] h(1) by simp
  have ms: "?ms ! i \<longleftrightarrow> i = h" if "i < n_ways c" for i
    using that h match_unique [OF wfD(4) [OF wf s] h(2) _ h(1) that] by auto
  have len: "length ?ms = n_ways c" by simp
  have "\<forall>w < n_ways c. clru c w s < n_ways c" using lru_less [OF wfD(3) [OF wf s]] by blast
  from touch_ways_eq [OF h(1) len ms s D refl refl ws this]
  have "touch_ways s True st [] ?ms (clru c h s) ?ws (c, None) = Inr (touched s st h c, Some h)"
    using h(1) by (simp add: touched_def)
  then show ?thesis by (simp add: th)
qed

text \<open>The first loop on a well-formed cache, with the unique way \<open>v\<close> whose counter is 0.\<close>

lemma scan_wf:
  assumes wf: "cache_wf c" and s: "s < n_sets c"
  obtains v where "v < n_ways c" "clru c v s = 0"
    "scan_ways c s t [0..<n_ways c] (False, None, False) =
       Inr (\<exists>w < n_ways c. match_way c s t w, Some v, cdirty c s v)"
proof -
  obtain v where v: "v < n_ways c" "clru c v s = 0" using victim_exists [OF wfD(3) [OF wf s]] by blast
  have z: "clru c w s = 0 \<longleftrightarrow> w = v" if "w < n_ways c" for w
    using lru_inj [OF wfD(3) [OF wf s], of w v] v that by auto
  have "set [0..<n_ways c] \<subseteq> {..<n_ways c}" by auto
  from scan_ways_eq [OF wfD(1) [OF wf] s wfD(4) [OF wf s] v(1) z this, of False t None False] v
  have "scan_ways c s t [0..<n_ways c] (False, None, False) =
       Inr (\<exists>w < n_ways c. match_way c s t w, Some v, cdirty c s v)" by auto
  with v show thesis using that by blast
qed

lemma access_hit:
  assumes wf: "cache_wf c" and h: "h < n_ways c" "match_way c (entry_of c pa) (tag_of c pa) h"
  shows "access ops pa st (c, m) =
    Inr ((h, entry_of c pa), touched (entry_of c pa) st h (c\<lparr>freq_hit := freq_hit c + 1\<rparr>), m)"
proof -
  let ?c = "c\<lparr>freq_hit := freq_hit c + 1\<rparr>"
  have sc: "same_core ?c c" by simp
  note e = same_core_eqs [OF sc] same_geometry_eqs [OF same_coreD [OF sc]]
  obtain v where "scan_ways c (entry_of c pa) (tag_of c pa) [0..<n_ways c] (False, None, False) =
      Inr (\<exists>w < n_ways c. match_way c (entry_of c pa) (tag_of c pa) w, Some v, cdirty c (entry_of c pa) v)"
    by (rule scan_wf [OF wf entry_of_less])
  moreover have "\<exists>w < n_ways c. match_way c (entry_of c pa) (tag_of c pa) w" using h by blast
  ultimately show ?thesis
    using access_tail [of ?c "entry_of c pa" h "tag_of c pa" st m] wf h
    by (simp add: access_def Let_def e)
qed

text \<open>The way used last gets the highest rank; the order of the others does not change.\<close>

definition lru_touched :: "Cache \<Rightarrow> nat \<Rightarrow> nat \<Rightarrow> Cache \<Rightarrow> bool" where
  "lru_touched c s w c' \<longleftrightarrow> (\<forall>u < n_ways c. \<forall>s'. clru c' u s' =
     (if s' = s then if u = w then n_ways c - 1 else aged (clru c w s) (clru c u s) else clru c u s'))"

lemma touched_access:
  assumes a: "cache_wf c1" "same_geometry c1 c" "w < n_ways c" "match_way c1 (entry_of c pa) (tag_of c pa) w"
      "coherent c1 mb rm" "view c1 mb = vw" "cache_lru c1 = cache_lru c"
  shows "same_geometry (touched (entry_of c pa) st w c1) c \<and> cache_wf (touched (entry_of c pa) st w c1) \<and>
      match_way (touched (entry_of c pa) st w c1) (entry_of c pa) (tag_of c pa) w \<and>
      coherent (touched (entry_of c pa) st w c1) mb rm \<and>
      view (touched (entry_of c pa) st w c1) mb = vw \<and>
      (\<not> st \<or> cdirty (touched (entry_of c pa) st w c1) (entry_of c pa) w) \<and>
      lru_touched c (entry_of c pa) w (touched (entry_of c pa) st w c1)"
proof -
  let ?s = "entry_of c pa"
  note g = same_geometry_eqs [OF a(2)]
  have s: "?s < n_sets c1" "w < n_ways c1" using a(3) by (simp_all add: g)
  note T = touched_same [OF wfD(1) [OF a(1)] s, of st] touched_wf [OF a(1) s, of st]
    touched_view [OF wfD(1) [OF a(1)] s, of st mb] touched_coherent [OF a(1) s a(5), of st]
    touched_props(10) [OF wfD(1) [OF a(1)] s, of st ?s w]
  have "lru_touched c ?s w (touched ?s st w c1)"
    unfolding lru_touched_def using touched_props(9) [OF wfD(1) [OF a(1)] s] by (simp add: g a(7))
  then show ?thesis using a T by (auto simp: same_geometry_def match_way_def)
qed

context cached_port
begin

text \<open>A slot whose line can be written back if it is dirty; in a coherent cache every slot is one.\<close>

definition slot_flushable :: "Cache \<Rightarrow> 'm \<Rightarrow> nat \<Rightarrow> nat \<Rightarrow> bool" where
  "slot_flushable c m v s \<longleftrightarrow> (cdirty c s v \<longrightarrow>
     tag_ok c (ctag c v s) \<and> (\<forall>off < line_size c. ram m (line_paddr c (ctag c v s) s + of_nat off)))"

lemma coherent_flushable:
  assumes "cache_wf c" "s < n_sets c" "v < n_ways c" "coherent c (byte m) (ram m)"
  shows "slot_flushable c m v s"
  using coherent_slot [OF assms(4,3,2)] wfD(5) [OF assms(1-3)] by (simp add: slot_flushable_def)

lemma writeback_line:
  assumes wf: "cache_wf c" and s: "s < n_sets c" "v < n_ways c"
    and m: "ok m" "slot_flushable c m v s" and d: "cdirty c s v"
  obtains m' where "write_line ops (line_paddr c (ctag c v s) s) [0..<line_size c] (cline c v s) m = Inr m'"
    "ok m'" "ram m' = ram m" "rest m' = rest m" "byte m' = written_back c v s (byte m)"
proof -
  note D = wfD(1) [OF wf] and G = wfD(2) [OF wf]
  let ?pa = "line_paddr c (ctag c v s) s"
  have t: "tag_ok c (ctag c v s)" and rm: "\<forall>off < line_size c. ram m (?pa + of_nat off)"
    using m(2) d by (simp_all add: slot_flushable_def)
  have len: "length (cline c v s) = line_size c" using dimsD(7) [OF D s(2,1)] .
  have sz: "line_size c < 2 ^ 32" using G by (simp only: line_size_def geometry_def power_strict_increasing_iff)
  from write_line_ok [OF len sz _ m(1) rm, of 0] obtain m' where
    m': "write_line ops ?pa [0..<line_size c] (cline c v s) m = Inr m'" "ok m'" "ram m' = ram m" "rest m' = rest m"
      "\<forall>a. byte m' a = (if unat (a - ?pa) < line_size c then cline c v s ! unat (a - ?pa) else byte m a)"
    by auto
  have "byte m' = written_back c v s (byte m)"
    using d line_member [OF G t s(1)] by (auto simp: m'(5) written_back_def fun_eq_iff)
  with m' that show thesis by blast
qed

lemma miss_writeback_ok:
  assumes wf: "cache_wf c" and s: "s < n_sets c" "v < n_ways c"
    and m: "ok m" "slot_flushable c m v s"
  shows "\<exists>m' c'. miss_writeback ops v s (cdirty c s v) (c\<lparr>freq_miss := n\<rparr>, m) = Inr (c', m') \<and> same_core c' c \<and>
    ok m' \<and> ram m' = ram m \<and> rest m' = rest m \<and> byte m' = written_back c v s (byte m)"
proof (cases "cdirty c s v")
  case False
  then have "written_back c v s (byte m) = byte m" by (simp add: written_back_def fun_eq_iff)
  with False m show ?thesis by (simp add: miss_writeback_def)
next
  case True
  note D = wfD(1) [OF wf]
  let ?c = "c\<lparr>freq_miss := n\<rparr>"
  have sc: "same_core ?c c" by simp
  note e = same_geometry_eqs [OF same_coreD [OF sc]]
  obtain m' where m': "write_line ops (line_paddr c (ctag c v s) s) [0..<line_size c] (cline c v s) m = Inr m'"
    "ok m'" "ram m' = ram m" "rest m' = rest m" "byte m' = written_back c v s (byte m)"
    using writeback_line [OF wf s m True] .
  have "miss_writeback ops v s True (?c, m) = Inr (?c\<lparr>freq_miss_writeback := freq_miss_writeback ?c + 1\<rparr>, m')"
    using s m'(1) by (simp add: miss_writeback_def e nth2_rect [OF dimsD(5) [OF D]] nth2_rect [OF dimsD(6) [OF D]])
  moreover have "same_core (?c\<lparr>freq_miss_writeback := freq_miss_writeback ?c + 1\<rparr>) c" by simp
  ultimately show ?thesis using True m'(2-5) by auto
qed

lemma miss_refill_ok:
  assumes D: "cache_dims c" and s: "s < n_sets c" "v < n_ways c" and m: "ok m"
    and rm: "\<forall>off < line_size c. ram m (line_paddr c t s + of_nat off)"
  shows "miss_refill ops v s t (c, m) = Inr (replaced v s t (line_of c (byte m) t s) c, m)"
  using s read_line_ok [OF m rm, of 0 "cline c v s"] dimsD(7) [OF D s(2,1)]
  by (simp add: miss_refill_def replaced_def line_of_def upd2_rect [OF dimsD(2) [OF D]]
      upd2_rect [OF dimsD(5) [OF D]] nth2_rect [OF dimsD(6) [OF D]] upd2_rect [OF dimsD(6) [OF D]])

text \<open>A miss: the way of rank 0 is written back when dirty, valid or not, and replaced by the line of the address.\<close>

lemma access_evict:
  assumes wf: "cache_wf c" and m: "ok m" "\<forall>v < n_ways c. slot_flushable c m v (entry_of c pa)"
    and rm: "line_in_ram c (ram m) pa" and miss: "\<forall>w < n_ways c. \<not> match_way c (entry_of c pa) (tag_of c pa) w"
  obtains v c1 m1 where "access ops pa st (c, m) = Inr ((v, entry_of c pa), touched (entry_of c pa) st v
        (replaced v (entry_of c pa) (tag_of c pa) (line_of c1 (byte m1) (tag_of c pa) (entry_of c pa)) c1), m1)"
    and "v < n_ways c" and "clru c v (entry_of c pa) = 0" and "same_core c1 c" and "ok m1" and "ram m1 = ram m" and "rest m1 = rest m"
    and "byte m1 = written_back c v (entry_of c pa) (byte m)"
proof -
  let ?s = "entry_of c pa" and ?t = "tag_of c pa"
  have s: "?s < n_sets c" by simp
  have none: "\<not> (\<exists>h < n_ways c. match_way c ?s ?t h)" using miss by blast
  obtain v where v: "v < n_ways c" "scan_ways c ?s ?t [0..<n_ways c] (False, None, False) =
      Inr (False, Some v, cdirty c ?s v)" "clru c v ?s = 0"
    by (rule scan_wf [OF wf s, of ?t]) (simp add: none)
  have f: "slot_flushable c m v ?s" using m(2) v(1) by blast
  obtain m1 c1 where wb: "miss_writeback ops v ?s (cdirty c ?s v) (c\<lparr>freq_miss := freq_miss c + 1\<rparr>, m) = Inr (c1, m1)"
      "same_core c1 c" "ok m1" "ram m1 = ram m" "rest m1 = rest m" "byte m1 = written_back c v ?s (byte m)"
    using miss_writeback_ok [OF wf s v(1) m(1) f] by blast
  note g1 = same_geometry_eqs [OF same_coreD [OF wb(2)]] and e1 = same_core_eqs [OF wb(2)]
  have rm1: "\<forall>off < line_size c1. ram m1 (line_paddr c1 ?t ?s + of_nat off)"
    using rm wb(4) by (simp add: line_in_ram_def g1)
  let ?ln = "line_of c1 (byte m1) ?t ?s"
  let ?c2 = "replaced v ?s ?t ?ln c1"
  have D1: "cache_wf c1" "?s < n_sets c1" "v < n_ways c1" "tag_ok c1 ?t" "\<forall>w < n_ways c1. \<not> match_way c1 ?s ?t w"
    using wf v(1) tag_of_ok wfD(2) [OF wf] miss by (simp_all add: e1 g1)
  have refill: "miss_refill ops v ?s ?t (c1, m1) = Inr (?c2, m1)"
    by (rule miss_refill_ok [OF wfD(1) [OF D1(1)] D1(2,3) wb(3) rm1])
  note g2 = same_geometry_eqs [OF replaced_same, of v ?s ?t ?ln c1]
  have wf2: "cache_wf ?c2" by (rule replaced_wf [OF D1(1-3) line_of_nth(2) D1(4,5)])
  have m2: "match_way ?c2 ?s ?t v" using replaced_match [OF wfD(1) [OF D1(1)] D1(2,3) line_of_nth(2)] by simp
  have v': "v < n_ways ?c2" "?s < n_sets ?c2" using v(1) by (simp_all add: g2 g1)
  have "access ops pa st (c, m) = Inr ((v, ?s), touched ?s st v ?c2, m1)"
    using access_tail [OF wf2 v'(2,1) m2, of st m1] by (simp add: access_def Let_def v(2) wb(1) refill g2 g1)
  then show thesis using that v(1,3) wb(2-6) by blast
qed

text \<open>In a coherent cache a miss leaves the view as it is.\<close>

lemma access_miss:
  assumes wf: "cache_wf c" and en: "cache_enabled c" and m: "ok m" "coherent c (byte m) (ram m)"
    and rm: "line_in_ram c (ram m) pa" and miss: "\<forall>w < n_ways c. \<not> match_way c (entry_of c pa) (tag_of c pa) w"
  obtains v c2 m1 where "access ops pa st (c, m) = Inr ((v, entry_of c pa), touched (entry_of c pa) st v c2, m1)"
    and "v < n_ways c" and "clru c v (entry_of c pa) = 0" and "ok m1" and "ram m1 = ram m" and "rest m1 = rest m"
    and "cache_wf c2" and "same_geometry c2 c" and "match_way c2 (entry_of c pa) (tag_of c pa) v"
    and "coherent c2 (byte m1) (ram m)" and "view c2 (byte m1) = view c (byte m)" and "cache_lru c2 = cache_lru c"
proof -
  let ?s = "entry_of c pa" and ?t = "tag_of c pa"
  have s: "?s < n_sets c" by simp
  have f: "\<forall>v < n_ways c. slot_flushable c m v ?s" using coherent_flushable [OF wf s _ m(2)] by blast
  obtain v c1 m1 where a: "access ops pa st (c, m) = Inr ((v, ?s), touched ?s st v (replaced v ?s ?t (line_of c1 (byte m1) ?t ?s) c1), m1)"
      and v: "v < n_ways c" "clru c v ?s = 0" and wb: "same_core c1 c" "ok m1" "ram m1 = ram m" "rest m1 = rest m"
      "byte m1 = written_back c v ?s (byte m)"
    by (rule access_evict [OF wf m(1) f rm miss, of st])
  note g1 = same_geometry_eqs [OF same_coreD [OF wb(1)]] and e1 = same_core_eqs [OF wb(1)]
  have rm1: "\<forall>off < line_size c1. ram m1 (line_paddr c1 ?t ?s + of_nat off)"
    using rm wb(3) by (simp add: line_in_ram_def g1)
  let ?c2 = "replaced v ?s ?t (line_of c1 (byte m1) ?t ?s) c1"
  have D1: "cache_wf c1" "cache_enabled c1" "?s < n_sets c1" "v < n_ways c1" "tag_ok c1 ?t"
      "\<forall>w < n_ways c1. \<not> match_way c1 ?s ?t w" "coherent c1 (byte m) (ram m)"
    using wf en v(1) tag_of_ok wfD(2) [OF wf] miss m(2) by (simp_all add: e1 g1)
  have b1: "byte m1 = written_back c1 v ?s (byte m)"
    using wb(1) g1 by (simp add: wb(5) written_back_def fun_eq_iff same_core_def)
  have "cache_wf ?c2" by (rule replaced_wf [OF D1(1,3,4) line_of_nth(2) D1(5,6)])
  moreover have "match_way ?c2 ?s ?t v" using replaced_match [OF wfD(1) [OF D1(1)] D1(3,4) line_of_nth(2)] by simp
  moreover have "same_geometry ?c2 c" using same_coreD [OF wb(1)] by (simp add: same_geometry_def replaced_def)
  moreover have "coherent ?c2 (byte m1) (ram m)" using replaced_coherent [OF D1(1,7,3-5)] rm1 by (simp add: b1 wb(3))
  moreover have "view ?c2 (byte m1) = view c (byte m)" using replaced_view [OF D1(1,2,7,3-6)] by (simp add: b1 e1)
  moreover have "cache_lru ?c2 = cache_lru c" using wb(1) by (simp add: replaced_def same_core_def)
  ultimately show thesis using that a v wb(2-4) by blast
qed

lemma access_ok:
  assumes wf: "cache_wf c" and en: "cache_enabled c" and m: "ok m" "coherent c (byte m) (ram m)"
    and rm: "line_in_ram c (ram m) pa"
  shows "\<exists>w c' m'. access ops pa st (c, m) = Inr ((w, entry_of c pa), c', m') \<and> w < n_ways c \<and>
    same_geometry c' c \<and> cache_wf c' \<and> match_way c' (entry_of c pa) (tag_of c pa) w \<and>
    ok m' \<and> ram m' = ram m \<and> rest m' = rest m \<and> coherent c' (byte m') (ram m) \<and>
    view c' (byte m') = view c (byte m) \<and> (\<not> st \<or> cdirty c' (entry_of c pa) w) \<and>
    lru_touched c (entry_of c pa) w c' \<and>
    (match_way c (entry_of c pa) (tag_of c pa) w \<or>
     clru c w (entry_of c pa) = 0 \<and> (\<forall>u < n_ways c. \<not> match_way c (entry_of c pa) (tag_of c pa) u))"
proof -
  let ?s = "entry_of c pa" and ?t = "tag_of c pa"
  note touch = touched_access [where pa = pa and st = st and c = c and vw = "view c (byte m)" and rm = "ram m"]
  show ?thesis
  proof (cases "\<exists>h < n_ways c. match_way c ?s ?t h")
    case True
    then obtain h where h: "h < n_ways c" "match_way c ?s ?t h" by blast
    let ?c = "c\<lparr>freq_hit := freq_hit c + 1\<rparr>"
    have sc: "same_core ?c c" by simp
    have c: "cache_wf ?c" "match_way ?c ?s ?t h" "coherent ?c (byte m) (ram m)" "view ?c (byte m) = view c (byte m)"
        "cache_lru ?c = cache_lru c"
      using wf h m by (simp_all add: same_core_eqs [OF sc])
    show ?thesis
      by (rule exI [of _ h], rule exI [of _ "touched ?s st h ?c"], rule exI [of _ m])
        (simp only: access_hit [OF wf h] h(1) m(1) touch [OF c(1) same_coreD [OF sc] h(1) c(2-5)] h(2) simp_thms)
  next
    case False
    then have miss: "\<forall>w < n_ways c. \<not> match_way c ?s ?t w" by blast
    obtain v c2 m1 where v: "access ops pa st (c, m) = Inr ((v, ?s), touched ?s st v c2, m1)" "v < n_ways c" "clru c v ?s = 0"
      "ok m1" "ram m1 = ram m" "rest m1 = rest m" and c2: "cache_wf c2" "same_geometry c2 c" "match_way c2 ?s ?t v"
      "coherent c2 (byte m1) (ram m)" "view c2 (byte m1) = view c (byte m)" "cache_lru c2 = cache_lru c"
      by (rule access_miss [OF assms miss, of st]) blast
    show ?thesis
      by (rule exI [of _ v], rule exI [of _ "touched ?s st v c2"], rule exI [of _ m1])
        (simp only: v touch [OF c2(1,2) v(2) c2(3-6)] eqTrueI [OF miss] simp_thms)
  qed
qed

end

text \<open>A line prepared for a store: present in way \<open>w\<close>, dirty, coherent, with the view \<open>f\<close>.\<close>

definition store_ready ::
  "Cache \<Rightarrow> nat \<Rightarrow> phy_addr_t \<Rightarrow> (phy_addr_t \<Rightarrow> u8) \<Rightarrow> (phy_addr_t \<Rightarrow> bool) \<Rightarrow> (phy_addr_t \<Rightarrow> u8) \<Rightarrow> Cache \<Rightarrow> bool" where
  "store_ready c0 w pa mb rm f c \<longleftrightarrow> cache_wf c \<and> same_geometry c c0 \<and> cache_enabled c0 \<and> w < n_ways c0 \<and>
     match_way c (entry_of c0 pa) (tag_of c0 pa) w \<and> cdirty c (entry_of c0 pa) w \<and>
     coherent c mb rm \<and> view c mb = f"

lemma store_byte:
  assumes "store_ready c0 w pa mb rm f c" "entry_of c0 a = entry_of c0 pa" "tag_of c0 a = tag_of c0 pa"
  shows "set_line_byte w (entry_of c0 pa) a b c = Inr (put_byte w a b c)"
    "store_ready c0 w pa mb rm (f(a := b)) (put_byte w a b c)"
proof -
  have g: "same_geometry c c0" using assms(1) by (simp add: store_ready_def)
  note e = same_geometry_eqs [OF g]
  have c: "cache_wf c" "w < n_ways c" "cache_enabled c" "match_way c (entry_of c a) (tag_of c a) w"
    "cdirty c (entry_of c a) w" "coherent c mb rm" "view c mb = f" "w < n_ways c0" "cache_enabled c0"
    using assms by (simp_all add: store_ready_def e)
  show "set_line_byte w (entry_of c0 pa) a b c = Inr (put_byte w a b c)"
    by (rule set_line_byte_eq [OF wfD(1) [OF c(1)] c(2)]) (simp add: e assms)
  have "same_geometry (put_byte w a b c) c0" using g by (simp add: same_geometry_def put_byte_def)
  then show "store_ready c0 w pa mb rm (f(a := b)) (put_byte w a b c)"
    unfolding store_ready_def
    using c assms(2,3) put_byte_wf [OF c(1,2), of a b] put_byte_view [OF c(1,2,3,4), of b mb]
      put_byte_coherent [OF c(1,2,6,5), of b] put_byte_props(2,3) [OF wfD(1) [OF c(1)] c(2), of a b]
    by (simp add: e)
qed

lemma line_byte_view:
  assumes "cache_wf c" "cache_enabled c" "w < n_ways c" "match_way c s t w" "entry_of c a = s" "tag_of c a = t"
  shows "line_byte c w s a = Inr (view c mb a)"
proof -
  have "s < n_sets c" using entry_of_less [of c a] assms(5) by simp
  then show ?thesis
    using assms view_hit [OF assms(1,2,3), of a mb] dimsD(7) [OF wfD(1) [OF assms(1)] assms(3)]
    by (auto simp: line_byte_def nth2_rect [OF dimsD(6) [OF wfD(1) [OF assms(1)]]])
qed

context cached_port
begin

text \<open>A cache in front of the port, with everything the operations rely on.\<close>

definition cinv :: "Cache \<times> 'm \<Rightarrow> bool" where
  "cinv = (\<lambda>(c, m). cache_wf c \<and> ok m \<and> (cache_enabled c \<longrightarrow> coherent c (byte m) (ram m)))"

definition cview :: "Cache \<times> 'm \<Rightarrow> phy_addr_t \<Rightarrow> u8" where
  "cview = (\<lambda>(c, m). view c (byte m))"

text \<open>What an operation leaves alone: geometry, RAM, and the rest of the state behind the cache.\<close>

definition cframe :: "Cache \<times> 'm \<Rightarrow> Cache \<times> 'm \<Rightarrow> bool" where
  "cframe = (\<lambda>(c', m') (c, m). same_geometry c' c \<and> ram m' = ram m \<and> rest m' = rest m)"

lemma line_in_ram_at: "geometry c \<Longrightarrow> line_in_ram c (ram m) pa \<Longrightarrow> ram m pa"
  unfolding line_in_ram_def using addr_decompose [of c pa] block_offset_less [of c pa] by metis

lemma line_in_ram_range:
  assumes "geometry c" "line_in_ram c (ram m) pa" "unat pa mod n = 0" "n dvd line_size c" "n dvd 2 ^ 32"
  shows "ram_range (ram m) pa n"
  unfolding ram_range_def
proof (intro allI impI)
  fix i assume "i < n"
  from aligned_same_line [OF assms(3) this assms(4,5)] have "line_in_ram c (ram m) (pa + of_nat i)"
    using assms(2) by (simp add: line_in_ram_def)
  then show "ram m (pa + of_nat i)" using line_in_ram_at assms(1) by blast
qed

lemma access_store:
  assumes "cinv (c, m)" "cache_enabled c" "line_in_ram c (ram m) pa"
  obtains w c' m' where "access ops pa True (c, m) = Inr ((w, entry_of c pa), c', m')"
    "store_ready c w pa (byte m') (ram m') (cview (c, m)) c'" "ok m'" "ram m' = ram m" "rest m' = rest m"
proof -
  have i: "cache_wf c" "ok m" "coherent c (byte m) (ram m)" using assms(1,2) by (simp_all add: cinv_def)
  from access_ok [OF i(1) assms(2) i(2,3) assms(3), of True] obtain w c' m' where
    a: "access ops pa True (c, m) = Inr ((w, entry_of c pa), c', m')" "w < n_ways c"
      "same_geometry c' c" "cache_wf c'" "match_way c' (entry_of c pa) (tag_of c pa) w"
      "ok m'" "ram m' = ram m" "rest m' = rest m" "coherent c' (byte m') (ram m)"
      "view c' (byte m') = view c (byte m)" "cdirty c' (entry_of c pa) w" by auto
  show thesis
    by (rule that [OF a(1) _ a(6-8)]) (simp add: store_ready_def cview_def assms(2) a)
qed

lemma store_done:
  assumes "store_ready c w pa (byte m') (ram m') f c'" "ok m'" "ram m' = ram m" "rest m' = rest m"
  shows "cinv (c', m') \<and> cview (c', m') = f \<and> cframe (c', m') (c, m)"
  using assms by (simp add: store_ready_def cinv_def cview_def cframe_def)

lemma disabled_store:
  assumes "cinv (c, m)" "\<not> cache_enabled c" "ok m'" "ram m' = ram m" "rest m' = rest m"
  shows "cinv (c, m') \<and> cframe (c, m') (c, m) \<and> cview (c, m') = byte m' \<and> cview (c, m) = byte m"
  using assms by (simp add: cinv_def cframe_def cview_def same_geometry_def view_def fun_eq_iff)

lemma cinvD: "cinv (c, m) \<Longrightarrow> cache_wf c" "cinv (c, m) \<Longrightarrow> ok m" "cinv (c, m) \<Longrightarrow> geometry c"
  by (simp_all add: cinv_def wfD)

lemma writem8_ok:
  assumes "cinv (c, m)" "line_in_ram c (ram m) pa"
  shows "\<exists>s'. cache_writem8 ops pa b (c, m) = Inr s' \<and> cinv s' \<and> cframe s' (c, m) \<and>
    cview s' = (cview (c, m))(pa := b)"
proof (cases "cache_enabled c")
  case True
  obtain w c' m' where a: "access ops pa True (c, m) = Inr ((w, entry_of c pa), c', m')"
    and r: "store_ready c w pa (byte m') (ram m') (cview (c, m)) c'" "ok m'" "ram m' = ram m" "rest m' = rest m"
    using access_store [OF assms(1) True assms(2)] .
  note s = store_byte [OF r(1) refl refl, of b]
  from store_done [OF s(2) r(2-4)] show ?thesis using True by (simp add: cache_writem8_def a s(1))
next
  case False
  obtain m' where "wr8 pa b m = Inr m'" "ok m'" "ram m' = ram m" "rest m' = rest m" "byte m' = (byte m)(pa := b)"
    using wr8_ram [OF cinvD(2) [OF assms(1)] line_in_ram_at [OF cinvD(3) [OF assms(1)] assms(2)]] by blast
  then show ?thesis
    using False disabled_store [OF assms(1) False, of m'] by (simp add: cache_writem8_def ops_wr)
qed

lemma writem16_ok:
  assumes "cinv (c, m)" "line_in_ram c (ram m) pa" "pa AND 0x1 = 0" "2 dvd line_size c"
  shows "\<exists>s'. cache_writem16 ops pa v (c, m) = Inr s' \<and> cinv s' \<and> cframe s' (c, m) \<and>
    cview s' = upd16 pa v (cview (c, m))"
proof (cases "cache_enabled c")
  case True
  obtain w c' m' where a: "access ops pa True (c, m) = Inr ((w, entry_of c pa), c', m')"
    and r: "store_ready c w pa (byte m') (ram m') (cview (c, m)) c'" "ok m'" "ram m' = ram m" "rest m' = rest m"
    using access_store [OF assms(1) True assms(2)] .
  have al: "entry_of c (pa + 1) = entry_of c pa" "tag_of c (pa + 1) = tag_of c pa"
    using aligned_same_line [of pa 2 1 c] assms(3,4) by (simp_all add: and1_mod)
  note s0 = store_byte [OF r(1) refl refl, of "byte_of 0 v"]
  note s1 = store_byte [OF s0(2) al, of "byte_of 1 v"]
  have b: "(ucast v :: u8) = byte_of 0 v" by (simp add: byte_of_def)
  from store_done [OF s1(2) r(2-4)] show ?thesis
    using True by (simp add: cache_writem16_def assms(3) a s0(1) s1(1) b byte_of_unfold upd16_def del: One_nat_def)
next
  case False
  have rr: "ram_range (ram m) pa 2"
    by (rule line_in_ram_range [OF cinvD(3) [OF assms(1)] assms(2) _ assms(4)]) (use assms(3) and1_mod in auto)
  obtain m' where "op_writem16 ops pa v m = Inr m'" "ok m'" "ram m' = ram m" "rest m' = rest m"
      "byte m' = upd16 pa v (byte m)"
    using wr16_ram [OF cinvD(2) [OF assms(1)] rr] by blast
  then show ?thesis
    using False disabled_store [OF assms(1) False, of m'] by (simp add: cache_writem16_def)
qed

lemma writem32_ok:
  assumes "cinv (c, m)" "line_in_ram c (ram m) pa" "pa AND 0x3 = 0" "4 dvd line_size c"
  shows "\<exists>s'. cache_writem32 ops pa v (c, m) = Inr s' \<and> cinv s' \<and> cframe s' (c, m) \<and>
    cview s' = upd32 pa v (cview (c, m))"
proof (cases "cache_enabled c")
  case True
  obtain w c' m' where a: "access ops pa True (c, m) = Inr ((w, entry_of c pa), c', m')"
    and r: "store_ready c w pa (byte m') (ram m') (cview (c, m)) c'" "ok m'" "ram m' = ram m" "rest m' = rest m"
    using access_store [OF assms(1) True assms(2)] .
  have al: "entry_of c (pa + 1) = entry_of c pa" "tag_of c (pa + 1) = tag_of c pa"
    "entry_of c (pa + 2) = entry_of c pa" "tag_of c (pa + 2) = tag_of c pa"
    "entry_of c (pa + 3) = entry_of c pa" "tag_of c (pa + 3) = tag_of c pa"
    using aligned_same_line [of pa 4 1 c] aligned_same_line [of pa 4 2 c] aligned_same_line [of pa 4 3 c] assms(3,4)
    by (simp_all add: and3_mod)
  note s0 = store_byte [OF r(1) refl refl, of "byte_of 0 v"]
  note s1 = store_byte [OF s0(2) al(1,2), of "byte_of 1 v"]
  note s2 = store_byte [OF s1(2) al(3,4), of "byte_of 2 v"]
  note s3 = store_byte [OF s2(2) al(5,6), of "byte_of 3 v"]
  have b: "(ucast v :: u8) = byte_of 0 v" by (simp add: byte_of_def)
  from store_done [OF s3(2) r(2-4)] show ?thesis
    using True
    by (simp add: cache_writem32_def assms(3) a s0(1) s1(1) s2(1) s3(1) b byte_of_unfold upd32_def del: One_nat_def)
next
  case False
  have rr: "ram_range (ram m) pa 4"
    by (rule line_in_ram_range [OF cinvD(3) [OF assms(1)] assms(2) _ assms(4)]) (use assms(3) and3_mod in auto)
  obtain m' where "op_writem32 ops pa v m = Inr m'" "ok m'" "ram m' = ram m" "rest m' = rest m"
      "byte m' = upd32 pa v (byte m)"
    using wr32_ram [OF cinvD(2) [OF assms(1)] rr] by blast
  then show ?thesis
    using False disabled_store [OF assms(1) False, of m'] by (simp add: cache_writem32_def)
qed

lemma access_load:
  assumes "cinv (c, m)" "cache_enabled c" "line_in_ram c (ram m) pa"
  obtains w c' m' where "access ops pa False (c, m) = Inr ((w, entry_of c pa), c', m')"
    "\<And>a. entry_of c a = entry_of c pa \<Longrightarrow> tag_of c a = tag_of c pa \<Longrightarrow>
       line_byte c' w (entry_of c pa) a = Inr (cview (c, m) a)"
    "cinv (c', m')" "cframe (c', m') (c, m)" "cview (c', m') = cview (c, m)"
proof -
  have i: "cache_wf c" "ok m" "coherent c (byte m) (ram m)" using assms(1,2) by (simp_all add: cinv_def)
  from access_ok [OF i(1) assms(2) i(2,3) assms(3), of False] obtain w c' m' where
    a: "access ops pa False (c, m) = Inr ((w, entry_of c pa), c', m')" "w < n_ways c"
      "same_geometry c' c" "cache_wf c'" "match_way c' (entry_of c pa) (tag_of c pa) w"
      "ok m'" "ram m' = ram m" "rest m' = rest m" "coherent c' (byte m') (ram m)"
      "view c' (byte m') = view c (byte m)" by auto
  note e = same_geometry_eqs [OF a(3)]
  show thesis
  proof (rule that [OF a(1)])
    show "cinv (c', m')" "cframe (c', m') (c, m)" "cview (c', m') = cview (c, m)"
      using a by (simp_all add: cinv_def cframe_def cview_def)
    show "line_byte c' w (entry_of c pa) x = Inr (cview (c, m) x)"
      if "entry_of c x = entry_of c pa" "tag_of c x = tag_of c pa" for x
      using line_byte_view [OF a(4) _ _ a(5), of x "byte m'"] that a(2,10) assms(2) by (simp add: e cview_def)
  qed
qed

lemma readm8_ok:
  assumes "cinv (c, m)" "line_in_ram c (ram m) pa"
  shows "\<exists>s'. cache_readm8 ops pa (c, m) = Inr (cview (c, m) pa, s') \<and> cinv s' \<and> cframe s' (c, m) \<and>
    cview s' = cview (c, m)"
proof (cases "cache_enabled c")
  case True
  show ?thesis
    by (rule access_load [OF assms(1) True assms(2)]) (simp add: cache_readm8_def True)
next
  case False
  have "rd8 pa m = Inr (byte m pa, m)"
    by (rule rd8_ram [OF cinvD(2) [OF assms(1)] line_in_ram_at [OF cinvD(3) [OF assms(1)] assms(2)]])
  then show ?thesis
    using False disabled_store [OF assms(1) False cinvD(2) [OF assms(1)] refl refl]
    by (simp add: cache_readm8_def ops_rd)
qed

lemma readm16_ok:
  assumes "cinv (c, m)" "line_in_ram c (ram m) pa" "pa AND 0x1 = 0" "2 dvd line_size c"
  shows "\<exists>s'. cache_readm16 ops pa (c, m) = Inr (le16 (cview (c, m)) pa, s') \<and> cinv s' \<and> cframe s' (c, m) \<and>
    cview s' = cview (c, m)"
proof (cases "cache_enabled c")
  case True
  have al: "entry_of c (pa + 1) = entry_of c pa" "tag_of c (pa + 1) = tag_of c pa"
    using aligned_same_line [of pa 2 1 c] assms(3,4) by (simp_all add: and1_mod)
  show ?thesis
    by (rule access_load [OF assms(1) True assms(2)])
      (simp add: cache_readm16_def True assms(3) al le16_def or.commute)
next
  case False
  have rr: "ram_range (ram m) pa 2"
    by (rule line_in_ram_range [OF cinvD(3) [OF assms(1)] assms(2) _ assms(4)]) (use assms(3) and1_mod in auto)
  then show ?thesis
    using False disabled_store [OF assms(1) False cinvD(2) [OF assms(1)] refl refl] rd16_ram [OF cinvD(2) [OF assms(1)] rr]
    by (simp add: cache_readm16_def)
qed

lemma readm32_ok:
  assumes "cinv (c, m)" "line_in_ram c (ram m) pa" "pa AND 0x3 = 0" "4 dvd line_size c"
  shows "\<exists>s'. cache_readm32 ops pa (c, m) = Inr (le32 (cview (c, m)) pa, s') \<and> cinv s' \<and> cframe s' (c, m) \<and>
    cview s' = cview (c, m)"
proof (cases "cache_enabled c")
  case True
  have al: "entry_of c (pa + 1) = entry_of c pa" "tag_of c (pa + 1) = tag_of c pa"
    "entry_of c (pa + 2) = entry_of c pa" "tag_of c (pa + 2) = tag_of c pa"
    "entry_of c (pa + 3) = entry_of c pa" "tag_of c (pa + 3) = tag_of c pa"
    using aligned_same_line [of pa 4 1 c] aligned_same_line [of pa 4 2 c] aligned_same_line [of pa 4 3 c] assms(3,4)
    by (simp_all add: and3_mod)
  show ?thesis
    by (rule access_load [OF assms(1) True assms(2)])
      (simp add: cache_readm32_def True assms(3) al le32_def or.commute or.left_commute)
next
  case False
  have rr: "ram_range (ram m) pa 4"
    by (rule line_in_ram_range [OF cinvD(3) [OF assms(1)] assms(2) _ assms(4)]) (use assms(3) and3_mod in auto)
  then show ?thesis
    using False disabled_store [OF assms(1) False cinvD(2) [OF assms(1)] refl refl] rd32_ram [OF cinvD(2) [OF assms(1)] rr]
    by (simp add: cache_readm32_def)
qed

end

section \<open>Flush\<close>

definition cleaned :: "nat \<Rightarrow> nat \<Rightarrow> Cache \<Rightarrow> Cache" where
  "cleaned s w c = c\<lparr>cache_dirty := (cache_dirty c)[s := (cache_dirty c ! s)[w := False]]\<rparr>"

lemma cleaned_same: "same_geometry (cleaned s w c) c"
  by (simp add: cleaned_def same_geometry_def)

lemma cleaned_props:
  assumes "cache_dims c" "s < n_sets c" "w < n_ways c"
  shows "cdirty (cleaned s w c) s' w' \<longleftrightarrow> cdirty c s' w' \<and> \<not> (s' = s \<and> w' = w)"
    "match_way (cleaned s w c) = match_way c" "cache_v (cleaned s w c) = cache_v c"
    "cache_addr (cleaned s w c) = cache_addr c" "cache_lines (cleaned s w c) = cache_lines c"
    "cache_lru (cleaned s w c) = cache_lru c" "cache_dims (cleaned s w c)" "view (cleaned s w c) = view c"
proof -
  show "cdirty (cleaned s w c) s' w' \<longleftrightarrow> cdirty c s' w' \<and> \<not> (s' = s \<and> w' = w)"
    using assms by (auto simp: cleaned_def nth_upd2 [OF dimsD(3)])
  show m: "match_way (cleaned s w c) = match_way c" and "cache_v (cleaned s w c) = cache_v c"
    "cache_addr (cleaned s w c) = cache_addr c" and l: "cache_lines (cleaned s w c) = cache_lines c"
    and "cache_lru (cleaned s w c) = cache_lru c"
    by (simp_all add: cleaned_def match_way_def fun_eq_iff)
  have "rect (cache_dirty (cleaned s w c)) (n_sets c) (n_ways c)"
    using dimsD(3) [OF assms(1)] by (simp add: cleaned_def rect_upd)
  then show "cache_dims (cleaned s w c)"
    unfolding cache_dims_def same_geometry_eqs [OF cleaned_same] using dimsD [OF assms(1)] by (simp add: cleaned_def)
  show "view (cleaned s w c) = view c"
    by (intro ext) (simp only: view_def same_geometry_eqs [OF cleaned_same] m l)
qed

lemma cleaned_wf:
  assumes "cache_wf c" "s < n_sets c" "w < n_ways c"
  shows "cache_wf (cleaned s w c)"
proof -
  note P = cleaned_props [OF wfD(1) [OF assms(1)] assms(2,3)]
  note e = same_geometry_eqs [OF cleaned_same, of s w c]
  have "lru_ranks (cleaned s w c) = lru_ranks c" "tags_distinct (cleaned s w c) = tags_distinct c"
    by (simp_all add: fun_eq_iff lru_ranks_def tags_distinct_def P(2-6) e)
  then show ?thesis using assms(1) by (simp add: cache_wf_def P(3,4,7) e)
qed

text \<open>Cleaning a line that has just been written back.\<close>

lemma cleaned_coherent:
  assumes wf: "cache_wf c" and co: "coherent c mb rm" and s: "s < n_sets c" "v < n_ways c" "cdirty c s v"
  shows "coherent (cleaned s v c) (written_back c v s mb) rm"
  unfolding coherent_def same_geometry_eqs [OF cleaned_same]
proof (intro allI impI)
  fix w s' assume w: "w < n_ways c" "s' < n_sets c"
  note P = cleaned_props [OF wfD(1) [OF wf] s(1,2)] and G = wfD(2) [OF wf]
  have v: "cvalid c v s" by (rule coherent_slot(1) [OF co s(2,1,3)])
  have eq: "written_back c v s mb (line_paddr c (ctag c w s') s' + of_nat off) = cline c w s' ! off"
    if "cvalid c w s'" "off < line_size c" "\<not> cdirty c s' w \<or> (w = v \<and> s' = s)" for off
  proof -
    note A = addr_compose [OF G wfD(5) [OF wf w(2,1) that(1)] w(2) that(2)]
    have "s' = s \<Longrightarrow> ctag c w s' = ctag c v s \<Longrightarrow> w = v"
      using wfD(4) [OF wf s(1)] v that(1) w s(2) by (auto simp: tags_distinct_def match_way_def)
    then show ?thesis
      using that(3) s(3) coherent_slot(3) [OF co w that(1,2)] A(2-4) by (auto simp: written_back_def)
  qed
  show "slot_coherent (cleaned s v c) (written_back c v s mb) rm w s'"
    unfolding slot_coherent_def same_geometry_eqs [OF cleaned_same] P(1,3,4,5)
    using coherent_slot [OF co w] eq by auto
qed

lemma written_back_view:
  assumes wf: "cache_wf c" and en: "cache_enabled c" and co: "coherent c mb rm"
    and s: "s < n_sets c" "v < n_ways c"
  shows "view c (written_back c v s mb) = view c mb"
proof
  fix a
  show "view c (written_back c v s mb) a = view c mb a"
  proof (cases "\<exists>w < n_ways c. match_way c (entry_of c a) (tag_of c a) w")
    case True
    then show ?thesis using view_hit [OF wf en] by metis
  next
    case False
    then have "\<not> (cdirty c s v \<and> entry_of c a = s \<and> tag_of c a = ctag c v s)"
      using coherent_slot(1) [OF co s(2,1)] s(2) by (auto simp: match_way_def)
    then show ?thesis using False by (auto simp: view_miss written_back_def)
  qed
qed

lemma flush_ways_append:
  "flush_ways ops s t (xs @ ys) cm = bnd (flush_ways ops s t xs cm) (flush_ways ops s t ys)"
proof (induction xs arbitrary: cm)
  case Nil
  then show ?case by simp
next
  case (Cons i xs)
  obtain c m where cm: "cm = (c, m)" by fastforce
  show ?case unfolding cm append_Cons flush_ways.simps
    by (simp add: bnd_assoc Cons.IH cong: bnd_cong if_cong)
       (auto intro!: bnd_cong simp: bnd_assoc Cons.IH)
qed

lemma flush_ways_skip:
  assumes "cache_dims c" "s < n_sets c"
  shows "set ws \<subseteq> {..<n_ways c} \<Longrightarrow> \<forall>w \<in> set ws. \<not> (match_way c s t w \<and> cdirty c s w) \<Longrightarrow>
    flush_ways ops s t ws (c, m) = Inr (c, m)"
  using dimsD [OF assms(1)] assms(2)
  by (induction ws) (auto simp: nth2_rect match_way_def)

context cached_port
begin

lemma flush_hit:
  assumes wf: "cache_wf c" and en: "cache_enabled c" and m: "ok m" "coherent c (byte m) (ram m)"
    and h: "h < n_ways c" "match_way c (entry_of c pa) (tag_of c pa) h" "cdirty c (entry_of c pa) h"
  obtains m' where "flush ops pa (c, m) = Inr (cleaned (entry_of c pa) h c, m')"
    "ok m'" "ram m' = ram m" "rest m' = rest m" "byte m' = written_back c h (entry_of c pa) (byte m)"
proof -
  let ?s = "entry_of c pa" and ?t = "tag_of c pa"
  note D = wfD(1) [OF wf]
  have s: "?s < n_sets c" by simp
  obtain m' where m': "write_line ops (line_paddr c (ctag c h ?s) ?s) [0..<line_size c] (cline c h ?s) m = Inr m'"
    "ok m'" "ram m' = ram m" "rest m' = rest m" "byte m' = written_back c h ?s (byte m)"
    using writeback_line [OF wf s h(1) m(1) coherent_flushable [OF wf s h(1) m(2)] h(3)] .
  note P = cleaned_props [OF D s h(1)] and e = same_geometry_eqs [OF cleaned_same, of ?s h c]
  have other: "\<not> match_way c ?s ?t w" if "w < n_ways c" "w \<noteq> h" for w
    using match_unique [OF wfD(4) [OF wf s] h(2) _ h(1) that(1)] that(2) by blast
  have split: "[0..<n_ways c] = [0..<h] @ h # [Suc h..<n_ways c]"
    using h(1) by (metis le_add_same_cancel1 less_imp_le_nat upt_add_eq_append upt_conv_Cons le_add_diff_inverse zero_le)
  have pre: "flush_ways ops ?s ?t [0..<h] (c, m) = Inr (c, m)"
    by (rule flush_ways_skip [OF D s]) (use h(1) other in auto)
  have post: "flush_ways ops ?s ?t [Suc h..<n_ways c] (cleaned ?s h c, m') = Inr (cleaned ?s h c, m')"
    by (rule flush_ways_skip [OF P(7)]) (use other in \<open>auto simp: e P(2)\<close>)
  have mid: "flush_ways ops ?s ?t (h # [Suc h..<n_ways c]) (c, m) = Inr (cleaned ?s h c, m')"
    unfolding flush_ways.simps nth2_rect [OF dimsD(2) [OF D] h(1) s] nth2_rect [OF dimsD(5) [OF D] h(1) s]
      nth2_rect [OF dimsD(3) [OF D] s h(1)] bnd_simps
    using h(2,3) m'(1) h(1) s post
    by (simp add: match_way_def nth2_rect [OF dimsD(6) [OF D]] upd2_rect [OF dimsD(3) [OF D]] cleaned_def [symmetric])
  have "flush ops pa (c, m) = Inr (cleaned ?s h c, m')"
    using en by (simp only: flush_def prod.case split flush_ways_append pre bnd_simps mid simp_thms if_False)
  with m' that show thesis by blast
qed

lemma flush_ok:
  assumes "cinv (c, m)" "cache_enabled c"
  shows "\<exists>c' m'. flush ops pa (c, m) = Inr (c', m') \<and> cinv (c', m') \<and> cframe (c', m') (c, m) \<and>
    cview (c', m') = cview (c, m) \<and>
    (\<forall>a. entry_of c a = entry_of c pa \<longrightarrow> tag_of c a = tag_of c pa \<longrightarrow> byte m' a = cview (c, m) a)"
proof -
  let ?s = "entry_of c pa" and ?t = "tag_of c pa"
  have i: "cache_wf c" "ok m" "coherent c (byte m) (ram m)" using assms by (simp_all add: cinv_def)
  note D = wfD(1) [OF i(1)]
  have s: "?s < n_sets c" by simp
  show ?thesis
  proof (cases "\<exists>h < n_ways c. match_way c ?s ?t h \<and> cdirty c ?s h")
    case True
    then obtain h where h: "h < n_ways c" "match_way c ?s ?t h" "cdirty c ?s h" by blast
    obtain m' where m': "flush ops pa (c, m) = Inr (cleaned ?s h c, m')" "ok m'" "ram m' = ram m"
      "rest m' = rest m" "byte m' = written_back c h ?s (byte m)"
      using flush_hit [OF i(1) assms(2) i(2,3) h] .
    have "byte m' a = cview (c, m) a" if "entry_of c a = ?s" "tag_of c a = ?t" for a
      using view_hit [OF i(1) assms(2) h(1), of a "byte m"] that h by (simp add: m'(5) written_back_def cview_def match_way_def)
    then show ?thesis
      using m' cleaned_wf [OF i(1) s h(1)] cleaned_coherent [OF i(1,3) s h(1,3)] cleaned_same [of ?s h c]
        written_back_view [OF i(1) assms(2) i(3) s h(1)] cleaned_props(8) [OF D s h(1)]
      by (auto simp: cinv_def cframe_def cview_def)
  next
    case False
    then have skip: "flush_ways ops ?s ?t [0..<n_ways c] (c, m) = Inr (c, m)"
      by (intro flush_ways_skip [OF D s]) auto
    have "byte m a = cview (c, m) a" if a: "entry_of c a = ?s" "tag_of c a = ?t" for a
    proof (cases "\<exists>h < n_ways c. match_way c ?s ?t h")
      case True
      then obtain h where h: "h < n_ways c" "match_way c ?s ?t h" by blast
      have "cline c h ?s ! block_offset c a = byte m (line_paddr c (ctag c h ?s) ?s + of_nat (block_offset c a))"
        by (rule coherent_slot(3) [OF i(3) h(1) s]) (use h False in \<open>auto simp: match_way_def\<close>)
      then show ?thesis
        using view_hit [OF i(1) assms(2) h(1), of a "byte m"] h(2) addr_decompose [OF wfD(2) [OF i(1)], of a]
        by (simp add: cview_def a match_way_def)
    next
      case False
      then show ?thesis by (simp add: cview_def view_miss a)
    qed
    then show ?thesis
      using assms skip by (intro exI [of _ c] exI [of _ m]) (simp add: flush_def cframe_def same_geometry_def)
  qed
qed

end

section \<open>Sequences of loads and stores\<close>

text \<open>
  The abstract specification of a cache: a flat byte memory, on which loads return the stored bytes and
  a flush does nothing. A program is a list of operations; both executions list the values loaded.
\<close>

datatype mop = Ld8 phy_addr_t | Ld16 phy_addr_t | Ld32 phy_addr_t
  | St8 phy_addr_t u8 | St16 phy_addr_t u16 | St32 phy_addr_t u32 | Fl phy_addr_t

fun flat_step :: "mop \<Rightarrow> (phy_addr_t \<Rightarrow> u8) \<Rightarrow> u32 list \<times> (phy_addr_t \<Rightarrow> u8)" where
  "flat_step (Ld8 a) f = ([ucast (f a)], f)"
| "flat_step (Ld16 a) f = ([ucast (le16 f a)], f)"
| "flat_step (Ld32 a) f = ([le32 f a], f)"
| "flat_step (St8 a b) f = ([], f(a := b))"
| "flat_step (St16 a h) f = ([], upd16 a h f)"
| "flat_step (St32 a w) f = ([], upd32 a w f)"
| "flat_step (Fl a) f = ([], f)"

fun flat_run :: "mop list \<Rightarrow> (phy_addr_t \<Rightarrow> u8) \<Rightarrow> u32 list \<times> (phy_addr_t \<Rightarrow> u8)" where
  "flat_run [] f = ([], f)"
| "flat_run (x # xs) f = (case flat_step x f of (vs, f') \<Rightarrow> case flat_run xs f' of (vs', f'') \<Rightarrow> (vs @ vs', f''))"

fun cache_step :: "'m mem_ops \<Rightarrow> mop \<Rightarrow> Cache \<times> 'm \<Rightarrow> halt + u32 list \<times> Cache \<times> 'm" where
  "cache_step ops (Ld8 a) s = bnd (cache_readm8 ops a s) (\<lambda>(v, s'). Inr ([ucast v], s'))"
| "cache_step ops (Ld16 a) s = bnd (cache_readm16 ops a s) (\<lambda>(v, s'). Inr ([ucast v], s'))"
| "cache_step ops (Ld32 a) s = bnd (cache_readm32 ops a s) (\<lambda>(v, s'). Inr ([v], s'))"
| "cache_step ops (St8 a b) s = bnd (cache_writem8 ops a b s) (\<lambda>s'. Inr ([], s'))"
| "cache_step ops (St16 a h) s = bnd (cache_writem16 ops a h s) (\<lambda>s'. Inr ([], s'))"
| "cache_step ops (St32 a w) s = bnd (cache_writem32 ops a w s) (\<lambda>s'. Inr ([], s'))"
| "cache_step ops (Fl a) s = bnd (flush ops a s) (\<lambda>s'. Inr ([], s'))"

fun cache_run :: "'m mem_ops \<Rightarrow> mop list \<Rightarrow> Cache \<times> 'm \<Rightarrow> halt + u32 list \<times> Cache \<times> 'm" where
  "cache_run ops [] s = Inr ([], s)"
| "cache_run ops (x # xs) s = bnd (cache_step ops x s) (\<lambda>(vs, s').
     bnd (cache_run ops xs s') (\<lambda>(vs', s''). Inr (vs @ vs', s'')))"

text \<open>An operation the cache accepts: aligned, on a line that lies in RAM.\<close>

fun mop_ok :: "Cache \<Rightarrow> (phy_addr_t \<Rightarrow> bool) \<Rightarrow> mop \<Rightarrow> bool" where
  "mop_ok c rm (Ld8 a) = line_in_ram c rm a"
| "mop_ok c rm (Ld16 a) = (line_in_ram c rm a \<and> a AND 0x1 = 0)"
| "mop_ok c rm (Ld32 a) = (line_in_ram c rm a \<and> a AND 0x3 = 0)"
| "mop_ok c rm (St8 a b) = line_in_ram c rm a"
| "mop_ok c rm (St16 a h) = (line_in_ram c rm a \<and> a AND 0x1 = 0)"
| "mop_ok c rm (St32 a w) = (line_in_ram c rm a \<and> a AND 0x3 = 0)"
| "mop_ok c rm (Fl a) = True"

lemma mop_ok_same: "same_geometry c' c \<Longrightarrow> mop_ok c' rm x = mop_ok c rm x"
  by (cases x) (simp_all add: same_geometry_eqs)

context cached_port
begin

lemma step_refines:
  assumes "cinv (c, m)" "4 dvd line_size c" "mop_ok c (ram m) x"
  shows "\<exists>c' m'. cache_step ops x (c, m) = Inr (fst (flat_step x (cview (c, m))), c', m') \<and>
    cinv (c', m') \<and> cframe (c', m') (c, m) \<and> cview (c', m') = snd (flat_step x (cview (c, m)))"
proof -
  have d: "2 dvd line_size c" using assms(2) by (metis dvd_trans dvd_triv_left numeral_Bit0 mult_2)
  show ?thesis
  proof (cases x)
    case (Ld8 a) then show ?thesis using readm8_ok [OF assms(1), of a] assms(3) by auto
  next
    case (Ld16 a) then show ?thesis using readm16_ok [OF assms(1), of a] assms(3) d by auto
  next
    case (Ld32 a) then show ?thesis using readm32_ok [OF assms(1), of a] assms(2,3) by auto
  next
    case (St8 a b) then show ?thesis using writem8_ok [OF assms(1), of a b] assms(3) by auto
  next
    case (St16 a h) then show ?thesis using writem16_ok [OF assms(1), of a h] assms(3) d by auto
  next
    case (St32 a w) then show ?thesis using writem32_ok [OF assms(1), of a w] assms(2,3) by auto
  next
    case (Fl a)
    show ?thesis
    proof (cases "cache_enabled c")
      case True
      then show ?thesis using flush_ok [OF assms(1), of a] Fl by auto
    next
      case False
      then show ?thesis using assms(1) Fl by (simp add: flush_def cframe_def same_geometry_def)
    qed
  qed
qed

lemma run_refines:
  "cinv (c, m) \<Longrightarrow> 4 dvd line_size c \<Longrightarrow> \<forall>x \<in> set xs. mop_ok c (ram m) x \<Longrightarrow>
   \<exists>c' m'. cache_run ops xs (c, m) = Inr (fst (flat_run xs (cview (c, m))), c', m') \<and>
    cinv (c', m') \<and> cframe (c', m') (c, m) \<and> cview (c', m') = snd (flat_run xs (cview (c, m)))"
proof (induction xs arbitrary: c m)
  case Nil
  then show ?case by (simp add: cframe_def same_geometry_def)
next
  case (Cons x xs)
  obtain c1 m1 where 1: "cache_step ops x (c, m) = Inr (fst (flat_step x (cview (c, m))), c1, m1)"
    "cinv (c1, m1)" "cframe (c1, m1) (c, m)" "cview (c1, m1) = snd (flat_step x (cview (c, m)))"
    using step_refines [OF Cons.prems(1,2), of x] Cons.prems(3) by auto
  have g: "same_geometry c1 c" "ram m1 = ram m" "rest m1 = rest m" using 1(3) by (simp_all add: cframe_def)
  have "4 dvd line_size c1" "\<forall>x \<in> set xs. mop_ok c1 (ram m1) x"
    using Cons.prems(2,3) g by (simp_all add: same_geometry_eqs [OF g(1)] mop_ok_same [OF g(1)])
  from Cons.IH [OF 1(2) this] obtain c2 m2 where
    2: "cache_run ops xs (c1, m1) = Inr (fst (flat_run xs (cview (c1, m1))), c2, m2)"
      "cinv (c2, m2)" "cframe (c2, m2) (c1, m1)" "cview (c2, m2) = snd (flat_run xs (cview (c1, m1)))" by blast
  have "cframe (c2, m2) (c, m)" using 2(3) g by (simp add: cframe_def same_geometry_def)
  then show ?case using 1 2 by (simp add: case_prod_beta)
qed

end

section \<open>The caches of the emulator\<close>

lemma le_at: "half_at M a = le16 (cell M) a" "word_at M a = le32 (cell M) a"
  by (simp_all add: half_at_def word_at_def le16_def le32_def)

interpretation cached: cached_port "phy_readm8 vt" "phy_writem8 vt" "\<lambda>(M, d). cell M" "\<lambda>(M, d). mem_wf M"
  "\<lambda>(M, d). dram_at M" "\<lambda>(M, d). (M\<lparr>memory := []\<rparr>, d)" "phy_ops vt" for vt
proof unfold_locales
  show "op_readm8 (phy_ops vt) = phy_readm8 vt" "op_writem8 (phy_ops vt) = phy_writem8 vt"
    by (simp_all add: phy_ops_def)
  fix m :: "('a, 'b) bus" and a :: phy_addr_t and h :: u16 and w :: u32
  obtain M d where m: "m = (M, d)" by fastforce
  assume "case m of (M, d) \<Rightarrow> mem_wf M"
  then have wf: "mem_wf M" by (simp add: m)
  {
    assume "ram_range (case m of (M, d) \<Rightarrow> dram_at M) a 2"
    then have r: "dram_range M a 2" by (simp add: m ram_range_def dram_range_def)
    show "op_readm16 (phy_ops vt) a m = Inr (le16 (case m of (M, d) \<Rightarrow> cell M) a, m)"
      using phy_readm16_dram [OF wf r] by (simp add: m phy_ops_def le_at)
    show "\<exists>m'. op_writem16 (phy_ops vt) a h m = Inr m' \<and> (case m' of (M, d) \<Rightarrow> mem_wf M) \<and>
        (case m' of (M, d) \<Rightarrow> dram_at M) = (case m of (M, d) \<Rightarrow> dram_at M) \<and>
        (case m' of (M, d) \<Rightarrow> (M\<lparr>memory := []\<rparr>, d)) = (case m of (M, d) \<Rightarrow> (M\<lparr>memory := []\<rparr>, d)) \<and>
        (case m' of (M, d) \<Rightarrow> cell M) = upd16 a h (case m of (M, d) \<Rightarrow> cell M)"
      by (rule exI [of _ "(set_cells a [byte_of 0 h, byte_of 1 h] M, d)"])
        (use wf in \<open>simp add: m phy_ops_def fun_eq_iff upd16_def phy_writem16_dram [OF wf r]
           cell_set_cells_2 [OF wf r] set_cells_rest\<close>)
  }
  {
    assume "ram_range (case m of (M, d) \<Rightarrow> dram_at M) a 4"
    then have r: "dram_range M a 4" by (simp add: m ram_range_def dram_range_def)
    show "op_readm32 (phy_ops vt) a m = Inr (le32 (case m of (M, d) \<Rightarrow> cell M) a, m)"
      using phy_readm32_dram [OF wf r] by (simp add: m phy_ops_def le_at)
    show "\<exists>m'. op_writem32 (phy_ops vt) a w m = Inr m' \<and> (case m' of (M, d) \<Rightarrow> mem_wf M) \<and>
        (case m' of (M, d) \<Rightarrow> dram_at M) = (case m of (M, d) \<Rightarrow> dram_at M) \<and>
        (case m' of (M, d) \<Rightarrow> (M\<lparr>memory := []\<rparr>, d)) = (case m of (M, d) \<Rightarrow> (M\<lparr>memory := []\<rparr>, d)) \<and>
        (case m' of (M, d) \<Rightarrow> cell M) = upd32 a w (case m of (M, d) \<Rightarrow> cell M)"
      by (rule exI [of _ "(set_cells a [byte_of 0 w, byte_of 1 w, byte_of 2 w, byte_of 3 w] M, d)"])
        (use wf in \<open>simp add: m phy_ops_def fun_eq_iff upd32_def phy_writem32_dram [OF wf r]
           cell_set_cells_4 [OF wf r] set_cells_rest\<close>)
  }
qed

section \<open>Construction\<close>

lemma set_all_pairs: "set (all_pairs p n) = {..<p} \<times> {..<n}"
  by (auto simp: all_pairs_def)

lemma clear_pairs_ok:
  "rect d p n \<Longrightarrow> set ps \<subseteq> {..<p} \<times> {..<n} \<Longrightarrow>
   \<exists>d'. clear_pairs ps d = Inr d' \<and> rect d' p n \<and> (\<forall>k j. d' ! k ! j \<longleftrightarrow> d ! k ! j \<and> (k, j) \<notin> set ps)"
proof (induction ps arbitrary: d)
  case Nil
  then show ?case by simp
next
  case (Cons x ps)
  obtain k j where x: "x = (k, j)" by fastforce
  have kj: "k < p" "j < n" and ps: "set ps \<subseteq> {..<p} \<times> {..<n}" using Cons.prems(2) by (auto simp: x)
  from Cons.IH [OF rect_upd [OF Cons.prems(1)] ps, of k j False] show ?case
    by (auto simp: x upd2_rect [OF Cons.prems(1) kj] nth_upd2 [OF Cons.prems(1) kj])
qed

lemma clear_pairs_oob:
  "rect d p n \<Longrightarrow> \<not> set ps \<subseteq> {..<p} \<times> {..<n} \<Longrightarrow> clear_pairs ps d = Inl Undefined"
proof (induction ps arbitrary: d)
  case Nil
  then show ?case by simp
next
  case (Cons x ps)
  obtain k j where x: "x = (k, j)" by fastforce
  show ?case
  proof (cases "k < p \<and> j < n")
    case True
    then have "\<not> set ps \<subseteq> {..<p} \<times> {..<n}" using Cons.prems(2) by (auto simp: x)
    from Cons.IH [OF rect_upd [OF Cons.prems(1)] this, of k j False] True show ?thesis
      by (simp add: x upd2_rect [OF Cons.prems(1)])
  next
    case False
    then have "upd2 d k j False = Inl Undefined"
      using Cons.prems(1) by (auto simp: upd2_def rect_def nthE_def updE_def)
    then show ?thesis by (simp add: x)
  qed
qed

definition empty_cache :: "Cache \<Rightarrow> bool" where
  "empty_cache c \<longleftrightarrow> (\<forall>w < n_ways c. \<forall>s < n_sets c. \<not> cvalid c w s \<and> \<not> cdirty c s w)"

lemma empty_coherent: "empty_cache c \<Longrightarrow> coherent c mb rm"
  by (simp add: empty_cache_def coherent_def slot_coherent_def)

lemma empty_view: "empty_cache c \<Longrightarrow> view c mb = mb"
  by (rule ext) (simp add: empty_cache_def view_miss match_way_def)

lemma Cache_new_ok:
  assumes d: "rect raw_d (2 ^ p) (2 ^ p)" and l: "rect raw (2 ^ p) (2 ^ p)"
    and len: "\<forall>w < 2 ^ p. \<forall>s < 2 ^ p. length (raw ! w ! s) = 2 ^ q" and g: "q + p < 32"
  shows "\<exists>c. Cache_new raw_d raw en p p q = Inr c \<and> cache_wf c \<and> empty_cache c \<and> cache_enabled c = en \<and>
    m_P_WAYS c = p \<and> m_P_SETS c = p \<and> m_P_LINE c = q"
proof -
  obtain d' where d': "clear_pairs (all_pairs (2 ^ p) (2 ^ p)) raw_d = Inr d'" "rect d' (2 ^ p) (2 ^ p)"
    "\<forall>k j. d' ! k ! j \<longleftrightarrow> raw_d ! k ! j \<and> (k, j) \<notin> {..<2 ^ p} \<times> {..<2 ^ p}"
    using clear_pairs_ok [OF d, of "all_pairs (2 ^ p) (2 ^ p)"] by (auto simp: set_all_pairs)
  let ?c = "\<lparr>cache_enabled = en, m_P_WAYS = p, m_P_SETS = p, m_P_LINE = q,
          cache_v = replicate (2 ^ p) (replicate (2 ^ p) False), cache_dirty = d',
          cache_lru = map (\<lambda>k. replicate (2 ^ p) k) [0..<2 ^ p],
          cache_addr = replicate (2 ^ p) (replicate (2 ^ p) 0), cache_lines = raw,
          freq_hit = 0, freq_miss = 0, freq_miss_writeback = 0\<rparr>"
  have n: "n_ways ?c = 2 ^ p" "n_sets ?c = 2 ^ p" "line_size ?c = 2 ^ q" "geometry ?c"
    using g by (simp_all add: n_ways_def n_sets_def line_size_def geometry_def)
  have "rect (map (\<lambda>k. replicate (2 ^ p) k) [0..<2 ^ p]) (2 ^ p) (2 ^ p)" by (simp add: rect_def)
  then have "cache_dims ?c" using d'(2) l len n by (simp add: cache_dims_def rect_replicate)
  moreover have "lru_ranks ?c s" if "s < 2 ^ p" for s
    by (rule lru_ranksI) (use that n in simp_all)
  moreover have "tags_distinct ?c s" if "s < 2 ^ p" for s
    using that n by (simp add: tags_distinct_def match_way_def)
  ultimately have "cache_wf ?c" unfolding cache_wf_def n by simp
  moreover have "empty_cache ?c" using d'(3) by (simp add: empty_cache_def n)
  moreover have "Cache_new raw_d raw en p p q = Inr ?c" by (simp add: Cache_new_def d'(1))
  ultimately show ?thesis by (intro exI [of _ ?c]) simp
qed

text \<open>
  Claim C27: the constructor, which indexes the dirty bits \<open>[way][set]\<close> although it allocates them
  \<open>[set][way]\<close>, is free of out-of-bounds writes exactly when the numbers of ways and sets agree; then it yields a
  well-formed, empty cache through which the processor sees the memory unchanged. With any other
  geometry, enabled or not, it is undefined behaviour.
\<close>

theorem Cache_new_defined:
  assumes "rect raw_d (2 ^ p_sets) (2 ^ p_ways)" and "rect raw (2 ^ p_ways) (2 ^ p_sets)"
    and "\<forall>w < 2 ^ p_ways. \<forall>s < 2 ^ p_sets. length (raw ! w ! s) = 2 ^ p_line" and "p_line + p_sets < 32"
  shows "(if p_ways = p_sets
     then \<exists>c. Cache_new raw_d raw en p_ways p_sets p_line = Inr c \<and> cache_wf c \<and>
       (\<forall>mb rm. coherent c mb rm \<and> view c mb = mb)
     else Cache_new raw_d raw en p_ways p_sets p_line = Inl Undefined)"
proof (cases "p_ways = p_sets")
  case True
  from Cache_new_ok [of raw_d p_sets raw p_line en] show ?thesis
    using assms by (auto simp: True empty_coherent empty_view)
next
  case False
  have inj: "(2::nat) ^ p_ways \<noteq> 2 ^ p_sets" using False by simp
  have "\<not> {..<(2::nat) ^ p_ways} \<times> {..<(2::nat) ^ p_sets} \<subseteq> {..<2 ^ p_sets} \<times> {..<2 ^ p_ways}"
  proof
    assume s: "{..<(2::nat) ^ p_ways} \<times> {..<(2::nat) ^ p_sets} \<subseteq> {..<2 ^ p_sets} \<times> {..<2 ^ p_ways}"
    have "(2 ^ p_ways - 1, 2 ^ p_sets - 1) \<in> {..<(2::nat) ^ p_ways} \<times> {..<(2::nat) ^ p_sets}" by simp
    from subsetD [OF s this] have "(2::nat) ^ p_ways - 1 < 2 ^ p_sets" "(2::nat) ^ p_sets - 1 < 2 ^ p_ways"
      by (simp_all only: mem_Sigma_iff lessThan_iff)
    with inj show False by linarith
  qed
  then have "clear_pairs (all_pairs (2 ^ p_ways) (2 ^ p_sets)) raw_d = Inl Undefined"
    by (intro clear_pairs_oob [OF assms(1)]) (simp add: set_all_pairs)
  with False show ?thesis by (simp add: Cache_new_def)
qed

theorem Cache_new_defined_witness:
  "rect (replicate 16 [False, False]) 16 2 \<and> rect (replicate 2 (replicate 16 (replicate 32 (0::u8)))) 2 16 \<and>
   Cache_new (replicate 16 [False, False]) (replicate 2 (replicate 16 (replicate 32 0))) True 1 4 5 = Inl Undefined"
proof -
  have r: "rect (replicate 16 [False, False]) 16 2" "rect (replicate 2 (replicate 16 (replicate 32 (0::u8)))) 2 16"
    by (simp_all add: rect_def)
  have l: "\<forall>w < 2. \<forall>s < 16. length (replicate 2 (replicate 16 (replicate 32 (0::u8))) ! w ! s) = 32" by simp
  from Cache_new_defined [of "replicate 16 [False, False]" 4 1 "replicate 2 (replicate 16 (replicate 32 0))" 5 True] r l
  show ?thesis by simp
qed

section \<open>Invalidate\<close>

definition invalidated :: "nat \<Rightarrow> Cache \<Rightarrow> Cache" where
  "invalidated s c = c\<lparr>cache_v := map (\<lambda>row. row[s := False]) (cache_v c)\<rparr>"

lemma invalidate_ways_eq:
  assumes "s < n_sets c" "n = n_ways c"
  shows "rect vs n (n_sets c) \<Longrightarrow> k \<le> n \<Longrightarrow> invalidate_ways s [k..<n] (c\<lparr>cache_v := vs\<rparr>) =
    Inr (c\<lparr>cache_v := take k vs @ map (\<lambda>row. row[s := False]) (drop k vs)\<rparr>)"
proof (induction "n - k" arbitrary: k vs)
  case 0
  then show ?case by (simp add: rect_def)
next
  case (Suc j)
  then have k: "k < n" and j: "j = n - Suc k" "Suc k \<le> n" by simp_all
  have len: "length vs = n" using Suc.prems by (simp add: rect_def)
  have "take (Suc k) (vs[k := (vs ! k)[s := False]]) = take k vs @ [(vs ! k)[s := False]]"
    "drop (Suc k) (vs[k := (vs ! k)[s := False]]) = drop (Suc k) vs"
    "drop k vs = (vs ! k) # drop (Suc k) vs"
    using k len by (simp_all add: take_Suc_conv_app_nth Cons_nth_drop_Suc)
  with Suc.hyps(1) [OF j(1) rect_upd [OF Suc.prems(1), of k s False] j(2)] show ?case
    using k by (simp add: upt_conv_Cons upd2_rect [OF Suc.prems(1) k assms(1)])
qed

lemma invalidate_eq:
  assumes "cache_dims c" "cache_enabled c"
  shows "invalidate pa c = Inr (invalidated (entry_of c pa) c)"
  using invalidate_ways_eq [OF entry_of_less [of c pa] refl dimsD(2) [OF assms(1)], of 0] assms(2)
  by (simp add: invalidate_def invalidated_def)

lemma invalidated_props:
  assumes "cache_dims c" "s < n_sets c" "w < n_ways c"
  shows "cvalid (invalidated s c) w s' \<longleftrightarrow> cvalid c w s' \<and> s' \<noteq> s"
  using assms dimsD(2) [OF assms(1)] by (auto simp: invalidated_def rect_def nth_list_update)

lemma invalidated_same: "same_geometry (invalidated s c) c"
  by (simp add: invalidated_def same_geometry_def)

lemma invalidated_match:
  assumes "cache_dims c" "s < n_sets c" "w < n_ways c"
  shows "match_way (invalidated s c) s' t w \<longleftrightarrow> match_way c s' t w \<and> s' \<noteq> s"
  unfolding match_way_def invalidated_props [OF assms] by (auto simp: invalidated_def)

lemma invalidated_wf:
  assumes wf: "cache_wf c" and s: "s < n_sets c"
  shows "cache_wf (invalidated s c)"
proof -
  note D = wfD(1) [OF wf] and e = same_geometry_eqs [OF invalidated_same, of s c]
  have f: "cache_addr (invalidated s c) = cache_addr c" "cache_lru (invalidated s c) = cache_lru c"
    "cache_lines (invalidated s c) = cache_lines c" "cache_dirty (invalidated s c) = cache_dirty c"
    by (simp_all add: invalidated_def)
  have "rect (cache_v (invalidated s c)) (n_ways c) (n_sets c)"
    using dimsD(2) [OF D] by (auto simp: invalidated_def rect_def)
  then have "cache_dims (invalidated s c)" using dimsD [OF D] by (simp add: cache_dims_def e f)
  moreover have "lru_ranks (invalidated s c) = lru_ranks c" by (simp add: lru_ranks_def fun_eq_iff e f)
  moreover have "tags_distinct (invalidated s c) s'" if "s' < n_sets c" for s'
    using wfD(4) [OF wf that]
    by (auto simp: tags_distinct_def e f invalidated_props [OF D s] invalidated_match [OF D s])
  ultimately show ?thesis using wfD [OF wf] by (auto simp: cache_wf_def e f invalidated_props [OF D s])
qed

lemma invalidated_clean:
  assumes wf: "cache_wf c" and en: "cache_enabled c" and co: "coherent c mb rm" and s: "s < n_sets c"
    and clean: "\<forall>w < n_ways c. \<not> cdirty c s w"
  shows "coherent (invalidated s c) mb rm" "view (invalidated s c) mb = view c mb"
proof -
  note D = wfD(1) [OF wf] and e = same_geometry_eqs [OF invalidated_same, of s c]
  have f: "cache_addr (invalidated s c) = cache_addr c" "cache_lines (invalidated s c) = cache_lines c"
    "cache_dirty (invalidated s c) = cache_dirty c" by (simp_all add: invalidated_def)
  show "coherent (invalidated s c) mb rm"
    using co clean by (auto simp: coherent_def slot_coherent_def e f invalidated_props [OF D s])
  show "view (invalidated s c) mb = view c mb"
  proof
    fix a
    show "view (invalidated s c) mb a = view c mb a"
    proof (cases "\<exists>w < n_ways c. match_way c (entry_of c a) (tag_of c a) w")
      case False
      then show ?thesis by (auto simp: view_miss e invalidated_match [OF D s])
    next
      case True
      then obtain w where w: "w < n_ways c" "match_way c (entry_of c a) (tag_of c a) w" by blast
      note v = view_hit [OF wf en w, of mb]
      show ?thesis
      proof (cases "entry_of c a = s")
        case True
        then have "view (invalidated s c) mb a = mb a"
          by (simp add: view_miss e invalidated_match [OF D s])
        moreover have "cline c w s ! block_offset c a = mb a"
          using coherent_slot(3) [OF co w(1) s _ block_offset_less, of a] w True clean
            addr_decompose [OF wfD(2) [OF wf], of a] by (auto simp: match_way_def)
        ultimately show ?thesis using v True by simp
      next
        case False
        then show ?thesis
          using v w en view_hit [OF invalidated_wf [OF wf s], of w a mb] by (simp add: e f invalidated_match [OF D s])
      qed
    qed
  qed
qed

text \<open>The invariant of a cache in front of the physical memory.\<close>

definition cached_inv :: "Cache \<times> ('cb, 'd) bus \<Rightarrow> bool" where
  "cached_inv = (\<lambda>(c, (M, d)). cache_wf c \<and> mem_wf M \<and>
     (cache_enabled c \<longrightarrow> coherent c (cell M) (dram_at M)))"

lemma cached_cinv: "cached.cinv = cached_inv"
  by (simp add: cached.cinv_def cached_inv_def fun_eq_iff)

lemma cached_cview: "cached.cview (c, (M, d)) = view c (cell M)"
  by (simp add: cached.cview_def)

lemma cached_cframe: "cached.cframe (c', (M', d')) (c, (M, d)) \<longleftrightarrow>
    same_geometry c' c \<and> dram_at M' = dram_at M \<and> M'\<lparr>memory := []\<rparr> = M\<lparr>memory := []\<rparr> \<and> d' = d"
  by (simp add: cached.cframe_def)

lemma line_size_4_dvd: "2 \<le> m_P_LINE c \<Longrightarrow> 4 dvd line_size c"
  using le_imp_power_dvd [of 2 "m_P_LINE c" "2::nat"] by (simp add: line_size_def)

text \<open>
  Claim C5: for every sequence of aligned loads, stores and flushes on lines that lie in DRAM, a cache in a
  coherent state, enabled or not, runs to the end without an assertion failure or an
  out-of-bounds access, returns exactly the values that a flat byte memory returns, leaves the memory
  the processor sees equal to that flat memory, touches no device, and is coherent again.
\<close>

theorem cache_refines_flat_memory:
  assumes "cached_inv (c, (M, d))" and "2 \<le> m_P_LINE c" and "\<forall>x \<in> set xs. mop_ok c (dram_at M) x"
  shows "\<exists>c' M'. cache_run (phy_ops vt) xs (c, (M, d)) = Inr (fst (flat_run xs (view c (cell M))), c', (M', d)) \<and>
    view c' (cell M') = snd (flat_run xs (view c (cell M))) \<and> cached_inv (c', (M', d)) \<and>
    M'\<lparr>memory := []\<rparr> = M\<lparr>memory := []\<rparr>"
proof -
  have inv: "cached.cinv (c, (M, d))" using assms(1) by (simp add: cached_cinv)
  have "\<forall>x \<in> set xs. mop_ok c (case (M, d) of (M, d) \<Rightarrow> dram_at M) x" using assms(3) by simp
  from cached.run_refines [OF inv line_size_4_dvd [OF assms(2)] this, where vt = vt]
  show ?thesis by (auto simp: cached_cview cached_cframe cached_cinv)
qed

text \<open>
  Claim C25: a flush makes the memory current: after it every byte of the flushed line is in the physical
  memory, and the view is unchanged.
\<close>

theorem flush_makes_memory_current:
  assumes "cached_inv (c, (M, d))" and "cache_enabled c"
  shows "\<exists>c' M'. flush (phy_ops vt) pa (c, (M, d)) = Inr (c', (M', d)) \<and> cached_inv (c', (M', d)) \<and>
    view c' (cell M') = view c (cell M) \<and>
    (\<forall>a. entry_of c a = entry_of c pa \<longrightarrow> tag_of c a = tag_of c pa \<longrightarrow> cell M' a = view c (cell M) a)"
proof -
  have inv: "cached.cinv (c, (M, d))" using assms(1) by (simp add: cached_cinv)
  from cached.flush_ok [OF inv assms(2), of vt pa]
  show ?thesis by (auto simp: cached_cview cached_cframe cached_cinv)
qed

text \<open>
  Claim C26: replacement is least recently used: an access uses the way that holds the line or, on a miss, the way
  of rank 0; that way gets the highest rank, the order of the other ways of the set does not change, and neither do
  the ranks of other sets.
\<close>

theorem access_is_lru:
  assumes "cached_inv (c, (M, d))" and "cache_enabled c" and "line_in_ram c (dram_at M) pa"
  shows "\<exists>w c' M'. access (phy_ops vt) pa st (c, (M, d)) = Inr ((w, entry_of c pa), c', (M', d)) \<and> w < n_ways c \<and>
    match_way c' (entry_of c pa) (tag_of c pa) w \<and>
    (match_way c (entry_of c pa) (tag_of c pa) w \<or>
     clru c w (entry_of c pa) = 0 \<and> (\<forall>u < n_ways c. \<not> match_way c (entry_of c pa) (tag_of c pa) u)) \<and>
    clru c' w (entry_of c pa) = n_ways c - 1 \<and>
    (\<forall>u < n_ways c. \<forall>v < n_ways c. u \<noteq> w \<longrightarrow> v \<noteq> w \<longrightarrow>
       (clru c' u (entry_of c pa) < clru c' v (entry_of c pa) \<longleftrightarrow>
        clru c u (entry_of c pa) < clru c v (entry_of c pa))) \<and>
    (\<forall>u < n_ways c. \<forall>s. s \<noteq> entry_of c pa \<longrightarrow> clru c' u s = clru c u s)"
proof -
  let ?s = "entry_of c pa"
  have i: "cache_wf c" "case (M, d) of (M, d) \<Rightarrow> mem_wf M"
    "coherent c ((case (M, d) of (M, d) \<Rightarrow> cell M)) ((case (M, d) of (M, d) \<Rightarrow> dram_at M))"
    "line_in_ram c (case (M, d) of (M, d) \<Rightarrow> dram_at M) pa"
    using assms by (simp_all add: cached_inv_def)
  from cached.access_ok [OF i(1) assms(2) i(2-4), of vt st] obtain w c' m' where
    a: "access (phy_ops vt) pa st (c, (M, d)) = Inr ((w, ?s), c', m')" "w < n_ways c"
      "match_way c' ?s (tag_of c pa) w" "(case m' of (M, d) \<Rightarrow> (M\<lparr>memory := []\<rparr>, d)) = (M\<lparr>memory := []\<rparr>, d)"
      "lru_touched c ?s w c'"
      "match_way c ?s (tag_of c pa) w \<or> clru c w ?s = 0 \<and> (\<forall>u < n_ways c. \<not> match_way c ?s (tag_of c pa) u)"
    by auto
  obtain M' where m': "m' = (M', d)" using a(4) by (cases m') auto
  have L: "clru c' u s = (if s = ?s then if u = w then n_ways c - 1 else aged (clru c w ?s) (clru c u ?s) else clru c u s)"
    if "u < n_ways c" for u s
    using a(5) that by (simp add: lru_touched_def)
  have R: "lru_ranks c ?s" using wfD(3) [OF i(1)] by simp
  have order: "aged (clru c w ?s) (clru c u ?s) < aged (clru c w ?s) (clru c v ?s) \<longleftrightarrow> clru c u ?s < clru c v ?s"
    if "u < n_ways c" "v < n_ways c" "u \<noteq> w" "v \<noteq> w" for u v
  proof -
    have "clru c u ?s \<noteq> clru c w ?s" "clru c v ?s \<noteq> clru c w ?s"
      using lru_inj [OF R _ that(1) a(2)] lru_inj [OF R _ that(2) a(2)] that(3,4) by blast+
    then show ?thesis by (auto simp: aged_def)
  qed
  show ?thesis
    by (intro exI [of _ w] exI [of _ c'] exI [of _ M'] conjI) (use a m' L order in \<open>simp_all\<close>)
qed

section \<open>A concrete cache\<close>

text \<open>One way, one set, lines of four bytes, in front of \<open>small_mem\<close>.\<close>

definition small_cache :: Cache where
  "small_cache = \<lparr>cache_enabled = True, m_P_WAYS = 0, m_P_SETS = 0, m_P_LINE = 2, cache_v = [[False]],
     cache_dirty = [[False]], cache_lru = [[0]], cache_addr = [[0]], cache_lines = [[[0, 0, 0, 0]]],
     freq_hit = 0, freq_miss = 0, freq_miss_writeback = 0\<rparr>"

lemma small_cache_dims:
  "n_ways small_cache = 1" "n_sets small_cache = 1" "line_size small_cache = 4" "geometry small_cache"
  "cache_enabled small_cache" "m_P_LINE small_cache = 2"
  by (simp_all add: small_cache_def n_ways_def n_sets_def line_size_def geometry_def)

lemma small_cache_wf: "cache_wf small_cache"
  by (simp add: cache_wf_def cache_dims_def small_cache_dims lru_ranks_def tags_distinct_def bij_betw_def)
     (simp add: small_cache_def rect_def match_way_def inj_on_def)

lemma small_cache_inv: "cached_inv (small_cache, (small_mem, ()))"
proof -
  have "empty_cache small_cache" by (simp add: empty_cache_def small_cache_dims) (simp add: small_cache_def)
  then show ?thesis by (simp add: cached_inv_def small_cache_wf small_mem_wf empty_coherent)
qed

lemma small_cache_line: "line_in_ram small_cache (dram_at small_mem) 0x80000004"
  by (simp add: line_in_ram_def small_cache_dims all_less_4)
     (simp add: small_cache_def small_mem_def dram_at_def in_dram_def in_mmio_def line_paddr_def tag_of_def entry_of_def)

theorem cache_refines_flat_memory_witness:
  "cached_inv (small_cache, (small_mem, ())) \<and> 2 \<le> m_P_LINE small_cache \<and>
   (\<exists>c' M'. cache_run (phy_ops undefined) [St32 0x80000004 0xdeadbeef, Ld8 0x80000005] (small_cache, (small_mem, ())) =
      Inr ([0xbe], c', (M', ())))"
proof -
  have "line_in_ram small_cache (dram_at small_mem) 0x80000005"
    using small_cache_line
    by (simp add: line_in_ram_def small_cache_dims all_less_4)
       (simp add: small_cache_def small_mem_def dram_at_def in_dram_def in_mmio_def line_paddr_def tag_of_def entry_of_def)
  then have ok: "\<forall>x \<in> set [St32 0x80000004 0xdeadbeef, Ld8 0x80000005]. mop_ok small_cache (dram_at small_mem) x"
    using small_cache_line by simp
  have "fst (flat_run [St32 0x80000004 0xdeadbeef, Ld8 0x80000005] f) = [0xbe]" for f
    by (simp add: upd32_def byte_of_def)
  moreover have l: "2 \<le> m_P_LINE small_cache" by (simp add: small_cache_dims)
  ultimately show ?thesis
    using cache_refines_flat_memory [OF small_cache_inv l ok, of undefined] small_cache_inv by auto
qed

theorem flush_makes_memory_current_witness:
  "cached_inv (small_cache, (small_mem, ())) \<and> cache_enabled small_cache \<and>
   (\<exists>c' M'. flush (phy_ops undefined) 0x80000004 (small_cache, (small_mem, ())) = Inr (c', (M', ())) \<and>
      cell M' 0x80000004 = view small_cache (cell small_mem) 0x80000004)"
  using flush_makes_memory_current [OF small_cache_inv small_cache_dims(5), of undefined "0x80000004"]
    small_cache_inv small_cache_dims(5) by blast

theorem access_is_lru_witness:
  "cached_inv (small_cache, (small_mem, ())) \<and> cache_enabled small_cache \<and>
   line_in_ram small_cache (dram_at small_mem) 0x80000004 \<and>
   (\<exists>w c' M'. access (phy_ops undefined) 0x80000004 True (small_cache, (small_mem, ())) =
      Inr ((w, entry_of small_cache 0x80000004), c', (M', ())) \<and> w < n_ways small_cache)"
  using access_is_lru [OF small_cache_inv small_cache_dims(5) small_cache_line, of undefined True]
    small_cache_inv small_cache_dims(5) small_cache_line by blast

text \<open>
  Claim C28: invalidating a set in which no line is dirty empties it and changes neither the coherence nor the memory
  that the processor sees.
\<close>

theorem invalidate_clean_set:
  assumes "cached_inv (c, (M, d))" and "cache_enabled c" and "\<forall>w < n_ways c. \<not> cdirty c (entry_of c pa) w"
  shows "\<exists>c'. invalidate pa c = Inr c' \<and> cached_inv (c', (M, d)) \<and> view c' (cell M) = view c (cell M) \<and>
    (\<forall>w < n_ways c. \<not> cvalid c' w (entry_of c pa))"
proof -
  let ?s = "entry_of c pa"
  have i: "cache_wf c" "coherent c (cell M) (dram_at M)" "mem_wf M" using assms(1,2) by (simp_all add: cached_inv_def)
  have s: "?s < n_sets c" by simp
  note I = invalidated_clean [OF i(1) assms(2) i(2) s assms(3)]
  show ?thesis
    by (rule exI [of _ "invalidated ?s c"])
      (simp add: invalidate_eq [OF wfD(1) [OF i(1)] assms(2)] cached_inv_def i(3) I invalidated_wf [OF i(1) s]
        invalidated_props [OF wfD(1) [OF i(1)] s])
qed

theorem invalidate_clean_set_witness:
  "cached_inv (small_cache, (small_mem, ())) \<and> \<not> cdirty small_cache 0 0 \<and>
   (\<exists>c'. invalidate 0x80000004 small_cache = Inr c' \<and> cached_inv (c', (small_mem, ())))"
proof -
  have e: "entry_of small_cache 0x80000004 = 0" by (simp add: entry_of_nat small_cache_dims)
  have "\<forall>w < n_ways small_cache. \<not> cdirty small_cache (entry_of small_cache 0x80000004) w"
    by (simp add: small_cache_dims e) (simp add: small_cache_def)
  then show ?thesis
    using invalidate_clean_set [OF small_cache_inv small_cache_dims(5), of "0x80000004"] small_cache_inv e
    by (auto simp: small_cache_dims)
qed

text \<open>
  Claim C29: invalidating a dirty line loses later stores. \<open>invalidate\<close> clears the valid bit and leaves the dirty bit, and
  \<open>access\<close> writes a victim back when its dirty bit is set, valid or not. In any coherent cache that holds the line of \<open>a\<close> dirty in the way to be
  replaced next: after the line is invalidated, and whatever is stored in the memory past the cache in the meantime (\<open>M'\<close>), the next access
  to the set, load or store, overwrites every byte of the line in memory with the contents the line had when it was dropped, and no other byte.
\<close>

theorem invalidate_dirty_overwrites:
  assumes "cached_inv (c, (M, d))" and "cache_enabled c" and "match_way c (entry_of c a) (tag_of c a) w" and "w < n_ways c"
    and "cdirty c (entry_of c a) w" and "clru c w (entry_of c a) = 0"
    and "mem_wf M'" and "dram_at M' = dram_at M" and "entry_of c b = entry_of c a" and "line_in_ram c (dram_at M) b"
  shows "\<exists>c1 c2 M2. invalidate a c = Inr c1 \<and> access (phy_ops vt) b st (c1, (M', d')) = Inr ((w, entry_of c a), c2, (M2, d')) \<and>
    (\<forall>x. cell M2 x = (if entry_of c x = entry_of c a \<and> tag_of c x = tag_of c a then view c (cell M) x else cell M' x))"
proof -
  let ?s = "entry_of c a" and ?t = "tag_of c a"
  let ?c1 = "invalidated ?s c"
  have i: "cache_wf c" "coherent c (cell M) (dram_at M)" using assms(1,2) by (simp_all add: cached_inv_def)
  note D = wfD(1) [OF i(1)] and e = same_geometry_eqs [OF invalidated_same, of ?s c]
  have s: "?s < n_sets c" by simp
  have f: "cache_addr ?c1 = cache_addr c" "cache_lru ?c1 = cache_lru c" "cache_lines ?c1 = cache_lines c" "cache_dirty ?c1 = cache_dirty c"
    by (simp_all add: invalidated_def)
  have wf1: "cache_wf ?c1" by (rule invalidated_wf [OF i(1) s])
  have ok: "case (M', d') of (M, d) \<Rightarrow> mem_wf M" using assms(7) by simp
  have fl: "\<forall>v < n_ways ?c1. cached.slot_flushable ?c1 (M', d') v (entry_of ?c1 b)"
    using coherent_slot(1,2) [OF i(2)] wfD(5) [OF i(1)] assms(8,9) s by (auto simp: cached.slot_flushable_def e f)
  have rm: "line_in_ram ?c1 (case (M', d') of (M, d) \<Rightarrow> dram_at M) b" using assms(8,10) by (simp add: line_in_ram_def e)
  have miss: "\<forall>u < n_ways ?c1. \<not> match_way ?c1 (entry_of ?c1 b) (tag_of ?c1 b) u" using invalidated_match [OF D s] assms(9) by (simp add: e)
  obtain v c2 m2 where a: "access (phy_ops vt) b st (?c1, (M', d')) = Inr ((v, entry_of ?c1 b), c2, m2)"
      and v: "v < n_ways ?c1" "clru ?c1 v (entry_of ?c1 b) = 0" and r: "(case m2 of (M, d) \<Rightarrow> (M\<lparr>memory := []\<rparr>, d)) = (M'\<lparr>memory := []\<rparr>, d')"
      and wb: "(case m2 of (M, d) \<Rightarrow> cell M) = written_back ?c1 v (entry_of ?c1 b) (cell M')"
    by (rule cached.access_evict [OF wf1 ok fl rm miss, of vt st]) auto
  have vw: "v = w" using lru_inj [OF wfD(3) [OF i(1) s], of v w] v assms(4,6,9) by (simp add: e f)
  obtain M2 where m2: "m2 = (M2, d')" using r by (cases m2) auto
  have "cell M2 x = (if entry_of c x = ?s \<and> tag_of c x = ?t then view c (cell M) x else cell M' x)" for x
    using wb assms(3,5,9) view_hit [OF i(1) assms(2,4), of x "cell M"]
    by (auto simp: m2 vw written_back_def e f match_way_def)
  then show ?thesis
    using a assms(9) by (intro exI [of _ ?c1] exI [of _ c2] exI [of _ M2]) (simp add: invalidate_eq [OF D assms(2)] m2 vw e)
qed

text \<open>\<open>small_cache\<close> with the line of \<open>0x80000000\<close> stored in it.\<close>

definition dirty_cache :: Cache where
  "dirty_cache = small_cache\<lparr>cache_v := [[True]], cache_dirty := [[True]], cache_addr := [[0x20000000]], cache_lines := [[[1, 0, 0, 0]]]\<rparr>"

theorem invalidate_dirty_overwrites_witness:
  "cached_inv (dirty_cache, (small_mem, ())) \<and> cdirty dirty_cache 0 0 \<and>
   (\<exists>c1 c2 M2. invalidate 0x80000000 dirty_cache = Inr c1 \<and>
     access (phy_ops undefined) 0x80000004 False (c1, (set_cell 0x80000000 7 small_mem, ())) = Inr ((0, 0), c2, (M2, ())) \<and>
     cell (set_cell 0x80000000 7 small_mem) 0x80000000 = 7 \<and> cell M2 0x80000000 = 1)"
proof -
  have n: "n_ways dirty_cache = 1" "n_sets dirty_cache = 1" "line_size dirty_cache = 4" "geometry dirty_cache" "cache_enabled dirty_cache"
    by (simp_all add: dirty_cache_def small_cache_def n_ways_def n_sets_def line_size_def geometry_def)
  have e: "entry_of dirty_cache x = 0" "tag_of dirty_cache 0x80000000 = 0x20000000" "block_offset dirty_cache 0x80000000 = 0" for x
    by (simp add: entry_of_nat n) (simp_all add: dirty_cache_def small_cache_def tag_of_def block_offset_def m_block_offset_mask_def)
  have w: "cache_wf dirty_cache"
    by (simp add: cache_wf_def cache_dims_def n lru_ranks_def tags_distinct_def bij_betw_def)
       (simp add: dirty_cache_def small_cache_def rect_def match_way_def inj_on_def tag_ok_def line_size_def n_sets_def)
  have "coherent dirty_cache (cell small_mem) (dram_at small_mem)"
    by (simp add: coherent_def slot_coherent_def n all_less_4)
       (simp add: dirty_cache_def small_cache_def small_mem_def dram_at_def in_dram_def in_mmio_def line_paddr_def)
  then have inv: "cached_inv (dirty_cache, (small_mem, ()))" by (simp add: cached_inv_def w small_mem_wf)
  have m: "match_way dirty_cache (entry_of dirty_cache 0x80000000) (tag_of dirty_cache 0x80000000) 0" "0 < n_ways dirty_cache"
    "cdirty dirty_cache (entry_of dirty_cache 0x80000000) 0" "clru dirty_cache 0 (entry_of dirty_cache 0x80000000) = 0"
    by (simp_all add: match_way_def e n) (simp_all add: dirty_cache_def small_cache_def)
  have l: "line_in_ram dirty_cache (dram_at small_mem) 0x80000004"
    using small_cache_line by (simp add: line_in_ram_def line_paddr_def line_size_def tag_of_def entry_of_def dirty_cache_def)
  have a: "dram_at small_mem 0x80000000" by (simp add: dram_at_def in_dram_def in_mmio_def small_mem_def)
  have c: "cell (set_cell 0x80000000 7 small_mem) 0x80000000 = 7" using cell_set_cell [OF small_mem_wf a] by simp
  have vw: "view dirty_cache (cell small_mem) 0x80000000 = 1"
    using view_hit [OF w n(5) m(2,1), of "cell small_mem"] by (simp add: e) (simp add: dirty_cache_def)
  have M': "mem_wf (set_cell 0x80000000 7 small_mem)" "dram_at (set_cell 0x80000000 7 small_mem) = dram_at small_mem" using small_mem_wf by simp_all
  have b: "entry_of dirty_cache 0x80000004 = entry_of dirty_cache 0x80000000" by (simp add: e)
  from invalidate_dirty_overwrites [OF inv n(5) m(1,2,3,4) M' b l, of undefined False "()"] obtain c1 c2 M2 where
    r: "invalidate 0x80000000 dirty_cache = Inr c1"
      "access (phy_ops undefined) 0x80000004 False (c1, (set_cell 0x80000000 7 small_mem, ())) = Inr ((0, 0), c2, (M2, ()))"
      "\<forall>x. cell M2 x = (if entry_of dirty_cache x = entry_of dirty_cache 0x80000000 \<and> tag_of dirty_cache x = tag_of dirty_cache 0x80000000
        then view dirty_cache (cell small_mem) x else cell (set_cell 0x80000000 7 small_mem) x)"
    unfolding e by blast
  have "cell M2 0x80000000 = 1" using spec [OF r(3), of "0x80000000"] vw by simp
  moreover have "cdirty dirty_cache 0 0" by (simp add: dirty_cache_def)
  ultimately show ?thesis using r(1,2) inv c by blast
qed

end
