(* ===== verification/CpuState.thy ===== *)
theory CpuState
  imports Tsc Mmu Traces CachePort
begin

text \<open>
  The class \<open>CPU\<close> of \<open>em/csrc/cpu.hh\<close>: its fields as a record, and the operations of \<open>em/csrc/cpu.cc\<close> on which the instruction
  interpreter rests: construction, reset, register access, exception entry, the alignment check. The
  devices are a parameter: \<open>'cb\<close> are the device objects, \<open>'dv\<close> their state; a handler can
  also change the model-specific registers, through \<open>CPU::irqc_set_interrupt\<close>, so the world of a handler is
  the pair of both. What is printed on stdout is the list \<open>cpu_out\<close>; diagnostics on stderr are not modelled.
\<close>

section \<open>State\<close>

datatype out_event = DebugNum u32 vm_addr_t | DebugChar u8

record ('cb, 'dv) CPU =
  cpu_pc :: vm_addr_t
  cpu_msr :: msr_s
  regfile :: "cpu_word_t list"
  dmmu_tlb_count :: int
  immu_tlb_count :: int
  dmmu_tlb_count_log2 :: nat
  immu_tlb_count_log2 :: nat
  dmmu_enable_uncached_seg :: bool
  immu_enable_uncached_seg :: bool
  enable_icache :: bool
  enable_dcache :: bool
  icache_p_ways :: nat
  icache_p_sets :: nat
  icache_p_line :: nat
  dcache_p_ways :: nat
  dcache_p_sets :: nat
  dcache_p_line :: nat
  cpu_mem :: "'cb Memory"
  icache :: Cache
  dcache :: Cache
  IRQ_TSC :: int
  pc_queue :: PCQueue
  cpu_symtable :: "sym_node list"
  cpu_ras :: RAS
  vect_EINSN :: phy_addr_t
  vect_EIRQ :: phy_addr_t
  vect_ESYSCALL :: phy_addr_t
  vect_EIPF :: phy_addr_t
  vect_EDPF :: phy_addr_t
  vect_EITM :: phy_addr_t
  vect_EDTM :: phy_addr_t
  vect_EALIGN :: phy_addr_t
  enable_dbg :: bool
  cpu_out :: "out_event list"
  cpu_dev :: 'dv

type_synonym 'dv world = "msr_s \<times> 'dv"
type_synonym ('cb, 'dv) vtable = "('cb, 'dv world) MMIOCallback"
type_synonym ('cb, 'dv) cbus = "('cb, 'dv world) bus"

text \<open>The part of the processor that memory accesses read and change.\<close>

definition cpu_bus :: "('cb, 'dv) CPU \<Rightarrow> ('cb, 'dv) cbus" where
  "cpu_bus cpu = (cpu_mem cpu, (cpu_msr cpu, cpu_dev cpu))"

definition set_bus :: "('cb, 'dv) cbus \<Rightarrow> ('cb, 'dv) CPU \<Rightarrow> ('cb, 'dv) CPU" where
  "set_bus b cpu = (case b of (M, (r, dv)) \<Rightarrow> cpu\<lparr>cpu_mem := M, cpu_msr := r, cpu_dev := dv\<rparr>)"

definition on_bus :: "(('cb, 'dv) cbus \<Rightarrow> halt + ('cb, 'dv) cbus) \<Rightarrow> ('cb, 'dv) CPU \<Rightarrow> halt + ('cb, 'dv) CPU" where
  "on_bus f cpu = bnd (f (cpu_bus cpu)) (\<lambda>b. Inr (set_bus b cpu))"

definition from_bus ::
  "(('cb, 'dv) cbus \<Rightarrow> halt + 'x \<times> ('cb, 'dv) cbus) \<Rightarrow> ('cb, 'dv) CPU \<Rightarrow> halt + 'x \<times> ('cb, 'dv) CPU" where
  "from_bus f cpu = bnd (f (cpu_bus cpu)) (\<lambda>(x, b). Inr (x, set_bus b cpu))"

definition on_dcache ::
  "(Cache \<times> ('cb, 'dv) cbus \<Rightarrow> halt + Cache \<times> ('cb, 'dv) cbus) \<Rightarrow> ('cb, 'dv) CPU \<Rightarrow> halt + ('cb, 'dv) CPU" where
  "on_dcache f cpu = bnd (f (dcache cpu, cpu_bus cpu)) (\<lambda>(c, b). Inr ((set_bus b cpu)\<lparr>dcache := c\<rparr>))"

definition from_dcache ::
  "(Cache \<times> ('cb, 'dv) cbus \<Rightarrow> halt + 'x \<times> Cache \<times> ('cb, 'dv) cbus) \<Rightarrow> ('cb, 'dv) CPU \<Rightarrow> halt + 'x \<times> ('cb, 'dv) CPU" where
  "from_dcache f cpu = bnd (f (dcache cpu, cpu_bus cpu)) (\<lambda>(x, c, b). Inr (x, (set_bus b cpu)\<lparr>dcache := c\<rparr>))"

definition from_icache ::
  "(Cache \<times> ('cb, 'dv) cbus \<Rightarrow> halt + 'x \<times> Cache \<times> ('cb, 'dv) cbus) \<Rightarrow> ('cb, 'dv) CPU \<Rightarrow> halt + 'x \<times> ('cb, 'dv) CPU" where
  "from_icache f cpu = bnd (f (icache cpu, cpu_bus cpu)) (\<lambda>(x, c, b). Inr (x, (set_bus b cpu)\<lparr>icache := c\<rparr>))"

text \<open>A step on the registers alone.\<close>

definition on_msr :: "(msr_s \<Rightarrow> halt + msr_s) \<Rightarrow> ('cb, 'dv) CPU \<Rightarrow> halt + ('cb, 'dv) CPU" where
  "on_msr f cpu = bnd (f (cpu_msr cpu)) (\<lambda>r. Inr (cpu\<lparr>cpu_msr := r\<rparr>))"

section \<open>Construction and reset\<close>

text \<open>\<open>int(std::log2(n))\<close>, for positive \<open>n\<close>.\<close>

fun ilog2 :: "nat \<Rightarrow> nat" where
  "ilog2 n = (if n < 2 then 0 else Suc (ilog2 (n div 2)))"

declare ilog2.simps [simp del]

text \<open>
  \<open>r0\<close> and \<open>raw0\<close> are the indeterminate contents of the registers, of the memory and of the cache arrays after
  construction; \<open>dv\<close> is the state of the devices, which exist independently of the processor.
\<close>

record raw_init =
  raw_pc :: vm_addr_t
  raw_msr :: msr_s
  raw_regs :: "cpu_word_t list"
  raw_mem :: "u8 list"
  raw_idirty :: "bool list list"
  raw_ilines :: "u8 list list list"
  raw_ddirty :: "bool list list"
  raw_dlines :: "u8 list list list"

definition CPU_new ::
  "raw_init \<Rightarrow> 'dv \<Rightarrow> int \<Rightarrow> int \<Rightarrow> bool \<Rightarrow> bool \<Rightarrow> bool \<Rightarrow> bool \<Rightarrow> nat \<times> nat \<times> nat \<Rightarrow> nat \<times> nat \<times> nat \<Rightarrow>
   phy_addr_t \<Rightarrow> phy_addr_t \<Rightarrow> phy_addr_t \<Rightarrow> int \<Rightarrow>
   phy_addr_t \<Rightarrow> phy_addr_t \<Rightarrow> phy_addr_t \<Rightarrow> phy_addr_t \<Rightarrow> phy_addr_t \<Rightarrow> phy_addr_t \<Rightarrow> phy_addr_t \<Rightarrow> phy_addr_t \<Rightarrow>
   halt + ('cb, 'dv) CPU" where
  "CPU_new raw dv dtlb itlb dseg iseg en_i en_d ic dc dram_phy_base' mmio_phy_base' mmio_phy_end_addr' irq_tsc
     v_insn v_irq v_syscall v_ipf v_dpf v_itm v_dtm v_align =
     (if dtlb \<le> 0 \<or> itlb \<le> 0 then Inl Undefined else
      bnd (Memory_new True (raw_mem raw) dram_phy_base' mmio_phy_base' mmio_phy_end_addr') (\<lambda>M.
      bnd (case ic of (w, s, l) \<Rightarrow> Cache_new (raw_idirty raw) (raw_ilines raw) en_i w s l) (\<lambda>ci.
      bnd (case dc of (w, s, l) \<Rightarrow> Cache_new (raw_ddirty raw) (raw_dlines raw) en_d w s l) (\<lambda>cd.
      Inr \<lparr>cpu_pc = raw_pc raw, cpu_msr = msr_reset (raw_msr raw), regfile = raw_regs raw,
           dmmu_tlb_count = dtlb, immu_tlb_count = itlb,
           dmmu_tlb_count_log2 = ilog2 (nat dtlb), immu_tlb_count_log2 = ilog2 (nat itlb),
           dmmu_enable_uncached_seg = dseg, immu_enable_uncached_seg = iseg,
           enable_icache = en_i, enable_dcache = en_d,
           icache_p_ways = fst ic, icache_p_sets = fst (snd ic), icache_p_line = snd (snd ic),
           dcache_p_ways = fst dc, dcache_p_sets = fst (snd dc), dcache_p_line = snd (snd dc),
           cpu_mem = M, icache = ci, dcache = cd, IRQ_TSC = irq_tsc,
           pc_queue = pcq_new, cpu_symtable = [], cpu_ras = ras_new,
           vect_EINSN = v_insn, vect_EIRQ = v_irq, vect_ESYSCALL = v_syscall, vect_EIPF = v_ipf,
           vect_EDPF = v_dpf, vect_EITM = v_itm, vect_EDTM = v_dtm, vect_EALIGN = v_align,
           enable_dbg = True, cpu_out = [], cpu_dev = dv\<rparr>))))"

definition cpu_reset :: "vm_addr_t \<Rightarrow> ('cb, 'dv) CPU \<Rightarrow> ('cb, 'dv) CPU" where
  "cpu_reset reset_vect cpu =
     cpu\<lparr>cpu_pc := reset_vect, regfile := replicate 32 0, cpu_msr := msr_reset (cpu_msr cpu)\<rparr>"

section \<open>Registers\<close>

definition set_reg :: "u16 \<Rightarrow> cpu_word_t \<Rightarrow> ('cb, 'dv) CPU \<Rightarrow> halt + ('cb, 'dv) CPU" where
  "set_reg addr val cpu =
     (if addr \<ge> 32 then Inl (Panic 1)
      else if addr \<noteq> 0 then bnd (updE (regfile cpu) (unat addr) val) (\<lambda>r. Inr (cpu\<lparr>regfile := r\<rparr>))
      else Inr cpu)"

definition get_reg :: "u16 \<Rightarrow> ('cb, 'dv) CPU \<Rightarrow> halt + cpu_word_t" where
  "get_reg addr cpu =
     (if addr \<ge> 32 then Inl (Panic 1)
      else if addr \<noteq> 0 then nthE (regfile cpu) (unat addr)
      else Inr 0)"

section \<open>Exceptions\<close>

definition raise_exception ::
  "vm_addr_t \<Rightarrow> vm_addr_t \<Rightarrow> vm_addr_t \<Rightarrow> bool \<Rightarrow> ('cb, 'dv) CPU \<Rightarrow> vm_addr_t \<times> ('cb, 'dv) CPU" where
  "raise_exception pc vector lsa is_syscall cpu =
     (let r0 = cpu_msr cpu;
          r1 = (if vector = vect_EITM cpu \<or> vector = vect_EIPF cpu \<or> vector = vect_EINSN cpu \<or>
                   vector = vect_EDTM cpu \<or> vector = vect_EDPF cpu \<or> vector = vect_EALIGN cpu
                then r0\<lparr>ELSA := lsa\<rparr> else r0);
          r2 = r1\<lparr>EPC := pc + (if is_syscall then INSN_LEN else 0), EPSR := PSR r1,
                  PSR := (PSR r1)\<lparr>psr_RM := True, psr_IMME := False, psr_DMME := False, psr_IRE := False\<rparr>\<rparr>
      in ((EVECT r2 AND 0xffffff00) OR (vector AND 0xff), cpu\<lparr>cpu_msr := r2\<rparr>))"

text \<open>\<open>panic\<close> does not return, so the status \<open>-EM_ALIGN_FAULT\<close> never reaches a caller.\<close>

definition check_vma_align :: "vm_addr_t \<Rightarrow> vm_addr_t \<Rightarrow> halt + int" where
  "check_vma_align va sz = (if va AND (sz - 1) \<noteq> 0 then Inl (Panic 1) else Inr 0)"

section \<open>Basic facts\<close>

lemma bus_simps [simp]:
  "cpu_bus (set_bus b cpu) = b" "set_bus (cpu_bus cpu) cpu = cpu" "set_bus b (set_bus b' cpu) = set_bus b cpu"
  by (simp_all add: cpu_bus_def set_bus_def split: prod.splits)

lemma set_bus_fields [simp]:
  "regfile (set_bus b cpu) = regfile cpu" "cpu_pc (set_bus b cpu) = cpu_pc cpu"
  "dmmu_tlb_count (set_bus b cpu) = dmmu_tlb_count cpu" "immu_tlb_count (set_bus b cpu) = immu_tlb_count cpu"
  "pc_queue (set_bus b cpu) = pc_queue cpu" "cpu_ras (set_bus b cpu) = cpu_ras cpu"
  "dcache (set_bus b cpu) = dcache cpu" "icache (set_bus b cpu) = icache cpu" "IRQ_TSC (set_bus b cpu) = IRQ_TSC cpu"
  "cpu_msr (set_bus b cpu) = fst (snd b)" "cpu_mem (set_bus b cpu) = fst b" "cpu_dev (set_bus b cpu) = snd (snd b)"
  by (auto simp: set_bus_def split: prod.splits)

lemma reg_less: "addr \<ge> 32 \<longleftrightarrow> \<not> unat addr < 32" for addr :: u16
  by (simp add: word_le_nat_alt not_less)

lemma get_reg_val:
  "unat addr < 32 \<Longrightarrow> length (regfile cpu) = 32 \<Longrightarrow> get_reg addr cpu = Inr (if addr = 0 then 0 else regfile cpu ! unat addr)"
  by (simp add: get_reg_def reg_less)

lemma set_reg_val:
  "unat addr < 32 \<Longrightarrow> length (regfile cpu) = 32 \<Longrightarrow>
   set_reg addr v cpu = Inr (if addr = 0 then cpu else cpu\<lparr>regfile := (regfile cpu)[unat addr := v]\<rparr>)"
  by (simp add: set_reg_def reg_less)

lemma check_vma_align_ok: "check_vma_align va sz = Inr r \<longleftrightarrow> va AND (sz - 1) = 0 \<and> r = 0"
  by (auto simp: check_vma_align_def)

lemma ilog2_pow: "ilog2 (2 ^ k) = k"
proof (induction k)
  case 0
  then show ?case by (simp add: ilog2.simps)
next
  case (Suc k)
  have "\<not> (2::nat) ^ Suc k < 2" by (simp add: not_less)
  then show ?case using Suc by (subst ilog2.simps) simp
qed

text \<open>
  Register access: a value written to a register other than 0 is read back and no other register
  changes, register 0 reads as 0 whatever is written to it, and a register number of 32 or more ends the
  process with exit code 1.
\<close>

lemma get_set_reg:
  assumes "length (regfile cpu) = 32"
  shows "if a \<ge> 32 then set_reg a v cpu = Inl (Panic 1) \<and> get_reg a cpu = Inl (Panic 1)
    else \<exists>cpu'. set_reg a v cpu = Inr cpu' \<and> get_reg a cpu' = Inr (if a = 0 then 0 else v) \<and>
      get_reg 0 cpu' = Inr 0 \<and> (\<forall>b. b \<noteq> a \<longrightarrow> get_reg b cpu' = get_reg b cpu) \<and> length (regfile cpu') = 32"
proof (cases "a \<ge> 32")
  case True
  then show ?thesis by (simp add: set_reg_def get_reg_def)
next
  case False
  then have u: "unat a < 32" by (simp add: reg_less)
  let ?c = "if a = 0 then cpu else cpu\<lparr>regfile := (regfile cpu)[unat a := v]\<rparr>"
  have len: "length (regfile ?c) = 32" using assms by simp
  have other: "get_reg b ?c = get_reg b cpu" if "b \<noteq> a" for b
  proof -
    have "unat a \<noteq> unat b" using that by (simp add: word_unat_eq_iff)
    then show ?thesis using assms by (simp add: get_reg_def nthE_def)
  qed
  have "get_reg a ?c = Inr (if a = 0 then 0 else v)" "get_reg 0 ?c = Inr 0"
    using get_reg_val [OF u len] get_reg_val [OF _ len, of 0] u assms by simp_all
  then show ?thesis
    unfolding if_not_P [OF False] using set_reg_val [OF u assms, of v] len other by blast
qed

text \<open>A small machine: two TLB entries, \<open>small_cache\<close> in front of \<open>small_mem\<close>, no devices.\<close>

definition small_cpu :: "(unit, unit) CPU" where
  "small_cpu = \<lparr>cpu_pc = 0x80000000, cpu_msr = msr_zero 2 2, regfile = replicate 32 0,
     dmmu_tlb_count = 2, immu_tlb_count = 2, dmmu_tlb_count_log2 = 1, immu_tlb_count_log2 = 1,
     dmmu_enable_uncached_seg = True, immu_enable_uncached_seg = True, enable_icache = True, enable_dcache = True,
     icache_p_ways = 0, icache_p_sets = 0, icache_p_line = 2, dcache_p_ways = 0, dcache_p_sets = 0, dcache_p_line = 2,
     cpu_mem = small_mem, icache = small_cache, dcache = small_cache, IRQ_TSC = 0,
     pc_queue = pcq_new, cpu_symtable = [], cpu_ras = ras_new,
     vect_EINSN = 0x4, vect_EIRQ = 0x8, vect_ESYSCALL = 0xc, vect_EIPF = 0x14, vect_EDPF = 0x18, vect_EITM = 0x1c,
     vect_EDTM = 0x20, vect_EALIGN = 0x24, enable_dbg = True, cpu_out = [], cpu_dev = ()\<rparr>"

lemma small_cpu_simps [simp]:
  "length (regfile small_cpu) = 32" "cpu_msr small_cpu = msr_zero 2 2" "IRQ_TSC small_cpu = 0"
  "dmmu_tlb_count small_cpu = 2" "immu_tlb_count small_cpu = 2"
  by (simp_all add: small_cpu_def)

end
