(* ===== verification/Msr.thy ===== *)
theory Msr
  imports CpuState
begin

text \<open>
  Access to the model-specific registers, \<open>em/csrc/msr.cc\<close>: \<open>wmsr\<close> and \<open>rmsr\<close> with the packing and unpacking macros they
  use, and the two setters of the harness. Reading and writing registers is shown to be a round trip on
  the bits each register has, privileged, and to keep the shape of the register file; a TLB entry
  written through it translates the page it was written for.
\<close>

section \<open>Packing\<close>

definition msr_unpack_bit :: "nat \<Rightarrow> u32 \<Rightarrow> bool" where
  "msr_unpack_bit sh val \<longleftrightarrow> val AND push_bit sh 1 \<noteq> 0"

definition msr_unpack_field :: "u32 \<Rightarrow> nat \<Rightarrow> u32 \<Rightarrow> u32" where
  "msr_unpack_field msk sh val = drop_bit sh (val AND msk)"

definition msr_pack_bit :: "nat \<Rightarrow> bool \<Rightarrow> u32" where
  "msr_pack_bit sh b = push_bit sh (if b then 1 else 0)"

definition msr_pack_field :: "u32 \<Rightarrow> nat \<Rightarrow> u32 \<Rightarrow> u32" where
  "msr_pack_field msk sh v = push_bit sh v AND msk"

definition psr_unpack :: "u32 \<Rightarrow> psr_s" where
  "psr_unpack val = \<lparr>psr_CY = msr_unpack_bit MSR_PSR_CY_SHIFT val, psr_OV = msr_unpack_bit MSR_PSR_OV_SHIFT val,
     psr_OE = msr_unpack_bit MSR_PSR_OE_SHIFT val, psr_RM = msr_unpack_bit MSR_PSR_RM_SHIFT val,
     psr_IRE = msr_unpack_bit MSR_PSR_IRE_SHIFT val, psr_IMME = msr_unpack_bit MSR_PSR_IMME_SHIFT val,
     psr_DMME = msr_unpack_bit MSR_PSR_DMME_SHIFT val, psr_ICE = msr_unpack_bit MSR_PSR_ICE_SHIFT val,
     psr_DCE = msr_unpack_bit MSR_PSR_DCE_SHIFT val\<rparr>"

definition psr_pack :: "psr_s \<Rightarrow> u32" where
  "psr_pack p = msr_pack_bit MSR_PSR_CY_SHIFT (psr_CY p) OR msr_pack_bit MSR_PSR_OV_SHIFT (psr_OV p)
     OR msr_pack_bit MSR_PSR_OE_SHIFT (psr_OE p) OR msr_pack_bit MSR_PSR_RM_SHIFT (psr_RM p)
     OR msr_pack_bit MSR_PSR_IRE_SHIFT (psr_IRE p) OR msr_pack_bit MSR_PSR_IMME_SHIFT (psr_IMME p)
     OR msr_pack_bit MSR_PSR_DMME_SHIFT (psr_DMME p) OR msr_pack_bit MSR_PSR_ICE_SHIFT (psr_ICE p)
     OR msr_pack_bit MSR_PSR_DCE_SHIFT (psr_DCE p)"

definition tcr_unpack :: "u32 \<Rightarrow> tcr_s" where
  "tcr_unpack val = \<lparr>tcr_CNT = msr_unpack_field MSR_TCR_CNT MSR_TCR_CNT_SHIFT val,
     tcr_EN = msr_unpack_bit MSR_TCR_EN_SHIFT val, tcr_I = msr_unpack_bit MSR_TCR_I_SHIFT val,
     tcr_P = msr_unpack_bit MSR_TCR_P_SHIFT val\<rparr>"

definition tcr_pack :: "tcr_s \<Rightarrow> u32" where
  "tcr_pack t = msr_pack_field MSR_TCR_CNT MSR_TCR_CNT_SHIFT (tcr_CNT t) OR msr_pack_bit MSR_TCR_EN_SHIFT (tcr_EN t)
     OR msr_pack_bit MSR_TCR_I_SHIFT (tcr_I t) OR msr_pack_bit MSR_TCR_P_SHIFT (tcr_P t)"

definition itlbl_unpack :: "u32 \<Rightarrow> itlbl_s" where
  "itlbl_unpack val = \<lparr>itlbl_V = msr_unpack_bit MSR_ITLBL_V_SHIFT val,
     itlbl_VPN = msr_unpack_field MSR_ITLBL_VPN MSR_ITLBL_VPN_SHIFT val\<rparr>"

definition itlbh_unpack :: "u32 \<Rightarrow> itlbh_s" where
  "itlbh_unpack val = \<lparr>itlbh_P = msr_unpack_bit MSR_ITLBH_P_SHIFT val, itlbh_D = msr_unpack_bit MSR_ITLBH_D_SHIFT val,
     itlbh_A = msr_unpack_bit MSR_ITLBH_A_SHIFT val, itlbh_UX = msr_unpack_bit MSR_ITLBH_UX_SHIFT val,
     itlbh_RX = msr_unpack_bit MSR_ITLBH_RX_SHIFT val, itlbh_NC = msr_unpack_bit MSR_ITLBH_NC_SHIFT val,
     itlbh_S = msr_unpack_bit MSR_ITLBH_S_SHIFT val,
     itlbh_PPN = msr_unpack_field MSR_ITLBH_PPN MSR_ITLBH_PPN_SHIFT val\<rparr>"

definition dtlbl_unpack :: "u32 \<Rightarrow> dtlbl_s" where
  "dtlbl_unpack val = \<lparr>dtlbl_V = msr_unpack_bit MSR_DTLBL_V_SHIFT val,
     dtlbl_VPN = msr_unpack_field MSR_DTLBL_VPN MSR_DTLBL_VPN_SHIFT val\<rparr>"

definition dtlbh_unpack :: "u32 \<Rightarrow> dtlbh_s" where
  "dtlbh_unpack val = \<lparr>dtlbh_P = msr_unpack_bit MSR_DTLBH_P_SHIFT val, dtlbh_D = msr_unpack_bit MSR_DTLBH_D_SHIFT val,
     dtlbh_A = msr_unpack_bit MSR_DTLBH_A_SHIFT val, dtlbh_UW = msr_unpack_bit MSR_DTLBH_UW_SHIFT val,
     dtlbh_UR = msr_unpack_bit MSR_DTLBH_UR_SHIFT val, dtlbh_RW = msr_unpack_bit MSR_DTLBH_RW_SHIFT val,
     dtlbh_RR = msr_unpack_bit MSR_DTLBH_RR_SHIFT val, dtlbh_NC = msr_unpack_bit MSR_DTLBH_NC_SHIFT val,
     dtlbh_S = msr_unpack_bit MSR_DTLBH_S_SHIFT val,
     dtlbh_PPN = msr_unpack_field MSR_DTLBH_PPN MSR_DTLBH_PPN_SHIFT val\<rparr>"

text \<open>\<open>for (i = 0; index; index >>= 1, i++) if (index & 1) ...\<close>: the lowest bit set.\<close>

function sr_slot :: "nat \<Rightarrow> msr_index_t \<Rightarrow> nat option" where
  "sr_slot i index =
     (if index = 0 then None else if index AND 1 \<noteq> 0 then Some i else sr_slot (i + 1) (drop_bit 1 index))"
  by pat_completeness auto
termination
proof (relation "measure (\<lambda>(i, index). unat index)", simp, clarsimp)
  fix index :: msr_index_t
  assume "index \<noteq> 0"
  then have "0 < unat index" by (simp add: word_unat_eq_iff)
  then show "unat (drop_bit (Suc 0) index) < unat index"
    using unat_drop_bit [of 1 index] by simp
qed

declare sr_slot.simps [simp del]

section \<open>Writing\<close>

text \<open>The \<open>default\<close> case: the TLB windows, whose ends depend on the TLB sizes, and the scratch registers.\<close>

definition wmsr_default :: "msr_index_t \<Rightarrow> u32 \<Rightarrow> ('cb, 'dv) CPU \<Rightarrow> halt + ('cb, 'dv) CPU" where
  "wmsr_default index val cpu =
     (let r = cpu_msr cpu; i = int (unat index); win = (\<lambda>base n. i \<ge> base \<and> i < base + n) in
      if win 0x300 (immu_tlb_count cpu) then
        on_msr (\<lambda>r. bnd (updE (ITLBL r) (nat (i - 0x300)) (itlbl_unpack val)) (\<lambda>t. Inr (r\<lparr>ITLBL := t\<rparr>))) cpu
      else if win 0x380 (immu_tlb_count cpu) then
        on_msr (\<lambda>r. bnd (updE (ITLBH r) (nat (i - 0x380)) (itlbh_unpack val)) (\<lambda>t. Inr (r\<lparr>ITLBH := t\<rparr>))) cpu
      else if win 0x500 (dmmu_tlb_count cpu) then
        on_msr (\<lambda>r. bnd (updE (DTLBL r) (nat (i - 0x500)) (dtlbl_unpack val)) (\<lambda>t. Inr (r\<lparr>DTLBL := t\<rparr>))) cpu
      else if win 0x580 (dmmu_tlb_count cpu) then
        on_msr (\<lambda>r. bnd (updE (DTLBH r) (nat (i - 0x580)) (dtlbh_unpack val)) (\<lambda>t. Inr (r\<lparr>DTLBH := t\<rparr>))) cpu
      else if index \<ge> MSR_BANK_SR \<and> index \<le> MSR_SR_MAX then
        (case sr_slot 0 (index - MSR_BANK_SR) of
           Some k \<Rightarrow> on_msr (\<lambda>r. bnd (updE (SR r) k val) (\<lambda>s. Inr (r\<lparr>SR := s\<rparr>))) cpu
         | None \<Rightarrow> Inl (Panic 1))
      else Inl (Panic 1))"

definition set_msr :: "(msr_s \<Rightarrow> msr_s) \<Rightarrow> ('cb, 'dv) CPU \<Rightarrow> halt + ('cb, 'dv) CPU" where
  "set_msr f cpu = Inr (cpu\<lparr>cpu_msr := f (cpu_msr cpu)\<rparr>)"

definition wmsr :: "('cb, 'dv) vtable \<Rightarrow> msr_index_t \<Rightarrow> cpu_word_t \<Rightarrow> ('cb, 'dv) CPU \<Rightarrow> halt + ('cb, 'dv) CPU" where
  "wmsr vt index val cpu =
     (if index = MSR_DBGR_NUMPORT then
        Inr (if enable_dbg cpu then cpu\<lparr>cpu_out := cpu_out cpu @ [DebugNum val (cpu_pc cpu)]\<rparr> else cpu)
      else if index = MSR_DBGR_MSGPORT then
        Inr (if enable_dbg cpu then cpu\<lparr>cpu_out := cpu_out cpu @ [DebugChar (ucast val)]\<rparr> else cpu)
      else if psr_RM (PSR (cpu_msr cpu)) then
        (if index = MSR_PSR then set_msr (\<lambda>r. r\<lparr>PSR := psr_unpack val\<rparr>) cpu
         else if index = MSR_EPSR then set_msr (\<lambda>r. r\<lparr>EPSR := psr_unpack val\<rparr>) cpu
         else if index = MSR_EPC then set_msr (\<lambda>r. r\<lparr>EPC := val\<rparr>) cpu
         else if index = MSR_ELSA then set_msr (\<lambda>r. r\<lparr>ELSA := val\<rparr>) cpu
         else if index = MSR_EVECT then set_msr (\<lambda>r. r\<lparr>EVECT := val\<rparr>) cpu
         else if index = MSR_ICINV then bnd (invalidate val (icache cpu)) (\<lambda>c. Inr (cpu\<lparr>icache := c\<rparr>))
         else if index = MSR_DCINV then bnd (invalidate val (dcache cpu)) (\<lambda>c. Inr (cpu\<lparr>dcache := c\<rparr>))
         else if index = MSR_DCFLS then on_dcache (flush (phy_ops vt) val) cpu
         else if index = MSR_TSR then set_msr (\<lambda>r. r\<lparr>TSR := val\<rparr>) cpu
         else if index = MSR_TCR then on_msr (\<lambda>r. tsc_update_tcr (IRQ_TSC cpu) (r\<lparr>TCR := tcr_unpack val\<rparr>)) cpu
         else if index = MSR_IMR then set_msr (\<lambda>r. r\<lparr>IMR := val\<rparr>) cpu
         else wmsr_default index val cpu)
      else Inr cpu)"

section \<open>Reading\<close>

abbreviation (input) cpuid_ver :: u32 where "cpuid_ver \<equiv> 1"
abbreviation (input) cpuid_rev :: u32 where "cpuid_rev \<equiv> 0"

definition cpuid_value :: "('cb, 'dv) CPU \<Rightarrow> u32" where
  "cpuid_value cpu = msr_pack_field MSR_CPUID_VER MSR_CPUID_VER_SHIFT cpuid_ver
     OR msr_pack_field MSR_CPUID_REV MSR_CPUID_REV_SHIFT cpuid_rev
     OR msr_pack_bit MSR_CPUID_FIMM_SHIFT True OR msr_pack_bit MSR_CPUID_FDMM_SHIFT True
     OR msr_pack_bit MSR_CPUID_FICA_SHIFT (enable_icache cpu) OR msr_pack_bit MSR_CPUID_FDCA_SHIFT (enable_dcache cpu)
     OR msr_pack_bit MSR_CPUID_FDBG_SHIFT (enable_dbg cpu) OR msr_pack_bit MSR_CPUID_FFPU_SHIFT False
     OR msr_pack_bit MSR_CPUID_FIRQC_SHIFT True OR msr_pack_bit MSR_CPUID_FTSC_SHIFT True"

definition rmsr :: "msr_index_t \<Rightarrow> ('cb, 'dv) CPU \<Rightarrow> halt + cpu_word_t" where
  "rmsr index cpu =
     (let r = cpu_msr cpu in
      if psr_RM (PSR r) then
        (if index = MSR_PSR then Inr (psr_pack (PSR r))
         else if index = MSR_CPUID then Inr (cpuid_value cpu)
         else if index = MSR_EPSR then Inr (psr_pack (EPSR r))
         else if index = MSR_EPC then Inr (EPC r)
         else if index = MSR_ELSA then Inr (ELSA r)
         else if index = MSR_EVECT then Inr (EVECT r)
         else if index = MSR_COREID then Inr 0
         else if index = MSR_IMMID then Inr (msr_pack_field MSR_IMMID_STLB MSR_IMMID_STLB_SHIFT (of_nat (immu_tlb_count_log2 cpu)))
         else if index = MSR_DMMID then Inr (msr_pack_field MSR_DMMID_STLB MSR_DMMID_STLB_SHIFT (of_nat (dmmu_tlb_count_log2 cpu)))
         else if index = MSR_ICID then
           Inr (msr_pack_field MSR_ICID_SS MSR_ICID_SS_SHIFT (of_nat (icache_p_sets cpu))
             OR msr_pack_field MSR_ICID_SL MSR_ICID_SL_SHIFT (of_nat (icache_p_line cpu))
             OR msr_pack_field MSR_ICID_SW MSR_ICID_SW_SHIFT (of_nat (icache_p_ways cpu)))
         else if index = MSR_DCID then
           Inr (msr_pack_field MSR_DCID_SS MSR_DCID_SS_SHIFT (of_nat (dcache_p_sets cpu))
             OR msr_pack_field MSR_DCID_SL MSR_DCID_SL_SHIFT (of_nat (dcache_p_line cpu))
             OR msr_pack_field MSR_DCID_SW MSR_DCID_SW_SHIFT (of_nat (dcache_p_ways cpu)))
         else if index = MSR_TSR then Inr (TSR r)
         else if index = MSR_TCR then Inr (tcr_pack (TCR r))
         else if index = MSR_IMR then Inr (IMR r)
         else if index = MSR_IRR then Inr (IRR r)
         else if index = MSR_DBGR_TSCL then Inr 0xffffffff
         else if index = MSR_DBGR_TSCH then Inr 0xffffffff
         else if index \<ge> MSR_BANK_SR \<and> index \<le> MSR_SR_MAX then
           (case sr_slot 0 (index - MSR_BANK_SR) of
              Some k \<Rightarrow> nthE (SR r) k
            | None \<Rightarrow> Inl (Panic 1))
         else Inl (Panic 1))
      else Inr 0)"

section \<open>Setters of the harness\<close>

definition msr_set_cpuid :: "bool \<Rightarrow> ('cb, 'dv) CPU \<Rightarrow> ('cb, 'dv) CPU" where
  "msr_set_cpuid support_dbg cpu = cpu\<lparr>enable_dbg := support_dbg\<rparr>"

definition msr_set_tsr :: "cpu_unsigned_word_t \<Rightarrow> ('cb, 'dv) CPU \<Rightarrow> ('cb, 'dv) CPU" where
  "msr_set_tsr val cpu = cpu\<lparr>cpu_msr := (cpu_msr cpu)\<lparr>TSR := val\<rparr>\<rparr>"

section \<open>Packing is a round trip\<close>

lemma unpack_bit_iff: "sh < 32 \<Longrightarrow> msr_unpack_bit sh val \<longleftrightarrow> bit val sh"
proof -
  assume "sh < 32"
  then have "val AND push_bit sh 1 \<noteq> 0 \<longleftrightarrow> bit val sh"
    by (auto simp: word_nonzero_iff bit_simps)
  then show ?thesis by (simp add: msr_unpack_bit_def)
qed

lemma bit_pack_bit: "bit (msr_pack_bit sh b) n \<longleftrightarrow> b \<and> n = sh \<and> n < 32"
  by (auto simp: msr_pack_bit_def bit_simps)

lemma psr_unpack_pack: "psr_unpack (psr_pack p) = p"
  by (simp add: psr_unpack_def psr_pack_def unpack_bit_iff bit_or_iff bit_pack_bit)

lemma bit_psr_mask: "bit (0x3fe :: u32) n \<longleftrightarrow> 1 \<le> n \<and> n \<le> 9"
proof -
  have m: "(0x3fe :: u32) = push_bit 1 (mask 9)" by (simp add: mask_eq_exp_minus_1)
  show ?thesis unfolding m bit_push_bit_iff bit_mask_iff by auto
qed

lemma psr_pack_unpack: "psr_pack (psr_unpack v) = v AND 0x3fe"
proof (rule bit_eqI)
  fix n :: nat
  have "n = 1 \<or> n = 2 \<or> n = 3 \<or> n = 4 \<or> n = 5 \<or> n = 6 \<or> n = 7 \<or> n = 8 \<or> n = 9 \<or> \<not> (1 \<le> n \<and> n \<le> 9)"
    by arith
  then show "bit (psr_pack (psr_unpack v)) n \<longleftrightarrow> bit (v AND 0x3fe) n"
    unfolding psr_pack_def psr_unpack_def psr_s.simps bit_or_iff bit_and_iff bit_psr_mask bit_pack_bit
    by (elim disjE) (simp_all add: unpack_bit_iff, auto)
qed

lemma tcr_pack_unpack: "tcr_pack (tcr_unpack v) = v AND 0x7fffffff"
proof -
  have m: "(0xfffffff :: u32) = mask 28" "(0x7fffffff :: u32) = mask 31" by (simp_all add: mask_eq_exp_minus_1)
  show ?thesis
  proof (rule bit_eqI)
    fix n :: nat
    have "n < 31 \<longleftrightarrow> n < 28 \<or> n \<in> {28, 29, 30}" by auto
    then show "bit (tcr_pack (tcr_unpack v)) n \<longleftrightarrow> bit (v AND 0x7fffffff) n"
      unfolding tcr_unpack_def tcr_pack_def msr_pack_field_def msr_unpack_field_def m
      by (auto simp: unpack_bit_iff bit_simps bit_pack_bit)
  qed
qed

section \<open>Reading what was written\<close>

text \<open>
  Specification: the registers that \<open>isa.hh\<close> marks as readable and writable other than the TLB entries (\<open>PSR\<close>, \<open>EPSR\<close>, \<open>EPC\<close>, \<open>ELSA\<close>,
  \<open>EVECT\<close>, \<open>IMR\<close>, \<open>TSR\<close>, \<open>TCR\<close>) and the four scratch registers, with the bits they have.
\<close>

definition msr_rw_mask :: "msr_index_t \<Rightarrow> u32 option" where
  "msr_rw_mask index =
     (if index = MSR_PSR \<or> index = MSR_EPSR then Some 0x3fe
      else if index = MSR_TCR then Some 0x7fffffff
      else if index \<in> {MSR_EPC, MSR_ELSA, MSR_EVECT, MSR_TSR, MSR_IMR, 0x1001, 0x1002, 0x1004, 0x1008}
      then Some 0xffffffff else None)"

lemma sr_slots: "sr_slot 0 1 = Some 0" "sr_slot 0 2 = Some 1" "sr_slot 0 4 = Some 2" "sr_slot 0 8 = Some 3"
  by code_simp+

lemma and_all_ones: "v AND 0xffffffff = v" for v :: u32
proof -
  have "(0xffffffff :: u32) = mask 32" by (simp add: mask_eq_exp_minus_1)
  then show ?thesis by (simp only: take_bit_eq_mask [symmetric]) (simp add: take_bit_word_eq_self)
qed

text \<open>The TLB windows have their architectural size of at most 128 entries.\<close>

definition tlb_sizes_ok :: "('cb, 'dv) CPU \<Rightarrow> bool" where
  "tlb_sizes_ok cpu \<longleftrightarrow> 0 < immu_tlb_count cpu \<and> immu_tlb_count cpu \<le> 128 \<and>
     0 < dmmu_tlb_count cpu \<and> dmmu_tlb_count cpu \<le> 128"

lemma wmsr_sr:
  assumes "tlb_sizes_ok cpu" "psr_RM (PSR (cpu_msr cpu))" "length (SR (cpu_msr cpu)) = 4" "k < 4"
    "index = 0x1000 + 2 ^ k"
  shows "wmsr vt index v cpu = Inr (cpu\<lparr>cpu_msr := (cpu_msr cpu)\<lparr>SR := (SR (cpu_msr cpu))[k := v]\<rparr>\<rparr>)"
    "rmsr index cpu = Inr (SR (cpu_msr cpu) ! k)"
proof -
  have "k = 0 \<or> k = 1 \<or> k = 2 \<or> k = 3" using assms(4) by auto
  then have "wmsr vt index v cpu = Inr (cpu\<lparr>cpu_msr := (cpu_msr cpu)\<lparr>SR := (SR (cpu_msr cpu))[k := v]\<rparr>\<rparr>) \<and>
    rmsr index cpu = Inr (SR (cpu_msr cpu) ! k)"
    using assms
    by (elim disjE) (simp_all add: wmsr_def wmsr_default_def rmsr_def tlb_sizes_ok_def Let_def on_msr_def sr_slots
        word_le_nat_alt del: One_nat_def)
  then show "wmsr vt index v cpu = Inr (cpu\<lparr>cpu_msr := (cpu_msr cpu)\<lparr>SR := (SR (cpu_msr cpu))[k := v]\<rparr>\<rparr>)"
    "rmsr index cpu = Inr (SR (cpu_msr cpu) ! k)" by blast+
qed

lemma wmsr_rmsr_rw:
  assumes "psr_RM (PSR (cpu_msr cpu))" and "tlb_sizes_ok cpu" and "length (SR (cpu_msr cpu)) = 4"
    and "0 \<le> IRQ_TSC cpu" and "IRQ_TSC cpu < 32" and "msr_rw_mask index = Some msk"
  shows "\<exists>cpu'. wmsr vt index v cpu = Inr cpu' \<and> psr_RM (PSR (cpu_msr cpu')) = (index = MSR_PSR \<longrightarrow> bit v 4) \<and>
    (psr_RM (PSR (cpu_msr cpu')) \<longrightarrow> rmsr index cpu' = Inr (v AND msk))"
proof -
  consider "index = MSR_PSR" | "index = MSR_TCR"
    | "index \<in> {MSR_EPSR, MSR_EPC, MSR_ELSA, MSR_EVECT, MSR_TSR, MSR_IMR}"
    | k where "k < 4" "index = 0x1000 + 2 ^ k"
  proof -
    have "index \<in> {0x1001, 0x1002, 0x1004, 0x1008} \<Longrightarrow> \<exists>k < 4. index = 0x1000 + 2 ^ k"
      by (auto simp: eval_nat_numeral Ex_less_Suc)
    then show ?thesis using assms(6) that by (auto simp: msr_rw_mask_def split: if_splits)
  qed
  then show ?thesis
  proof cases
    case 1
    have "psr_RM (psr_unpack v) = bit v 4" by (simp add: psr_unpack_def unpack_bit_iff)
    with 1 show ?thesis using assms
      by (simp add: wmsr_def set_msr_def rmsr_def msr_rw_mask_def psr_pack_unpack Let_def)
  next
    case 2
    obtain irr where "irqc_set_interrupt (IRQ_TSC cpu) (tcr_P (tcr_unpack v) \<and> tcr_I (tcr_unpack v))
        (cpu_msr cpu\<lparr>TCR := tcr_unpack v\<rparr>) = Inr (cpu_msr cpu\<lparr>TCR := tcr_unpack v, IRR := irr\<rparr>)"
      using irqc_set_interrupt_valid [OF assms(4,5)] by fastforce
    then show ?thesis using assms 2
      by (simp add: wmsr_def on_msr_def tsc_update_tcr_def rmsr_def msr_rw_mask_def tcr_pack_unpack Let_def)
  next
    case 3
    then show ?thesis using assms
      by (elim insertE) (simp_all add: wmsr_def set_msr_def rmsr_def msr_rw_mask_def psr_pack_unpack and_all_ones Let_def)
  next
    case (4 k)
    have "msk = 0xffffffff \<and> index \<noteq> MSR_PSR"
    proof -
      have "k = 0 \<or> k = 1 \<or> k = 2 \<or> k = 3" using 4(1) by auto
      then show ?thesis using assms(6) 4(2) by (elim disjE) (simp_all add: msr_rw_mask_def del: One_nat_def)
    qed
    then show ?thesis
      using wmsr_sr(1) [OF assms(2,1,3) 4, of vt v] assms(1,3) 4(1)
        wmsr_sr(2) [OF _ _ _ 4, of "cpu\<lparr>cpu_msr := (cpu_msr cpu)\<lparr>SR := (SR (cpu_msr cpu))[k := v]\<rparr>\<rparr>"] assms(2)
      by (simp add: tlb_sizes_ok_def and_all_ones)
  qed
qed

text \<open>The registers of the four TLB tables, also marked as readable and writable.\<close>

definition tlb_register :: "('cb, 'dv) CPU \<Rightarrow> msr_index_t \<Rightarrow> bool" where
  "tlb_register cpu index \<longleftrightarrow>
     (\<exists>s. int s < immu_tlb_count cpu \<and> (unat index = 0x300 + s \<or> unat index = 0x380 + s)) \<or>
     (\<exists>s. int s < dmmu_tlb_count cpu \<and> (unat index = 0x500 + s \<or> unat index = 0x580 + s))"

definition tlb_tables_ok :: "('cb, 'dv) CPU \<Rightarrow> bool" where
  "tlb_tables_ok cpu \<longleftrightarrow> int (length (ITLBL (cpu_msr cpu))) = immu_tlb_count cpu \<and> int (length (ITLBH (cpu_msr cpu))) = immu_tlb_count cpu \<and>
     int (length (DTLBL (cpu_msr cpu))) = dmmu_tlb_count cpu \<and> int (length (DTLBH (cpu_msr cpu))) = dmmu_tlb_count cpu"

lemma tlb_register_range: "tlb_sizes_ok cpu \<Longrightarrow> tlb_register cpu index \<Longrightarrow> 0x300 \<le> unat index \<and> unat index < 0x400 \<or> 0x500 \<le> unat index \<and> unat index < 0x600"
  by (auto simp: tlb_sizes_ok_def tlb_register_def)

lemma rmsr_tlb:
  assumes "psr_RM (PSR (cpu_msr cpu))" and "0x300 \<le> unat index \<and> unat index < 0x400 \<or> 0x500 \<le> unat index \<and> unat index < 0x600"
  shows "rmsr index cpu = Inl (Panic 1)"
proof -
  have w: "(if index = b then x else y) = (if unat index = unat b then x else y)" for b :: u16 and x y :: "halt + cpu_word_t"
    by (simp add: word_unat_eq_iff)
  have sr: "\<not> index \<ge> MSR_BANK_SR" using assms(2) by (auto simp: word_le_nat_alt)
  show ?thesis unfolding rmsr_def w using assms sr by auto
qed

lemma wmsr_tlb:
  assumes "psr_RM (PSR (cpu_msr cpu))" "tlb_sizes_ok cpu" "tlb_tables_ok cpu" "tlb_register cpu index"
  shows "\<exists>r. wmsr vt index v cpu = Inr (cpu\<lparr>cpu_msr := r\<rparr>) \<and> PSR r = PSR (cpu_msr cpu)"
proof -
  note R = tlb_register_range [OF assms(2,4)]
  have w: "(if index = b then x else y) = (if unat index = unat b then x else y)" for b :: u16 and x y :: "halt + ('a, 'b) CPU"
    by (simp add: word_unat_eq_iff)
  have d: "wmsr vt index v cpu = wmsr_default index v cpu" unfolding wmsr_def w using R assms(1) by auto
  have c: "immu_tlb_count cpu \<le> 128" "dmmu_tlb_count cpu \<le> 128" using assms(2) by (simp_all add: tlb_sizes_ok_def)
  consider s where "int s < immu_tlb_count cpu" "unat index = 0x300 + s" | s where "int s < immu_tlb_count cpu" "unat index = 0x380 + s"
    | s where "int s < dmmu_tlb_count cpu" "unat index = 0x500 + s" | s where "int s < dmmu_tlb_count cpu" "unat index = 0x580 + s"
    using assms(4) unfolding tlb_register_def by blast
  then show ?thesis
    unfolding d wmsr_default_def Let_def using assms(3) c by cases (auto simp: on_msr_def tlb_tables_ok_def)
qed

text \<open>
  Claim C30: what software reads back of the registers that \<open>isa.hh\<close> marks as readable and writable and of the scratch registers, in root mode. Writing
  any of them succeeds. A register other than a TLB entry then reads as the written value on the bits it has, unless the write itself left root
  mode (then a read returns 0). A TLB entry is written but cannot be read back: although it is marked as readable, a read of it ends the emulator with exit
  code 1.
\<close>

theorem wmsr_rmsr_roundtrip:
  assumes "psr_RM (PSR (cpu_msr cpu))" and "tlb_sizes_ok cpu" and "tlb_tables_ok cpu" and "length (SR (cpu_msr cpu)) = 4"
    and "0 \<le> IRQ_TSC cpu" and "IRQ_TSC cpu < 32"
  shows "(\<forall>msk. msr_rw_mask index = Some msk \<longrightarrow> (\<exists>cpu'. wmsr vt index v cpu = Inr cpu' \<and>
      psr_RM (PSR (cpu_msr cpu')) = (index = MSR_PSR \<longrightarrow> bit v 4) \<and>
      rmsr index cpu' = Inr (if psr_RM (PSR (cpu_msr cpu')) then v AND msk else 0))) \<and>
    (tlb_register cpu index \<longrightarrow> (\<exists>cpu'. wmsr vt index v cpu = Inr cpu' \<and> psr_RM (PSR (cpu_msr cpu')) \<and> rmsr index cpu' = Inl (Panic 1)))"
proof (intro conjI allI impI)
  fix msk
  assume "msr_rw_mask index = Some msk"
  from wmsr_rmsr_rw [OF assms(1,2,4-6) this] obtain cpu' where c: "wmsr vt index v cpu = Inr cpu'"
    "psr_RM (PSR (cpu_msr cpu')) = (index = MSR_PSR \<longrightarrow> bit v 4)" "psr_RM (PSR (cpu_msr cpu')) \<longrightarrow> rmsr index cpu' = Inr (v AND msk)" by blast
  moreover have "\<not> psr_RM (PSR (cpu_msr cpu')) \<Longrightarrow> rmsr index cpu' = Inr 0" by (simp add: rmsr_def Let_def)
  ultimately show "\<exists>cpu'. wmsr vt index v cpu = Inr cpu' \<and> psr_RM (PSR (cpu_msr cpu')) = (index = MSR_PSR \<longrightarrow> bit v 4) \<and>
      rmsr index cpu' = Inr (if psr_RM (PSR (cpu_msr cpu')) then v AND msk else 0)" by auto
next
  assume t: "tlb_register cpu index"
  from wmsr_tlb [OF assms(1-3) t] obtain r where "wmsr vt index v cpu = Inr (cpu\<lparr>cpu_msr := r\<rparr>)" "PSR r = PSR (cpu_msr cpu)" by blast
  then show "\<exists>cpu'. wmsr vt index v cpu = Inr cpu' \<and> psr_RM (PSR (cpu_msr cpu')) \<and> rmsr index cpu' = Inl (Panic 1)"
    using assms(1) rmsr_tlb [of "cpu\<lparr>cpu_msr := r\<rparr>" index] tlb_register_range [OF assms(2) t] by simp
qed

text \<open>
  Claim C31: outside root mode the registers are out of reach: a write changes nothing but, for the two debug ports, the output,
  and a read returns 0, whatever the register number.
\<close>

theorem msr_user_mode:
  assumes "\<not> psr_RM (PSR (cpu_msr cpu))"
  shows "rmsr index cpu = Inr 0 \<and> (\<exists>ev. wmsr vt index v cpu = Inr (cpu\<lparr>cpu_out := cpu_out cpu @ ev\<rparr>) \<and>
    (ev \<noteq> [] \<longrightarrow> index = MSR_DBGR_NUMPORT \<or> index = MSR_DBGR_MSGPORT))"
proof -
  have none: "cpu\<lparr>cpu_out := cpu_out cpu @ []\<rparr> = cpu" by simp
  consider "index = MSR_DBGR_NUMPORT" | "index = MSR_DBGR_MSGPORT"
    | "index \<noteq> MSR_DBGR_NUMPORT" "index \<noteq> MSR_DBGR_MSGPORT" by blast
  then have "\<exists>ev. wmsr vt index v cpu = Inr (cpu\<lparr>cpu_out := cpu_out cpu @ ev\<rparr>) \<and>
    (ev \<noteq> [] \<longrightarrow> index = MSR_DBGR_NUMPORT \<or> index = MSR_DBGR_MSGPORT)"
  proof cases
    case 1
    then show ?thesis
      by (intro exI [of _ "if enable_dbg cpu then [DebugNum v (cpu_pc cpu)] else []"]) (simp add: wmsr_def)
  next
    case 2
    then show ?thesis
      by (intro exI [of _ "if enable_dbg cpu then [DebugChar (ucast v)] else []"]) (simp add: wmsr_def)
  next
    case 3
    then show ?thesis using assms none by (intro exI [of _ "[]"]) (simp add: wmsr_def)
  qed
  then show ?thesis using assms by (simp add: rmsr_def Let_def)
qed

lemma small_cpu_ok: "tlb_sizes_ok small_cpu" "psr_RM (PSR (cpu_msr small_cpu))" "length (SR (cpu_msr small_cpu)) = 4"
  by (simp_all add: tlb_sizes_ok_def msr_zero_def psr_reset_def)

theorem wmsr_rmsr_roundtrip_witness:
  "psr_RM (PSR (cpu_msr small_cpu)) \<and> tlb_sizes_ok small_cpu \<and> tlb_tables_ok small_cpu \<and>
   (\<exists>cpu'. wmsr undefined MSR_TCR 0xffffffff small_cpu = Inr cpu' \<and> rmsr MSR_TCR cpu' = Inr 0x7fffffff) \<and>
   (\<exists>cpu'. wmsr undefined 0x301 0xffffffff small_cpu = Inr cpu' \<and> rmsr 0x301 cpu' = Inl (Panic 1))"
proof -
  have m: "msr_rw_mask MSR_TCR = Some 0x7fffffff" by (simp add: msr_rw_mask_def)
  have t: "tlb_tables_ok small_cpu" by (simp add: tlb_tables_ok_def msr_zero_def)
  have i: "0 \<le> IRQ_TSC small_cpu" "IRQ_TSC small_cpu < 32" by simp_all
  have e: "tlb_register small_cpu 0x301" by (auto simp: tlb_register_def intro!: exI [of _ 1])
  have "0xffffffff AND 0x7fffffff = (0x7fffffff :: u32)" by simp
  with wmsr_rmsr_roundtrip [OF small_cpu_ok(2,1) t small_cpu_ok(3) i, of MSR_TCR undefined "0xffffffff"] m
  have "\<exists>cpu'. wmsr undefined MSR_TCR 0xffffffff small_cpu = Inr cpu' \<and> rmsr MSR_TCR cpu' = Inr 0x7fffffff" by auto
  moreover have "\<exists>cpu'. wmsr undefined 0x301 0xffffffff small_cpu = Inr cpu' \<and> rmsr 0x301 cpu' = Inl (Panic 1)"
    using wmsr_rmsr_roundtrip [OF small_cpu_ok(2,1) t small_cpu_ok(3) i, of "0x301" undefined "0xffffffff"] e by blast
  ultimately show ?thesis using small_cpu_ok t by blast
qed

theorem msr_user_mode_witness:
  "\<not> psr_RM (PSR (cpu_msr (small_cpu\<lparr>cpu_msr := (msr_zero 2 2)\<lparr>PSR := psr_reset\<lparr>psr_RM := False\<rparr>\<rparr>\<rparr>))) \<and>
   rmsr MSR_CPUID (small_cpu\<lparr>cpu_msr := (msr_zero 2 2)\<lparr>PSR := psr_reset\<lparr>psr_RM := False\<rparr>\<rparr>\<rparr>) = Inr 0"
  using msr_user_mode [of "small_cpu\<lparr>cpu_msr := (msr_zero 2 2)\<lparr>PSR := psr_reset\<lparr>psr_RM := False\<rparr>\<rparr>\<rparr>" MSR_CPUID]
  by simp

section \<open>Filling a TLB entry\<close>

lemma wmsr_dtlb:
  assumes "tlb_sizes_ok cpu" "psr_RM (PSR (cpu_msr cpu))" "int s < dmmu_tlb_count cpu"
  shows "s < length (DTLBL (cpu_msr cpu)) \<Longrightarrow> wmsr vt (0x500 + of_nat s) v cpu =
      Inr (cpu\<lparr>cpu_msr := (cpu_msr cpu)\<lparr>DTLBL := (DTLBL (cpu_msr cpu))[s := dtlbl_unpack v]\<rparr>\<rparr>)"
    "s < length (DTLBH (cpu_msr cpu)) \<Longrightarrow> wmsr vt (0x580 + of_nat s) v cpu =
      Inr (cpu\<lparr>cpu_msr := (cpu_msr cpu)\<lparr>DTLBH := (DTLBH (cpu_msr cpu))[s := dtlbh_unpack v]\<rparr>\<rparr>)"
proof -
  have s: "s < 128" using assms(1,3) by (simp add: tlb_sizes_ok_def)
  have "unat (of_nat s :: u16) = s" using s by (simp add: unat_of_nat)
  then have u: "unat (0x500 + of_nat s :: u16) = 0x500 + s" "unat (0x580 + of_nat s :: u16) = 0x580 + s"
    using s by (simp_all add: unat_word_ariths)
  have w: "(if a = b then x else y) = (if unat a = unat b then x else y)" for a b :: u16 and x y :: "halt + ('a, 'b) CPU"
    by (simp add: word_unat_eq_iff)
  have i: "int s < dmmu_tlb_count cpu" "immu_tlb_count cpu \<le> 128" "dmmu_tlb_count cpu \<le> 128"
    using assms by (simp_all add: tlb_sizes_ok_def)
  show "wmsr vt (0x500 + of_nat s) v cpu =
      Inr (cpu\<lparr>cpu_msr := (cpu_msr cpu)\<lparr>DTLBL := (DTLBL (cpu_msr cpu))[s := dtlbl_unpack v]\<rparr>\<rparr>)"
    if "s < length (DTLBL (cpu_msr cpu))"
    unfolding wmsr_def w u using s i assms(2) that
    by (simp add: wmsr_default_def Let_def u on_msr_def)
  show "wmsr vt (0x580 + of_nat s) v cpu =
      Inr (cpu\<lparr>cpu_msr := (cpu_msr cpu)\<lparr>DTLBH := (DTLBH (cpu_msr cpu))[s := dtlbh_unpack v]\<rparr>\<rparr>)"
    if "s < length (DTLBH (cpu_msr cpu))"
    unfolding wmsr_def w u using s i assms(2) that
    by (simp add: wmsr_default_def Let_def u on_msr_def)
qed

lemma page_mask: "(0xffffe000 :: u32) = push_bit 13 (mask 19)"
  by (simp add: mask_eq_exp_minus_1)

lemma unpack_page: "msr_unpack_field 0xffffe000 13 v = drop_bit 13 v"
  unfolding msr_unpack_field_def page_mask by (rule bit_eqI) (auto simp: bit_simps dest: bit_imp_le_length)

lemma same_page: "va' AND 0xffffe000 = va AND 0xffffe000 \<longleftrightarrow> drop_bit 13 va' = drop_bit 13 va" for va va' :: u32
proof
  assume "va' AND 0xffffe000 = va AND 0xffffe000"
  then have "msr_unpack_field 0xffffe000 13 va' = msr_unpack_field 0xffffe000 13 va" by (simp add: msr_unpack_field_def)
  then show "drop_bit 13 va' = drop_bit 13 va" by (simp add: unpack_page)
next
  have e: "va AND 0xffffe000 = push_bit 13 (drop_bit 13 va)" for va :: u32
    unfolding page_mask by (rule bit_eqI) (auto simp: bit_simps dest: bit_imp_le_length)
  assume "drop_bit 13 va' = drop_bit 13 va"
  then show "va' AND 0xffffe000 = va AND 0xffffe000" by (simp only: e)
qed

text \<open>The two halves of an entry as software writes them.\<close>

lemma dtlbl_unpack_page:
  "dtlbl_V (dtlbl_unpack ((va AND 0xffffe000) OR 1))" "dtlbl_VPN (dtlbl_unpack ((va AND 0xffffe000) OR 1)) = drop_bit 13 va"
proof -
  show "dtlbl_V (dtlbl_unpack ((va AND 0xffffe000) OR 1))" by (simp add: dtlbl_unpack_def unpack_bit_iff bit_or_iff)
  have "drop_bit 13 ((va AND 0xffffe000) OR 1) = drop_bit 13 va"
    unfolding page_mask by (rule bit_eqI) (auto simp: bit_simps dest: bit_imp_le_length)
  then show "dtlbl_VPN (dtlbl_unpack ((va AND 0xffffe000) OR 1)) = drop_bit 13 va" by (simp add: dtlbl_unpack_def unpack_page)
qed

lemma dtlbh_unpack_page: "page_pa (dtlbh_PPN (dtlbh_unpack hi)) va = (hi AND 0xffffe000) OR (va AND 0x1fff)"
proof -
  have "push_bit 13 (drop_bit 13 hi) = hi AND 0xffffe000"
    unfolding page_mask by (rule bit_eqI) (auto simp: bit_simps dest: bit_imp_le_length)
  then show ?thesis by (simp add: page_pa_def dtlbh_unpack_def unpack_page)
qed

text \<open>
  Claim C22: a TLB refill by software works: in root mode, writing the two halves of the data TLB entry for the page of an
  address maps exactly as written. Every address of that page then translates to the page frame of the high half with
  its own offset, or faults when the permission bit for the access is clear in it.
\<close>

theorem dtlb_refill_translates:
  assumes "psr_RM (PSR (cpu_msr cpu))" and "psr_DMME (PSR (cpu_msr cpu))" and "tlb_sizes_ok cpu"
    and "dmmu_tlb_count cpu = 2 ^ k" and "length (DTLBL (cpu_msr cpu)) = 2 ^ k" and "length (DTLBH (cpu_msr cpu)) = 2 ^ k"
  shows "\<exists>cpu1 cpu2. wmsr vt (0x500 + of_nat (unat va div 2 ^ 13 mod 2 ^ k)) ((va AND 0xffffe000) OR 1) cpu = Inr cpu1 \<and>
    wmsr vt (0x580 + of_nat (unat va div 2 ^ 13 mod 2 ^ k)) hi cpu1 = Inr cpu2 \<and>
    (\<forall>va'. va' AND 0xffffe000 = va AND 0xffffe000 \<longrightarrow>
       (\<exists>u. dmmu_translate_vma (dmmu_tlb_count cpu2) seg (cpu_msr cpu2) va' st =
         Inr (if bit hi (if st then 5 else 6) then (0, Some ((hi AND 0xffffe000) OR (va' AND 0x1fff)), u)
              else (- EM_PAGE_FAULT, None, u))))"
proof -
  define s where "s = unat va div 2 ^ 13 mod 2 ^ k"
  let ?lo = "(va AND 0xffffe000) OR 1"
  let ?cpu1 = "cpu\<lparr>cpu_msr := (cpu_msr cpu)\<lparr>DTLBL := (DTLBL (cpu_msr cpu))[s := dtlbl_unpack ?lo]\<rparr>\<rparr>"
  let ?r = "(cpu_msr cpu)\<lparr>DTLBL := (DTLBL (cpu_msr cpu))[s := dtlbl_unpack ?lo],
    DTLBH := (DTLBH (cpu_msr cpu))[s := dtlbh_unpack hi]\<rparr>"
  have s: "s < 2 ^ k" by (simp add: s_def)
  then have si: "int s < dmmu_tlb_count cpu"
    unfolding assms(4) by (metis of_nat_less_iff of_nat_numeral of_nat_power)
  have w1: "wmsr vt (0x500 + of_nat s) ?lo cpu = Inr ?cpu1"
    by (rule wmsr_dtlb(1) [OF assms(3,1) si]) (use assms(5) s in simp)
  have w2: "wmsr vt (0x580 + of_nat s) hi ?cpu1 = Inr (cpu\<lparr>cpu_msr := ?r\<rparr>)"
  proof -
    have "tlb_sizes_ok ?cpu1" using assms(3) by (simp add: tlb_sizes_ok_def)
    from wmsr_dtlb(2) [OF this, of s vt hi] show ?thesis using assms(1,6) s si by simp
  qed
  note lo = dtlbl_unpack_page [of va]
  have tr: "\<exists>u. dmmu_translate_vma (2 ^ k) seg ?r va' st =
      Inr (if bit hi (if st then 5 else 6) then (0, Some ((hi AND 0xffffe000) OR (va' AND 0x1fff)), u)
           else (- EM_PAGE_FAULT, None, u))"
    if "va' AND 0xffffe000 = va AND 0xffffe000" for va'
  proof -
    have vpn: "drop_bit 13 va' = drop_bit 13 va" using that by (simp add: same_page)
    then have slot: "unat va' div 2 ^ 13 = unat va div 2 ^ 13" by (metis unat_drop_bit)
    have "unat (drop_bit 13 va) = unat va div 2 ^ 13" by (simp add: unat_drop_bit)
    moreover have e: "DTLBL ?r ! s = dtlbl_unpack ?lo" "DTLBH ?r ! s = dtlbh_unpack hi" "PSR ?r = PSR (cpu_msr cpu)"
      using assms(5,6) s by simp_all
    moreover have "dtlbh_RW (dtlbh_unpack hi) = bit hi 5" "dtlbh_RR (dtlbh_unpack hi) = bit hi 6"
      by (simp_all add: dtlbh_unpack_def unpack_bit_iff)
    ultimately have l: "dtlb_lookup ?r (2 ^ k) va' st =
        (if bit hi (if st then 5 else 6) then Page (dtlbh_unpack hi) else Fault)"
      unfolding dtlb_lookup_def Let_def slot s_def [symmetric] e lo(2) using assms(1) lo(1) by simp
    have "length (DTLBL ?r) = 2 ^ k" "length (DTLBH ?r) = 2 ^ k" using assms(5,6) by simp_all
    then show ?thesis
      unfolding dmmu_translate_lookup [OF \<open>length (DTLBL ?r) = 2 ^ k\<close> \<open>length (DTLBH ?r) = 2 ^ k\<close>] l e(3)
      using assms(2) by (simp add: dtlbh_unpack_page)
  qed
  show ?thesis unfolding s_def [symmetric]
    by (intro exI [of _ ?cpu1] exI [of _ "cpu\<lparr>cpu_msr := ?r\<rparr>"] conjI w1 w2 allI impI)
      (use tr assms(4) in simp)
qed

text \<open>\<open>small_cpu\<close> with data translation on.\<close>

definition small_cpu_dmm :: "(unit, unit) CPU" where
  "small_cpu_dmm = small_cpu\<lparr>cpu_msr := (msr_zero 2 2)\<lparr>PSR := psr_reset\<lparr>psr_DMME := True\<rparr>\<rparr>\<rparr>"

theorem dtlb_refill_translates_witness:
  "psr_RM (PSR (cpu_msr small_cpu_dmm)) \<and> psr_DMME (PSR (cpu_msr small_cpu_dmm)) \<and> tlb_sizes_ok small_cpu_dmm \<and>
   (\<exists>cpu1 cpu2. wmsr undefined (0x500 + of_nat 1) ((0x2345 AND 0xffffe000) OR 1) small_cpu_dmm = Inr cpu1 \<and>
    wmsr undefined (0x580 + of_nat 1) 0x80004040 cpu1 = Inr cpu2 \<and>
    (\<exists>u. dmmu_translate_vma (dmmu_tlb_count cpu2) True (cpu_msr cpu2) 0x2468 False = Inr (0, Some 0x80004468, u)))"
proof -
  have c: "psr_RM (PSR (cpu_msr small_cpu_dmm))" "psr_DMME (PSR (cpu_msr small_cpu_dmm))" "tlb_sizes_ok small_cpu_dmm"
    "dmmu_tlb_count small_cpu_dmm = 2 ^ 1" "length (DTLBL (cpu_msr small_cpu_dmm)) = 2 ^ 1"
    "length (DTLBH (cpu_msr small_cpu_dmm)) = 2 ^ 1"
    by (simp_all add: small_cpu_dmm_def tlb_sizes_ok_def psr_reset_def msr_zero_def)
  have s: "unat (0x2345 :: u32) div 2 ^ 13 mod 2 ^ 1 = 1" by simp
  have b: "bit (0x80004040 :: u32) 6" "(0x2468 :: u32) AND 0xffffe000 = 0x2345 AND 0xffffe000"
    "(0x80004040 AND 0xffffe000) OR (0x2468 AND 0x1fff) = (0x80004468 :: u32)" by simp_all
  obtain cpu1 cpu2 where w: "wmsr undefined (0x500 + of_nat 1) ((0x2345 AND 0xffffe000) OR 1) small_cpu_dmm = Inr cpu1"
    "wmsr undefined (0x580 + of_nat 1) 0x80004040 cpu1 = Inr cpu2"
    and tr: "\<forall>va'. va' AND 0xffffe000 = 0x2345 AND 0xffffe000 \<longrightarrow>
       (\<exists>u. dmmu_translate_vma (dmmu_tlb_count cpu2) True (cpu_msr cpu2) va' False =
         Inr (if bit (0x80004040 :: u32) (if False then 5 else 6)
              then (0, Some ((0x80004040 AND 0xffffe000) OR (va' AND 0x1fff)), u) else (- EM_PAGE_FAULT, None, u)))"
    using dtlb_refill_translates [OF c, where va = "0x2345" and vt = undefined and hi = "0x80004040" and seg = True
        and st = False, unfolded s] by blast
  from spec [OF tr, of "0x2468"] b have "\<exists>u. dmmu_translate_vma (dmmu_tlb_count cpu2) True (cpu_msr cpu2) 0x2468 False =
      Inr (0, Some 0x80004468, u)" by simp
  with w c(1-3) show ?thesis by blast
qed

end
