(* ===== verification/Cpu.thy ===== *)
theory Cpu
  imports Msr
begin

text \<open>
  The instruction interpreter, \<open>CPU::step\<close> and \<open>CPU::run_step\<close> of \<open>em/csrc/cpu.cc\<close>, one definition per group of cases of its
  \<open>switch\<close>. An execution returns the next program counter, whether control reached the label
  \<open>handle_exception\<close>, and the processor. Signed 32-bit addition, subtraction, multiplication and left shift wrap, as the
  emulator is compiled; a shift count of 32 or more, a division by zero and the quotient of
  \<open>INT_MIN\<close> by -1 are undefined.
\<close>

type_synonym ('cb, 'dv) outcome = "halt + vm_addr_t \<times> bool \<times> ('cb, 'dv) CPU"

record ArchEvent =
  ev_excp :: bool
  ev_insn :: "insn_t option"

section \<open>Leaving an instruction\<close>

definition fetch_next :: "vm_addr_t \<Rightarrow> ('cb, 'dv) CPU \<Rightarrow> ('cb, 'dv) outcome" where
  "fetch_next pc cpu = Inr (pc + INSN_LEN, False, cpu)"

definition exception :: "vm_addr_t \<Rightarrow> vm_addr_t \<Rightarrow> vm_addr_t \<Rightarrow> bool \<Rightarrow> ('cb, 'dv) CPU \<Rightarrow> ('cb, 'dv) outcome" where
  "exception pc vector lsa is_syscall cpu =
     (case raise_exception pc vector lsa is_syscall cpu of (npc, cpu') \<Rightarrow> Inr (npc, True, cpu'))"

section \<open>Arithmetic and logic\<close>

definition shift_count :: "u32 \<Rightarrow> halt + nat" where
  "shift_count c = (if c < 32 then Inr (unat c) else Inl Undefined)"

definition sdivE :: "u32 \<Rightarrow> u32 \<Rightarrow> halt + u32" where
  "sdivE a b = (if b = 0 \<or> (a = 0x80000000 \<and> b = 0xffffffff) then Inl Undefined
                else Inr (word_of_int (sint a sdiv sint b)))"

definition smodE :: "u32 \<Rightarrow> u32 \<Rightarrow> halt + u32" where
  "smodE a b = (if b = 0 \<or> (a = 0x80000000 \<and> b = 0xffffffff) then Inl Undefined
                else Inr (word_of_int (sint a smod sint b)))"

text \<open>The value of a register-register operation, \<open>None\<close> for any other opcode.\<close>

definition alu_reg :: "u16 \<Rightarrow> (u32 \<Rightarrow> u32 \<Rightarrow> halt + u32) option" where
  "alu_reg opc =
     (if opc = INS32_OP_AND then Some (\<lambda>a b. Inr (a AND b))
      else if opc = INS32_OP_OR then Some (\<lambda>a b. Inr (a OR b))
      else if opc = INS32_OP_XOR then Some (\<lambda>a b. Inr (a XOR b))
      else if opc = INS32_OP_LSL then Some (\<lambda>a b. bnd (shift_count b) (\<lambda>n. Inr (push_bit n a)))
      else if opc = INS32_OP_LSR then Some (\<lambda>a b. bnd (shift_count b) (\<lambda>n. Inr (drop_bit n a)))
      else if opc = INS32_OP_ADD then Some (\<lambda>a b. Inr (a + b))
      else if opc = INS32_OP_SUB then Some (\<lambda>a b. Inr (a - b))
      else if opc = INS32_OP_ASR then Some (\<lambda>a b. bnd (shift_count b) (\<lambda>n. Inr (signed_drop_bit n a)))
      else if opc = INS32_OP_MUL then Some (\<lambda>a b. Inr (a * b))
      else if opc = INS32_OP_DIV then Some sdivE
      else if opc = INS32_OP_DIVU then Some (\<lambda>a b. if b = 0 then Inl Undefined else Inr (a div b))
      else if opc = INS32_OP_MOD then Some smodE
      else if opc = INS32_OP_MODU then Some (\<lambda>a b. if b = 0 then Inl Undefined else Inr (a mod b))
      else None)"

definition exec_alu_reg ::
  "(u32 \<Rightarrow> u32 \<Rightarrow> halt + u32) \<Rightarrow> vm_addr_t \<Rightarrow> decoded \<Rightarrow> ('cb, 'dv) CPU \<Rightarrow> ('cb, 'dv) outcome" where
  "exec_alu_reg f pc d cpu =
     bnd (get_reg (rs1 d) cpu) (\<lambda>a. bnd (get_reg (rs2 d) cpu) (\<lambda>b.
     bnd (f a b) (\<lambda>v. bnd (set_reg (rd d) v cpu) (fetch_next pc))))"

text \<open>
  Operations with an immediate: \<open>uimm15\<close> is zero-extended by the conversion to \<open>int32_t\<close>, \<open>simm15\<close> sign-extended.
\<close>

definition alu_imm :: "decoded \<Rightarrow> (u32 \<Rightarrow> halt + u32) option" where
  "alu_imm d =
     (let opc = opcode d; u = ucast (uimm15 d) :: u32; s = scast (simm15 d) :: u32 in
      if opc = INS32_OP_AND_I then Some (\<lambda>a. Inr (a AND u))
      else if opc = INS32_OP_OR_I then Some (\<lambda>a. Inr (a OR u))
      else if opc = INS32_OP_XOR_I then Some (\<lambda>a. Inr (a XOR s))
      else if opc = INS32_OP_LSL_I then Some (\<lambda>a. bnd (shift_count u) (\<lambda>n. Inr (push_bit n a)))
      else if opc = INS32_OP_LSR_I then Some (\<lambda>a. bnd (shift_count u) (\<lambda>n. Inr (drop_bit n a)))
      else if opc = INS32_OP_ADD_I then Some (\<lambda>a. Inr (a + s))
      else if opc = INS32_OP_ASR_I then Some (\<lambda>a. bnd (shift_count u) (\<lambda>n. Inr (signed_drop_bit n a)))
      else None)"

definition exec_alu_imm ::
  "(u32 \<Rightarrow> halt + u32) \<Rightarrow> vm_addr_t \<Rightarrow> decoded \<Rightarrow> ('cb, 'dv) CPU \<Rightarrow> ('cb, 'dv) outcome" where
  "exec_alu_imm f pc d cpu =
     bnd (get_reg (rs1 d) cpu) (\<lambda>a. bnd (f a) (\<lambda>v. bnd (set_reg (rd d) v cpu) (fetch_next pc)))"

definition exec_MHI :: "vm_addr_t \<Rightarrow> decoded \<Rightarrow> ('cb, 'dv) CPU \<Rightarrow> ('cb, 'dv) outcome" where
  "exec_MHI pc d cpu = bnd (set_reg (rd d) (push_bit 15 (uimm17 d)) cpu) (fetch_next pc)"

section \<open>Jumps and branches\<close>

definition push_ras :: "vm_addr_t \<Rightarrow> vm_addr_t \<Rightarrow> ('cb, 'dv) CPU \<Rightarrow> halt + ('cb, 'dv) CPU" where
  "push_ras pc npc cpu = bnd (ras_push pc npc (cpu_ras cpu)) (\<lambda>r. Inr (cpu\<lparr>cpu_ras := r\<rparr>))"

definition exec_JMP :: "vm_addr_t \<Rightarrow> decoded \<Rightarrow> ('cb, 'dv) CPU \<Rightarrow> ('cb, 'dv) outcome" where
  "exec_JMP pc d cpu =
     bnd (set_reg (rd d) (pc + INSN_LEN) cpu) (\<lambda>cpu1.
     bnd (get_reg (rs1 d) cpu1) (\<lambda>pc_nxt.
     let cpu2 = (if rs1 d = ADDR_RLNK then cpu1\<lparr>cpu_ras := ras_pop (cpu_ras cpu1)\<rparr> else cpu1) in
     bnd (if rd d = ADDR_RLNK then push_ras pc pc_nxt cpu2 else Inr cpu2) (\<lambda>cpu3.
     Inr (pc_nxt, False, cpu3))))"

definition exec_JMP_I :: "vm_addr_t \<Rightarrow> decoded \<Rightarrow> ('cb, 'dv) CPU \<Rightarrow> ('cb, 'dv) outcome" where
  "exec_JMP_I pc d cpu = Inr (pc + rel25_sig_ext (rel25 d), False, cpu)"

definition exec_JMP_I_LNK :: "vm_addr_t \<Rightarrow> decoded \<Rightarrow> ('cb, 'dv) CPU \<Rightarrow> ('cb, 'dv) outcome" where
  "exec_JMP_I_LNK pc d cpu =
     bnd (set_reg ADDR_RLNK (pc + INSN_LEN) cpu) (\<lambda>cpu1.
     let pc_nxt = pc + rel25_sig_ext (rel25 d) in
     bnd (push_ras pc pc_nxt cpu1) (\<lambda>cpu2. Inr (pc_nxt, False, cpu2)))"

definition branch_cc :: "u16 \<Rightarrow> (u32 \<Rightarrow> u32 \<Rightarrow> bool) option" where
  "branch_cc opc =
     (if opc = INS32_OP_BEQ then Some (\<lambda>a b. a = b)
      else if opc = INS32_OP_BNE then Some (\<lambda>a b. a \<noteq> b)
      else if opc = INS32_OP_BGT then Some (\<lambda>a b. sint a > sint b)
      else if opc = INS32_OP_BGTU then Some (\<lambda>a b. a > b)
      else if opc = INS32_OP_BLE then Some (\<lambda>a b. sint a \<le> sint b)
      else if opc = INS32_OP_BLEU then Some (\<lambda>a b. a \<le> b)
      else None)"

definition exec_branch ::
  "(u32 \<Rightarrow> u32 \<Rightarrow> bool) \<Rightarrow> vm_addr_t \<Rightarrow> decoded \<Rightarrow> ('cb, 'dv) CPU \<Rightarrow> ('cb, 'dv) outcome" where
  "exec_branch cc pc d cpu =
     bnd (get_reg (rs1 d) cpu) (\<lambda>a. bnd (get_reg (rd d) cpu) (\<lambda>b.
     if cc a b then Inr (pc + rel15_sig_ext (rel15 d), False, cpu) else fetch_next pc cpu))"

section \<open>Loads and stores\<close>

definition effective_va :: "decoded \<Rightarrow> ('cb, 'dv) CPU \<Rightarrow> halt + vm_addr_t" where
  "effective_va d cpu = bnd (get_reg (rs1 d) cpu) (\<lambda>a. Inr (a + scast (simm15 d)))"

definition aligned_va ::
  "vm_addr_t \<Rightarrow> vm_addr_t \<Rightarrow> vm_addr_t \<Rightarrow> ('cb, 'dv) CPU \<Rightarrow> ('cb, 'dv) outcome \<Rightarrow> ('cb, 'dv) outcome" where
  "aligned_va pc va sz cpu k =
     bnd (check_vma_align va sz) (\<lambda>r. if r < 0 then exception pc (vect_EALIGN cpu) va False cpu else k)"

definition translated ::
  "vm_addr_t \<Rightarrow> vm_addr_t \<Rightarrow> bool \<Rightarrow> ('cb, 'dv) CPU \<Rightarrow> (phy_addr_t \<Rightarrow> bool \<Rightarrow> ('cb, 'dv) outcome) \<Rightarrow> ('cb, 'dv) outcome" where
  "translated pc va st cpu k =
     bnd (dmmu_translate_vma (dmmu_tlb_count cpu) (dmmu_enable_uncached_seg cpu) (cpu_msr cpu) va st) (\<lambda>(ret, pa, uncached).
     if ret = - EM_PAGE_FAULT then exception pc (vect_EDPF cpu) va False cpu
     else if ret = - EM_TLB_MISS then exception pc (vect_EDTM cpu) va False cpu
     else k (case pa of Some p \<Rightarrow> p | None \<Rightarrow> 0) uncached)"

definition data_read32 :: "('cb, 'dv) vtable \<Rightarrow> phy_addr_t \<Rightarrow> bool \<Rightarrow> ('cb, 'dv) CPU \<Rightarrow> halt + u32 \<times> ('cb, 'dv) CPU" where
  "data_read32 vt pa uncached cpu =
     (if uncached then from_bus (phy_readm32 vt pa) cpu else from_dcache (cache_readm32 (phy_ops vt) pa) cpu)"

definition data_read16 :: "('cb, 'dv) vtable \<Rightarrow> phy_addr_t \<Rightarrow> bool \<Rightarrow> ('cb, 'dv) CPU \<Rightarrow> halt + u16 \<times> ('cb, 'dv) CPU" where
  "data_read16 vt pa uncached cpu =
     (if uncached then from_bus (phy_readm16 vt pa) cpu else from_dcache (cache_readm16 (phy_ops vt) pa) cpu)"

definition data_read8 :: "('cb, 'dv) vtable \<Rightarrow> phy_addr_t \<Rightarrow> bool \<Rightarrow> ('cb, 'dv) CPU \<Rightarrow> halt + u8 \<times> ('cb, 'dv) CPU" where
  "data_read8 vt pa uncached cpu =
     (if uncached then from_bus (phy_readm8 vt pa) cpu else from_dcache (cache_readm8 (phy_ops vt) pa) cpu)"

definition data_write32 :: "('cb, 'dv) vtable \<Rightarrow> phy_addr_t \<Rightarrow> bool \<Rightarrow> u32 \<Rightarrow> ('cb, 'dv) CPU \<Rightarrow> halt + ('cb, 'dv) CPU" where
  "data_write32 vt pa uncached v cpu =
     (if uncached then on_bus (phy_writem32 vt pa v) cpu else on_dcache (cache_writem32 (phy_ops vt) pa v) cpu)"

definition data_write16 :: "('cb, 'dv) vtable \<Rightarrow> phy_addr_t \<Rightarrow> bool \<Rightarrow> u16 \<Rightarrow> ('cb, 'dv) CPU \<Rightarrow> halt + ('cb, 'dv) CPU" where
  "data_write16 vt pa uncached v cpu =
     (if uncached then on_bus (phy_writem16 vt pa v) cpu else on_dcache (cache_writem16 (phy_ops vt) pa v) cpu)"

definition data_write8 :: "('cb, 'dv) vtable \<Rightarrow> phy_addr_t \<Rightarrow> bool \<Rightarrow> u8 \<Rightarrow> ('cb, 'dv) CPU \<Rightarrow> halt + ('cb, 'dv) CPU" where
  "data_write8 vt pa uncached v cpu =
     (if uncached then on_bus (phy_writem8 vt pa v) cpu else on_dcache (cache_writem8 (phy_ops vt) pa v) cpu)"

definition exec_LDWU :: "('cb, 'dv) vtable \<Rightarrow> vm_addr_t \<Rightarrow> decoded \<Rightarrow> ('cb, 'dv) CPU \<Rightarrow> ('cb, 'dv) outcome" where
  "exec_LDWU vt pc d cpu =
     bnd (effective_va d cpu) (\<lambda>va. aligned_va pc va 4 cpu (translated pc va False cpu (\<lambda>pa uncached.
     bnd (data_read32 vt pa uncached cpu) (\<lambda>(readout, cpu1).
     bnd (set_reg (rd d) readout cpu1) (fetch_next pc)))))"

definition exec_STW :: "('cb, 'dv) vtable \<Rightarrow> vm_addr_t \<Rightarrow> decoded \<Rightarrow> ('cb, 'dv) CPU \<Rightarrow> ('cb, 'dv) outcome" where
  "exec_STW vt pc d cpu =
     bnd (effective_va d cpu) (\<lambda>va. aligned_va pc va 4 cpu (translated pc va True cpu (\<lambda>pa uncached.
     bnd (get_reg (rd d) cpu) (\<lambda>v.
     bnd (data_write32 vt pa uncached v cpu) (fetch_next pc)))))"

definition exec_LDHU :: "('cb, 'dv) vtable \<Rightarrow> vm_addr_t \<Rightarrow> decoded \<Rightarrow> ('cb, 'dv) CPU \<Rightarrow> ('cb, 'dv) outcome" where
  "exec_LDHU vt pc d cpu =
     bnd (effective_va d cpu) (\<lambda>va. aligned_va pc va 2 cpu (translated pc va False cpu (\<lambda>pa uncached.
     bnd (data_read16 vt pa uncached cpu) (\<lambda>(h, cpu1).
     bnd (set_reg (rd d) (ucast h) cpu1) (fetch_next pc)))))"

definition exec_LDH :: "('cb, 'dv) vtable \<Rightarrow> vm_addr_t \<Rightarrow> decoded \<Rightarrow> ('cb, 'dv) CPU \<Rightarrow> ('cb, 'dv) outcome" where
  "exec_LDH vt pc d cpu =
     bnd (effective_va d cpu) (\<lambda>va. aligned_va pc va 2 cpu (translated pc va False cpu (\<lambda>pa uncached.
     bnd (data_read16 vt pa uncached cpu) (\<lambda>(h, cpu1).
     bnd (set_reg (rd d) ((ucast h XOR 0x8000) - 0x8000) cpu1) (fetch_next pc)))))"

definition exec_STH :: "('cb, 'dv) vtable \<Rightarrow> vm_addr_t \<Rightarrow> decoded \<Rightarrow> ('cb, 'dv) CPU \<Rightarrow> ('cb, 'dv) outcome" where
  "exec_STH vt pc d cpu =
     bnd (effective_va d cpu) (\<lambda>va. aligned_va pc va 2 cpu (translated pc va True cpu (\<lambda>pa uncached.
     bnd (get_reg (rd d) cpu) (\<lambda>v.
     bnd (data_write16 vt pa uncached (ucast v) cpu) (fetch_next pc)))))"

definition exec_LDBU :: "('cb, 'dv) vtable \<Rightarrow> vm_addr_t \<Rightarrow> decoded \<Rightarrow> ('cb, 'dv) CPU \<Rightarrow> ('cb, 'dv) outcome" where
  "exec_LDBU vt pc d cpu =
     bnd (effective_va d cpu) (\<lambda>va. translated pc va False cpu (\<lambda>pa uncached.
     bnd (data_read8 vt pa uncached cpu) (\<lambda>(b, cpu1).
     bnd (set_reg (rd d) (ucast b) cpu1) (fetch_next pc))))"

definition exec_LDB :: "('cb, 'dv) vtable \<Rightarrow> vm_addr_t \<Rightarrow> decoded \<Rightarrow> ('cb, 'dv) CPU \<Rightarrow> ('cb, 'dv) outcome" where
  "exec_LDB vt pc d cpu =
     bnd (effective_va d cpu) (\<lambda>va. translated pc va False cpu (\<lambda>pa uncached.
     bnd (data_read8 vt pa uncached cpu) (\<lambda>(b, cpu1).
     bnd (set_reg (rd d) ((ucast b XOR 0x80) - 0x80) cpu1) (fetch_next pc))))"

definition exec_STB :: "('cb, 'dv) vtable \<Rightarrow> vm_addr_t \<Rightarrow> decoded \<Rightarrow> ('cb, 'dv) CPU \<Rightarrow> ('cb, 'dv) outcome" where
  "exec_STB vt pc d cpu =
     bnd (effective_va d cpu) (\<lambda>va. translated pc va True cpu (\<lambda>pa uncached.
     bnd (get_reg (rd d) cpu) (\<lambda>v.
     bnd (data_write8 vt pa uncached (ucast v) cpu) (fetch_next pc))))"

section \<open>System instructions\<close>

definition exec_SYSCALL :: "vm_addr_t \<Rightarrow> decoded \<Rightarrow> ('cb, 'dv) CPU \<Rightarrow> ('cb, 'dv) outcome" where
  "exec_SYSCALL pc d cpu =
     (if uimm15 d = 0x90d then Inl (Panic 0)
      else if uimm15 d = 0xbad then Inl (Panic 1)
      else exception pc (vect_ESYSCALL cpu) 0 True cpu)"

definition exec_RETE :: "('cb, 'dv) CPU \<Rightarrow> ('cb, 'dv) outcome" where
  "exec_RETE cpu =
     (let r = cpu_msr cpu in Inr (EPC r, True, cpu\<lparr>cpu_msr := r\<lparr>PSR := EPSR r\<rparr>\<rparr>))"

definition msr_operand :: "decoded \<Rightarrow> ('cb, 'dv) CPU \<Rightarrow> halt + msr_index_t" where
  "msr_operand d cpu = bnd (get_reg (rs1 d) cpu) (\<lambda>a. Inr (ucast (a OR ucast (uimm15 d))))"

definition exec_WMSR :: "('cb, 'dv) vtable \<Rightarrow> vm_addr_t \<Rightarrow> decoded \<Rightarrow> ('cb, 'dv) CPU \<Rightarrow> ('cb, 'dv) outcome" where
  "exec_WMSR vt pc d cpu =
     bnd (msr_operand d cpu) (\<lambda>index. bnd (get_reg (rd d) cpu) (\<lambda>v.
     bnd (wmsr vt index v cpu) (fetch_next pc)))"

definition exec_RMSR :: "vm_addr_t \<Rightarrow> decoded \<Rightarrow> ('cb, 'dv) CPU \<Rightarrow> ('cb, 'dv) outcome" where
  "exec_RMSR pc d cpu =
     bnd (msr_operand d cpu) (\<lambda>index. bnd (rmsr index cpu) (\<lambda>v.
     bnd (set_reg (rd d) v cpu) (fetch_next pc)))"

section \<open>One instruction\<close>

definition exec_insn :: "('cb, 'dv) vtable \<Rightarrow> vm_addr_t \<Rightarrow> decoded \<Rightarrow> ('cb, 'dv) CPU \<Rightarrow> ('cb, 'dv) outcome" where
  "exec_insn vt pc d cpu =
     (let opc = opcode d in
      case alu_reg opc of Some f \<Rightarrow> exec_alu_reg f pc d cpu | None \<Rightarrow>
      case alu_imm d of Some f \<Rightarrow> exec_alu_imm f pc d cpu | None \<Rightarrow>
      case branch_cc opc of Some cc \<Rightarrow> exec_branch cc pc d cpu | None \<Rightarrow>
      if opc = INS32_OP_JMP then exec_JMP pc d cpu
      else if opc = INS32_OP_JMP_I then exec_JMP_I pc d cpu
      else if opc = INS32_OP_JMP_I_LNK then exec_JMP_I_LNK pc d cpu
      else if opc = INS32_OP_LDWU then exec_LDWU vt pc d cpu
      else if opc = INS32_OP_STW then exec_STW vt pc d cpu
      else if opc = INS32_OP_LDHU then exec_LDHU vt pc d cpu
      else if opc = INS32_OP_LDH then exec_LDH vt pc d cpu
      else if opc = INS32_OP_STH then exec_STH vt pc d cpu
      else if opc = INS32_OP_LDBU then exec_LDBU vt pc d cpu
      else if opc = INS32_OP_LDB then exec_LDB vt pc d cpu
      else if opc = INS32_OP_STB then exec_STB vt pc d cpu
      else if opc = INS32_OP_BARR then fetch_next pc cpu
      else if opc = INS32_OP_SYSCALL then exec_SYSCALL pc d cpu
      else if opc = INS32_OP_RETE then exec_RETE cpu
      else if opc = INS32_OP_WMSR then exec_WMSR vt pc d cpu
      else if opc = INS32_OP_RMSR then exec_RMSR pc d cpu
      else if opc = INS32_OP_MHI then exec_MHI pc d cpu
      else exception pc (vect_EINSN cpu) pc False cpu)"

definition fetch_insn :: "('cb, 'dv) vtable \<Rightarrow> phy_addr_t \<Rightarrow> bool \<Rightarrow> ('cb, 'dv) CPU \<Rightarrow> halt + insn_t \<times> ('cb, 'dv) CPU" where
  "fetch_insn vt insn_pa insn_uncached cpu =
     bnd (check_vma_align insn_pa INSN_LEN) (\<lambda>_.
     if insn_uncached then from_bus (phy_readm32 vt insn_pa) cpu
     else from_icache (cache_readm32 (phy_ops vt) insn_pa) cpu)"

text \<open>\<open>insn_pa\<close> is assigned on every path that does not raise an exception; elsewhere its value is indeterminate.\<close>

definition cpu_step ::
  "('cb, 'dv) vtable \<Rightarrow> vm_addr_t \<Rightarrow> bool \<Rightarrow> ('cb, 'dv) CPU \<Rightarrow> halt + vm_addr_t \<times> ArchEvent \<times> ('cb, 'dv) CPU" where
  "cpu_step vt pc difftest cpu =
     (let finish = (\<lambda>insn out. bnd out (\<lambda>(npc, excp, cpu'). Inr (npc, \<lparr>ev_excp = excp, ev_insn = insn\<rparr>, cpu'))) in
      bnd (if difftest then Inr cpu else on_msr (tsc_clk (IRQ_TSC cpu)) cpu) (\<lambda>cpu1.
      if irqc_handle_irqs (cpu_msr cpu1) = - EM_IRQ then finish None (exception pc (vect_EIRQ cpu1) 0 False cpu1)
      else
        bnd (immu_translate_vma (immu_tlb_count cpu1) (immu_enable_uncached_seg cpu1) (cpu_msr cpu1) pc)
          (\<lambda>(ret, pa, insn_uncached).
        if ret = - EM_PAGE_FAULT then finish None (exception pc (vect_EIPF cpu1) pc False cpu1)
        else if ret = - EM_TLB_MISS then finish None (exception pc (vect_EITM cpu1) pc False cpu1)
        else case pa of
          None \<Rightarrow> Inl Undefined
        | Some insn_pa \<Rightarrow>
            bnd (fetch_insn vt insn_pa insn_uncached cpu1) (\<lambda>(insn, cpu2).
            bnd (pcq_push pc insn (pc_queue cpu2)) (\<lambda>q.
            finish (Some insn) (exec_insn vt pc (decode insn) (cpu2\<lparr>pc_queue := q\<rparr>)))))))"

definition run_step :: "('cb, 'dv) vtable \<Rightarrow> ('cb, 'dv) CPU \<Rightarrow> halt + ('cb, 'dv) CPU" where
  "run_step vt cpu = bnd (cpu_step vt (cpu_pc cpu) False cpu) (\<lambda>(npc, ev, cpu'). Inr (cpu'\<lparr>cpu_pc := npc\<rparr>))"

end
