(* ===== verification/CpuProps.thy ===== *)
theory CpuProps
  imports Cpu
begin

text \<open>
  What single steps of the interpreter do: exception entry and return, delivery of interrupts and of translation faults, fetch and execution of an arithmetic
  instruction, stores read back by loads through translation and the data cache, jumps.
\<close>

section \<open>Exceptions\<close>

text \<open>
  Claim C17: an exception saves and \<open>RETE\<close> restores. On entry control goes to the vector's offset in the page of \<open>EVECT\<close>, in
  root mode with interrupts and both translations off, \<open>EPC\<close> and \<open>EPSR\<close> hold the interrupted address (the next one for a system call) and the old
  status, and registers, memory, caches and devices are untouched; \<open>RETE\<close> from there resumes at that address with the old status.
\<close>

theorem exception_return:
  "\<exists>npc cpu1. raise_exception pc vector lsa is_syscall cpu = (npc, cpu1) \<and>
     npc = (EVECT (cpu_msr cpu) AND 0xffffff00) OR (vector AND 0xff) \<and>
     cpu1 = cpu\<lparr>cpu_msr := cpu_msr cpu1\<rparr> \<and>
     psr_RM (PSR (cpu_msr cpu1)) \<and> \<not> psr_IRE (PSR (cpu_msr cpu1)) \<and> \<not> psr_IMME (PSR (cpu_msr cpu1)) \<and> \<not> psr_DMME (PSR (cpu_msr cpu1)) \<and>
     irqc_handle_irqs (cpu_msr cpu1) = 0 \<and>
     EPC (cpu_msr cpu1) = (if is_syscall then pc + INSN_LEN else pc) \<and> EPSR (cpu_msr cpu1) = PSR (cpu_msr cpu) \<and>
     exec_RETE cpu1 = Inr (if is_syscall then pc + INSN_LEN else pc, True,
       cpu1\<lparr>cpu_msr := (cpu_msr cpu1)\<lparr>PSR := PSR (cpu_msr cpu)\<rparr>\<rparr>)"
  by (auto simp: raise_exception_def exec_RETE_def irqc_handle_irqs_def Let_def)

text \<open>The outcome of a step that raises an exception instead of executing.\<close>

definition faults_to :: "vm_addr_t \<Rightarrow> vm_addr_t \<Rightarrow> vm_addr_t \<Rightarrow> ('cb, 'dv) CPU \<Rightarrow> halt + vm_addr_t \<times> ArchEvent \<times> ('cb, 'dv) CPU" where
  "faults_to pc vector lsa cpu =
     (case raise_exception pc vector lsa False cpu of (npc, cpu') \<Rightarrow> Inr (npc, \<lparr>ev_excp = True, ev_insn = None\<rparr>, cpu'))"

text \<open>
  Claim C18: when a step raises an exception. With the timer stopped or in difftest mode, a step takes an interrupt exactly when one is
  enabled and unmasked, before anything else; otherwise, with translation on, it raises a TLB miss or a page fault for the fetch, with
  the program counter in \<open>ELSA\<close>, exactly when the TLB says so; in all three cases nothing else changes.
\<close>

theorem cpu_step_faults:
  assumes "difftest \<or> \<not> tcr_EN (TCR (cpu_msr cpu))" and "immu_tlb_count cpu = 2 ^ k"
    and "length (ITLBL (cpu_msr cpu)) = 2 ^ k" and "length (ITLBH (cpu_msr cpu)) = 2 ^ k"
  shows "(if psr_IRE (PSR (cpu_msr cpu)) \<and> IRR (cpu_msr cpu) AND NOT (IMR (cpu_msr cpu)) \<noteq> 0
       then cpu_step vt pc difftest cpu = faults_to pc (vect_EIRQ cpu) 0 cpu
     else psr_IMME (PSR (cpu_msr cpu)) \<longrightarrow>
       (case itlb_lookup (cpu_msr cpu) (2 ^ k) pc of
          Miss \<Rightarrow> cpu_step vt pc difftest cpu = faults_to pc (vect_EITM cpu) pc cpu
        | Fault \<Rightarrow> cpu_step vt pc difftest cpu = faults_to pc (vect_EIPF cpu) pc cpu
        | Page hi \<Rightarrow> \<forall>npc ev cpu'. cpu_step vt pc difftest cpu = Inr (npc, ev, cpu') \<longrightarrow> ev_insn ev \<noteq> None))"
proof -
  have tick: "(if difftest then Inr cpu else on_msr (tsc_clk (IRQ_TSC cpu)) cpu) = Inr cpu"
    using assms(1) by (auto simp: on_msr_def tsc_clk_def)
  note tr = immu_translate_lookup [OF assms(3,4), of "immu_enable_uncached_seg cpu" pc]
  show ?thesis
    by (cases "itlb_lookup (cpu_msr cpu) (2 ^ k) pc")
      (auto simp: cpu_step_def tick assms(2) tr faults_to_def exception_def irqc_handle_irqs_def
        split: prod.splits)
qed

theorem cpu_step_faults_witness:
  "\<not> tcr_EN (TCR (cpu_msr (small_cpu\<lparr>cpu_msr := msr_mapped\<rparr>))) \<and> length (ITLBL msr_mapped) = 2 ^ 1 \<and>
   cpu_step undefined 0x4000 False (small_cpu\<lparr>cpu_msr := msr_mapped\<rparr>) =
     faults_to 0x4000 0x1c 0x4000 (small_cpu\<lparr>cpu_msr := msr_mapped\<rparr>)"
proof -
  let ?c = "small_cpu\<lparr>cpu_msr := msr_mapped\<rparr>"
  have m: "\<not> tcr_EN (TCR (cpu_msr ?c))" "immu_tlb_count ?c = 2 ^ 1" "vect_EITM ?c = 0x1c" "psr_IMME (PSR (cpu_msr ?c))"
    "\<not> psr_IRE (PSR (cpu_msr ?c))" "itlb_lookup (cpu_msr ?c) (2 ^ 1) 0x4000 = Miss"
    by (simp_all add: msr_mapped_def msr_zero_def psr_reset_def small_cpu_def itlb_lookup_def)
  show ?thesis
    using cpu_step_faults [of False ?c 1 undefined "0x4000"] m msr_mapped_len by simp
qed

section \<open>Fetch\<close>

text \<open>The byte that the instruction port reads: through the cache, or past it.\<close>

definition fetch_view :: "('cb, 'dv) CPU \<Rightarrow> bool \<Rightarrow> phy_addr_t \<Rightarrow> u8" where
  "fetch_view cpu uncached = (if uncached then cell (cpu_mem cpu) else view (icache cpu) (cell (cpu_mem cpu)))"

text \<open>A step that nothing interrupts: the timer is stopped and no interrupt is pending.\<close>

definition undisturbed :: "bool \<Rightarrow> ('cb, 'dv) CPU \<Rightarrow> bool" where
  "undisturbed difftest cpu \<longleftrightarrow> (difftest \<or> \<not> tcr_EN (TCR (cpu_msr cpu))) \<and>
     \<not> (psr_IRE (PSR (cpu_msr cpu)) \<and> IRR (cpu_msr cpu) AND NOT (IMR (cpu_msr cpu)) \<noteq> 0)"

text \<open>The instruction port of a processor whose program counter translates to \<open>pa\<close> in DRAM.\<close>

definition fetchable :: "vm_addr_t \<Rightarrow> phy_addr_t \<Rightarrow> bool \<Rightarrow> ('cb, 'dv) CPU \<Rightarrow> bool" where
  "fetchable pc pa uncached cpu \<longleftrightarrow>
     immu_translate_vma (immu_tlb_count cpu) (immu_enable_uncached_seg cpu) (cpu_msr cpu) pc = Inr (0, Some pa, uncached) \<and>
     cached_inv (icache cpu, cpu_bus cpu) \<and> line_in_ram (icache cpu) (dram_at (cpu_mem cpu)) pa \<and>
     2 \<le> m_P_LINE (icache cpu) \<and> pa AND 3 = 0 \<and> pcq_wf (pc_queue cpu)"

lemma line_dram_range:
  assumes "cached_inv (c, (M, d))" "line_in_ram c (dram_at M) pa" "pa AND 3 = 0" "2 \<le> m_P_LINE c"
  shows "dram_range M pa 4" and "mem_wf M"
proof -
  have "cache_wf c" using assms(1) by (simp add: cached_inv_def)
  then have g: "geometry c" by (rule wfD)
  have r: "line_in_ram c (case (M, d) of (M, d) \<Rightarrow> dram_at M) pa" using assms(2) by simp
  have "ram_range (case (M, d) of (M, d) \<Rightarrow> dram_at M) pa 4"
    by (rule cached.line_in_ram_range [OF g r _ line_size_4_dvd [OF assms(4)]]) (use assms(3) and3_mod in auto)
  then show "dram_range M pa 4" by (simp add: ram_range_def dram_range_def)
  show "mem_wf M" using assms(1) by (simp add: cached_inv_def)
qed

lemma fetch_insn_view:
  assumes "fetchable pc pa u cpu"
  obtains c M where "fetch_insn vt pa u cpu = Inr (le32 (fetch_view cpu u) pa, cpu\<lparr>icache := c, cpu_mem := M\<rparr>)"
    and "view c (cell M) = view (icache cpu) (cell (cpu_mem cpu))" and "M\<lparr>memory := []\<rparr> = (cpu_mem cpu)\<lparr>memory := []\<rparr>"
    and "cached_inv (c, cpu_bus (cpu\<lparr>icache := c, cpu_mem := M\<rparr>))"
proof (cases u)
  case True
  note f = assms [unfolded fetchable_def cpu_bus_def]
  have "dram_range (cpu_mem cpu) pa 4" "mem_wf (cpu_mem cpu)"
    using line_dram_range [where c = "icache cpu" and M = "cpu_mem cpu" and pa = pa] f by auto
  then have "phy_readm32 vt pa (cpu_bus cpu) = Inr (le32 (cell (cpu_mem cpu)) pa, cpu_bus cpu)"
    by (simp add: phy_readm32_dram cpu_bus_def le_at)
  then show thesis
    using True f by (intro that [of "cpu_mem cpu" "icache cpu"])
      (simp_all add: fetch_insn_def check_vma_align_def from_bus_def fetch_view_def cpu_bus_def set_bus_def)
next
  case False
  note f = assms [unfolded fetchable_def cpu_bus_def]
  have i: "cached.cinv (icache cpu, (cpu_mem cpu, (cpu_msr cpu, cpu_dev cpu)))" using f by (simp add: cached_cinv)
  have l: "line_in_ram (icache cpu) (case (cpu_mem cpu, (cpu_msr cpu, cpu_dev cpu)) of (M, d) \<Rightarrow> dram_at M) pa" using f by simp
  have "pa AND 3 = 0" "4 dvd line_size (icache cpu)" using f line_size_4_dvd by auto
  from cached.readm32_ok [OF i l this, of vt] obtain c M where
    r: "cache_readm32 (phy_ops vt) pa (icache cpu, cpu_bus cpu) =
        Inr (le32 (view (icache cpu) (cell (cpu_mem cpu))) pa, c, (M, (cpu_msr cpu, cpu_dev cpu)))"
      "cached_inv (c, (M, (cpu_msr cpu, cpu_dev cpu)))" "view c (cell M) = view (icache cpu) (cell (cpu_mem cpu))"
      "M\<lparr>memory := []\<rparr> = (cpu_mem cpu)\<lparr>memory := []\<rparr>"
    by (auto simp: cached_cview cached_cframe cached_cinv cpu_bus_def)
  then show thesis
    using False f
    by (intro that [of M c])
      (simp_all add: fetch_insn_def check_vma_align_def from_icache_def fetch_view_def cpu_bus_def set_bus_def)
qed

lemma step_fetches:
  assumes "undisturbed difftest cpu" and "fetchable pc pa u cpu"
  shows "\<exists>c M q. cpu_step vt pc difftest cpu =
      bnd (exec_insn vt pc (decode (le32 (fetch_view cpu u) pa)) (cpu\<lparr>icache := c, cpu_mem := M, pc_queue := q\<rparr>))
        (\<lambda>(npc, excp, cpu'). Inr (npc, \<lparr>ev_excp = excp, ev_insn = Some (le32 (fetch_view cpu u) pa)\<rparr>, cpu')) \<and>
    view c (cell M) = view (icache cpu) (cell (cpu_mem cpu)) \<and> M\<lparr>memory := []\<rparr> = (cpu_mem cpu)\<lparr>memory := []\<rparr> \<and>
    cached_inv (c, (M, (cpu_msr cpu, cpu_dev cpu))) \<and>
    pcq_dump q = last_n n_pc_queue (pcq_dump (pc_queue cpu) @ [\<lparr>pcq_pc = pc, pcq_insn = le32 (fetch_view cpu u) pa\<rparr>])"
proof -
  let ?i = "le32 (fetch_view cpu u) pa"
  have tick: "(if difftest then Inr cpu else on_msr (tsc_clk (IRQ_TSC cpu)) cpu) = Inr cpu"
    using assms(1) by (auto simp: undisturbed_def on_msr_def tsc_clk_def)
  have irq: "irqc_handle_irqs (cpu_msr cpu) = 0" using assms(1) by (simp add: undisturbed_def irqc_handle_irqs_def)
  from fetch_insn_view [OF assms(2)] obtain c M where
    f: "fetch_insn vt pa u cpu = Inr (?i, cpu\<lparr>icache := c, cpu_mem := M\<rparr>)"
      "view c (cell M) = view (icache cpu) (cell (cpu_mem cpu))" "M\<lparr>memory := []\<rparr> = (cpu_mem cpu)\<lparr>memory := []\<rparr>"
      "cached_inv (c, cpu_bus (cpu\<lparr>icache := c, cpu_mem := M\<rparr>))" .
  from assms(2) have "pcq_wf (pc_queue cpu)" by (simp add: fetchable_def)
  then obtain q where q: "pcq_push pc ?i (pc_queue cpu) = Inr q"
    "pcq_dump q = last_n n_pc_queue (pcq_dump (pc_queue cpu) @ [\<lparr>pcq_pc = pc, pcq_insn = ?i\<rparr>])"
    by (rule pcq_push_refines)
  have t: "immu_translate_vma (immu_tlb_count cpu) (immu_enable_uncached_seg cpu) (cpu_msr cpu) pc = Inr (0, Some pa, u)"
    using assms(2) by (simp add: fetchable_def)
  show ?thesis
    by (intro exI [of _ c] exI [of _ M] exI [of _ q] conjI)
      (use f q in \<open>simp_all add: cpu_step_def tick irq t cpu_bus_def\<close>)
qed

text \<open>
  Claim C10: fetch, decode, execute. A step that nothing interrupts and whose program counter translates to an aligned address in
  DRAM executes the decoding of the little-endian word that the instruction port sees there (through a coherent instruction cache, enabled or not, or past it), 
  reports that word in the event and appends it to the trace of the last instructions; apart from the execution itself nothing else
  changes: registers, devices and the memory seen through the instruction cache are the same.
\<close>

theorem cpu_step_executes_fetched:
  assumes "undisturbed difftest cpu" and "fetchable pc pa u cpu"
  shows "\<exists>c M q. cpu_step vt pc difftest cpu =
      bnd (exec_insn vt pc (decode (le32 (fetch_view cpu u) pa)) (cpu\<lparr>icache := c, cpu_mem := M, pc_queue := q\<rparr>))
        (\<lambda>(npc, excp, cpu'). Inr (npc, \<lparr>ev_excp = excp, ev_insn = Some (le32 (fetch_view cpu u) pa)\<rparr>, cpu')) \<and>
    view c (cell M) = view (icache cpu) (cell (cpu_mem cpu)) \<and> M\<lparr>memory := []\<rparr> = (cpu_mem cpu)\<lparr>memory := []\<rparr> \<and>
    cached_inv (c, (M, (cpu_msr cpu, cpu_dev cpu))) \<and>
    pcq_dump q = last_n n_pc_queue (pcq_dump (pc_queue cpu) @ [\<lparr>pcq_pc = pc, pcq_insn = le32 (fetch_view cpu u) pa\<rparr>])"
  using step_fetches [OF assms] .

text \<open>The small machine with the instruction \<open>i\<close> at the start of its memory.\<close>

definition small_prog :: "insn_t \<Rightarrow> (unit, unit) CPU" where
  "small_prog i = small_cpu\<lparr>cpu_mem := small_mem\<lparr>memory := [byte_of 0 i, byte_of 1 i, byte_of 2 i, byte_of 3 i] @ replicate 12 0\<rparr>,
     regfile := [0, 7, 5] @ replicate 29 0\<rparr>"

lemma small_prog_ready:
  "undisturbed False (small_prog i)" "fetchable 0x80000000 0x80000000 True (small_prog i)"
  "le32 (fetch_view (small_prog i) True) 0x80000000 = i"
proof -
  show "undisturbed False (small_prog i)"
    by (simp add: undisturbed_def small_prog_def msr_zero_def psr_reset_def)
  let ?m = "small_mem\<lparr>memory := [byte_of 0 i, byte_of 1 i, byte_of 2 i, byte_of 3 i] @ replicate 12 0\<rparr>"
  have "empty_cache small_cache" by (simp add: empty_cache_def small_cache_dims) (simp add: small_cache_def)
  then have "cached_inv (small_cache, (?m, (msr_zero 2 2, ())))"
    by (simp add: cached_inv_def small_cache_wf empty_coherent mem_wf_def small_mem_def)
  moreover have "line_in_ram small_cache (dram_at ?m) 0x80000000"
    by (simp add: line_in_ram_def small_cache_dims all_less_4)
       (simp add: small_cache_def small_mem_def dram_at_def in_dram_def in_mmio_def line_paddr_def tag_of_def entry_of_def)
  moreover have "immu_translate_vma 2 True (msr_zero 2 2) 0x80000000 = Inr (0, Some 0x80000000, True)"
    by (simp add: immu_translate_vma_def msr_zero_def psr_reset_def)
  ultimately show "fetchable 0x80000000 0x80000000 True (small_prog i)"
    by (simp add: fetchable_def small_prog_def cpu_bus_def small_cpu_def small_cache_dims pcq_wf_new)
  show "le32 (fetch_view (small_prog i) True) 0x80000000 = i"
    by (simp add: fetch_view_def small_prog_def le32_def cell_def small_mem_def bytes_word32 del: One_nat_def)
qed


section \<open>Arithmetic and logic\<close>

text \<open>
  The value of a register-register operation in the integers, \<open>None\<close> where the host operation is undefined.
\<close>

definition alu_spec :: "u16 \<Rightarrow> u32 \<Rightarrow> u32 \<Rightarrow> int option" where
  "alu_spec opc a b =
     (if opc = INS32_OP_AND then Some (sint a AND sint b)
      else if opc = INS32_OP_OR then Some (sint a OR sint b)
      else if opc = INS32_OP_XOR then Some (sint a XOR sint b)
      else if opc = INS32_OP_LSL then if uint b < 32 then Some (uint a * 2 ^ nat (uint b)) else None
      else if opc = INS32_OP_LSR then if uint b < 32 then Some (uint a div 2 ^ nat (uint b)) else None
      else if opc = INS32_OP_ASR then if uint b < 32 then Some (sint a div 2 ^ nat (uint b)) else None
      else if opc = INS32_OP_ADD then Some (sint a + sint b)
      else if opc = INS32_OP_SUB then Some (sint a - sint b)
      else if opc = INS32_OP_MUL then Some (sint a * sint b)
      else if opc = INS32_OP_DIV then if sint b = 0 \<or> sint a = - (2 ^ 31) \<and> sint b = - 1 then None else Some (sint a sdiv sint b)
      else if opc = INS32_OP_MOD then if sint b = 0 \<or> sint a = - (2 ^ 31) \<and> sint b = - 1 then None else Some (sint a smod sint b)
      else if opc = INS32_OP_DIVU then if uint b = 0 then None else Some (uint a div uint b)
      else if uint b = 0 then None else Some (uint a mod uint b))"

lemma shift_count_uint: "shift_count b = (if uint b < 32 then Inr (nat (uint b)) else Inl Undefined)"
  by (simp add: shift_count_def word_less_def)

lemma word_of_sint_ops:
  fixes a b :: u32
  shows "word_of_int (sint a AND sint b) = a AND b" "word_of_int (sint a OR sint b) = a OR b"
    "word_of_int (sint a XOR sint b) = a XOR b" "word_of_int (uint a * 2 ^ n) = push_bit n a"
    "word_of_int (uint a div 2 ^ n) = drop_bit n a" "word_of_int (sint a div 2 ^ n) = signed_drop_bit n a"
    "word_of_int (sint a + sint b) = a + b" "word_of_int (sint a - sint b) = a - b" "word_of_int (sint a * sint b) = a * b"
    "word_of_int (uint a div uint b) = a div b" "word_of_int (uint a mod uint b) = a mod b"
proof -
  show "word_of_int (sint a AND sint b) = a AND b" by (rule bit_eqI) (simp add: bit_simps)
  show "word_of_int (sint a OR sint b) = a OR b" by (rule bit_eqI) (simp add: bit_simps)
  show "word_of_int (sint a XOR sint b) = a XOR b" by (rule bit_eqI) (simp add: bit_simps)
  show "word_of_int (uint a * 2 ^ n) = push_bit n a"
    by (simp add: push_bit_eq_mult)
  show "word_of_int (uint a div 2 ^ n) = drop_bit n a"
    by (rule bit_eqI) (auto simp: bit_simps simp flip: drop_bit_eq_div)
  show "word_of_int (sint a div 2 ^ n) = signed_drop_bit n a"
    by (rule bit_eqI) (auto simp: bit_simps simp flip: drop_bit_eq_div)
  show "word_of_int (sint a + sint b) = a + b" "word_of_int (sint a - sint b) = a - b" "word_of_int (sint a * sint b) = a * b"
    by simp_all
  show "word_of_int (uint a div uint b) = a div b" by (simp add: word_div_def)
  show "word_of_int (uint a mod uint b) = a mod b" by (simp add: word_mod_def)
qed

lemma sint_consts: "sint b = 0 \<longleftrightarrow> b = 0" "sint b = - 1 \<longleftrightarrow> b = 0xffffffff" "sint b = - 2147483648 \<longleftrightarrow> b = 0x80000000" for b :: u32
proof -
  have "sint (0xffffffff :: u32) = - 1" "sint (0x80000000 :: u32) = - 2147483648" by simp_all
  then show "sint b = 0 \<longleftrightarrow> b = 0" "sint b = - 1 \<longleftrightarrow> b = 0xffffffff" "sint b = - 2147483648 \<longleftrightarrow> b = 0x80000000"
    by (metis signed_0 signed_word_eqI)+
qed

lemma alu_reg_opcodes:
  assumes "alu_reg opc = Some f"
  shows "opc \<in> {INS32_OP_AND, INS32_OP_OR, INS32_OP_XOR, INS32_OP_LSL, INS32_OP_LSR, INS32_OP_ADD, INS32_OP_SUB, INS32_OP_ASR,
    INS32_OP_MUL, INS32_OP_DIV, INS32_OP_DIVU, INS32_OP_MOD, INS32_OP_MODU}"
proof (rule ccontr)
  assume n: "\<not> ?thesis"
  then have "alu_reg opc = None" by (simp add: alu_reg_def)
  then show False using assms by simp
qed

lemma alu_reg_value:
  assumes "alu_reg opc = Some f"
  shows "f a b = (case alu_spec opc a b of None \<Rightarrow> Inl Undefined | Some i \<Rightarrow> Inr (word_of_int i))"
  using alu_reg_opcodes [OF assms] assms unfolding insert_iff empty_iff
  by (elim disjE FalseE; hypsubst)
    (auto simp: alu_reg_def alu_spec_def shift_count_uint word_of_sint_ops sdivE_def smodE_def sint_consts uint_0_iff push_bit_eq_mult)

lemma get_reg_frame: "regfile c' = regfile c \<Longrightarrow> get_reg x c' = get_reg x c"
  by (simp add: get_reg_def)

text \<open>
  Claim C6: a three-register instruction computes its operation. A step whose program counter points at the encoding of a register-register
  operation with source registers \<open>s1\<close>, \<open>s2\<close> and destination \<open>d\<close> yields the integer specification of the operation, reduced to
  32 bits: wrapping addition, subtraction, multiplication and shift, division truncating towards zero with the sign of the remainder
  that of the dividend. It writes \<open>d\<close> and no other register (nothing when \<open>d\<close> is 0), advances by four, and raises no exception; exactly where the
  integer specification has no value (a shift by 32 or more, a division by zero or of the least number by -1) the emulator's behaviour is undefined.
\<close>

theorem alu_step_computes:
  assumes "undisturbed difftest cpu" and "fetchable pc pa u cpu" and "length (regfile cpu) = 32"
    and "le32 (fetch_view cpu u) pa = enc_fmt1 opc d s1 s2" and "alu_reg (ucast opc) = Some f"
    and "get_reg (ucast s1) cpu = Inr a" and "get_reg (ucast s2) cpu = Inr b"
  shows "case alu_spec (ucast opc) a b of
      None \<Rightarrow> cpu_step vt pc difftest cpu = Inl Undefined
    | Some i \<Rightarrow> \<exists>c M q. cpu_step vt pc difftest cpu =
        Inr (pc + 4, \<lparr>ev_excp = False, ev_insn = Some (enc_fmt1 opc d s1 s2)\<rparr>,
          cpu\<lparr>icache := c, cpu_mem := M, pc_queue := q,
            regfile := if d = 0 then regfile cpu else (regfile cpu)[unat d := word_of_int i]\<rparr>) \<and>
        view c (cell M) = view (icache cpu) (cell (cpu_mem cpu)) \<and> M\<lparr>memory := []\<rparr> = (cpu_mem cpu)\<lparr>memory := []\<rparr>"
proof -
  let ?i = "enc_fmt1 opc d s1 s2"
  have u16: "unat (ucast x :: u16) = unat x" for x :: "5 word" by (simp add: unat_ucast_up)
  then have d: "unat (ucast d :: u16) < 32" "(ucast d :: u16) = 0 \<longleftrightarrow> d = 0"
    using unat_less_exp [of d] by (simp_all add: word_unat_eq_iff)
  from step_fetches [OF assms(1,2), of vt] obtain c M q where
    s: "cpu_step vt pc difftest cpu = bnd (exec_insn vt pc (decode ?i) (cpu\<lparr>icache := c, cpu_mem := M, pc_queue := q\<rparr>))
        (\<lambda>(npc, excp, cpu'). Inr (npc, \<lparr>ev_excp = excp, ev_insn = Some ?i\<rparr>, cpu'))"
      "view c (cell M) = view (icache cpu) (cell (cpu_mem cpu))" "M\<lparr>memory := []\<rparr> = (cpu_mem cpu)\<lparr>memory := []\<rparr>"
    unfolding assms(4) by blast
  let ?c = "cpu\<lparr>icache := c, cpu_mem := M, pc_queue := q\<rparr>"
  have g: "get_reg (ucast s1) ?c = Inr a" "get_reg (ucast s2) ?c = Inr b" "length (regfile ?c) = 32"
    using assms(3,6,7) get_reg_frame [of ?c cpu] by simp_all
  have "exec_insn vt pc (decode ?i) ?c = bnd (f a b) (\<lambda>v. bnd (set_reg (ucast d) v ?c) (fetch_next pc))"
    using decode_enc_fmt1 [of opc d s1 s2] assms(5) g by (simp add: exec_insn_def exec_alu_reg_def)
  note e = this [unfolded alu_reg_value [OF assms(5)] set_reg_val [OF d(1) g(3)] d(2) u16]
  show ?thesis
  proof (cases "alu_spec (ucast opc) a b")
    case None
    then show ?thesis using s(1) e by simp
  next
    case (Some i)
    have "cpu_step vt pc difftest cpu = Inr (pc + 4, \<lparr>ev_excp = False, ev_insn = Some ?i\<rparr>,
        ?c\<lparr>regfile := if d = 0 then regfile cpu else (regfile cpu)[unat d := word_of_int i]\<rparr>)"
      using s(1) e Some by (simp add: fetch_next_def)
    then show ?thesis using s(2,3) by (auto simp: Some)
  qed
qed

text \<open>\<open>sub r3, r1, r2\<close> with 7 and 5 in the source registers.\<close>

theorem alu_step_computes_witness:
  "undisturbed False (small_prog (enc_fmt1 12 3 1 2)) \<and> fetchable 0x80000000 0x80000000 True (small_prog (enc_fmt1 12 3 1 2)) \<and>
   (\<exists>ev cpu'. cpu_step undefined 0x80000000 False (small_prog (enc_fmt1 12 3 1 2)) = Inr (0x80000004, ev, cpu') \<and>
      get_reg 3 cpu' = Inr 2)"
proof -
  let ?c = "small_prog (enc_fmt1 12 3 1 2)"
  obtain f where f: "alu_reg (ucast (12 :: 7 word)) = Some f" by (simp add: alu_reg_def)
  have r: "length (regfile ?c) = 32" "get_reg (ucast (1 :: 5 word)) ?c = Inr 7" "get_reg (ucast (2 :: 5 word)) ?c = Inr 5"
    by (simp_all add: small_prog_def get_reg_def nthE_def reg_less)
  have "alu_spec (ucast (12 :: 7 word)) 7 5 = Some 2" by (simp add: alu_spec_def)
  with alu_step_computes [OF small_prog_ready(1,2) r(1) small_prog_ready(3) f r(2,3), of undefined]
  obtain c M q where s: "cpu_step undefined 0x80000000 False ?c =
      Inr (0x80000004, \<lparr>ev_excp = False, ev_insn = Some (enc_fmt1 12 3 1 2)\<rparr>,
        ?c\<lparr>icache := c, cpu_mem := M, pc_queue := q, regfile := (regfile ?c)[3 := 2]\<rparr>)" by auto
  moreover have "get_reg 3 (?c\<lparr>icache := c, cpu_mem := M, pc_queue := q, regfile := (regfile ?c)[3 := 2]\<rparr>) = Inr 2"
    using r(1) by (simp add: get_reg_def nthE_def reg_less)
  ultimately show ?thesis using small_prog_ready(1,2) by blast
qed

theorem cpu_step_executes_fetched_witness:
  "undisturbed False (small_prog 0x90d0fc0) \<and> fetchable 0x80000000 0x80000000 True (small_prog 0x90d0fc0) \<and>
   (\<exists>cpu'. cpu_step undefined 0x80000000 False (small_prog 0x90d0fc0) =
      bnd (exec_insn undefined 0x80000000 (decode 0x90d0fc0) cpu') (\<lambda>(npc, excp, cpu''). Inr (npc, \<lparr>ev_excp = excp, ev_insn = Some 0x90d0fc0\<rparr>, cpu'')))"
  using cpu_step_executes_fetched [OF small_prog_ready(1,2), of undefined "0x90d0fc0"] small_prog_ready
  by (auto simp: small_prog_ready(3))

section \<open>Loads and stores\<close>

text \<open>The data port of a processor on which the virtual address \<open>va\<close> is an aligned word at \<open>pa\<close> in DRAM, readable and writable.\<close>

definition data_word :: "vm_addr_t \<Rightarrow> phy_addr_t \<Rightarrow> bool \<Rightarrow> ('cb, 'dv) CPU \<Rightarrow> bool" where
  "data_word va pa uncached cpu \<longleftrightarrow>
     (\<forall>st. dmmu_translate_vma (dmmu_tlb_count cpu) (dmmu_enable_uncached_seg cpu) (cpu_msr cpu) va st = Inr (0, Some pa, uncached)) \<and>
     mem_wf (cpu_mem cpu) \<and> dram_range (cpu_mem cpu) pa 4 \<and> va AND 3 = 0 \<and> pa AND 3 = 0 \<and>
     (\<not> uncached \<longrightarrow> cached_inv (dcache cpu, cpu_bus cpu) \<and> line_in_ram (dcache cpu) (dram_at (cpu_mem cpu)) pa \<and>
        2 \<le> m_P_LINE (dcache cpu))"

definition data_view :: "('cb, 'dv) CPU \<Rightarrow> bool \<Rightarrow> phy_addr_t \<Rightarrow> u8" where
  "data_view cpu uncached = (if uncached then cell (cpu_mem cpu) else view (dcache cpu) (cell (cpu_mem cpu)))"

lemma data_write32_ok:
  assumes "data_word va pa u cpu"
  obtains c M where "data_write32 vt pa u v cpu = Inr (cpu\<lparr>dcache := c, cpu_mem := M\<rparr>)"
    and "data_view (cpu\<lparr>dcache := c, cpu_mem := M\<rparr>) u = upd32 pa v (data_view cpu u)"
    and "M\<lparr>memory := []\<rparr> = (cpu_mem cpu)\<lparr>memory := []\<rparr>" and "mem_wf M"
    and "\<not> u \<longrightarrow> cached_inv (c, (M, (cpu_msr cpu, cpu_dev cpu)))" and "same_geometry c (dcache cpu)"
proof (cases u)
  case True
  note f = assms [unfolded data_word_def cpu_bus_def]
  let ?M = "set_cells pa [byte_of 0 v, byte_of 1 v, byte_of 2 v, byte_of 3 v] (cpu_mem cpu)"
  have r: "dram_range (cpu_mem cpu) pa 4" "mem_wf (cpu_mem cpu)" using f by auto
  show thesis
  proof (rule that [of ?M "dcache cpu"])
    show "data_write32 vt pa u v cpu = Inr (cpu\<lparr>dcache := dcache cpu, cpu_mem := ?M\<rparr>)"
      using True r by (simp add: data_write32_def on_bus_def cpu_bus_def set_bus_def phy_writem32_dram)
    show "data_view (cpu\<lparr>dcache := dcache cpu, cpu_mem := ?M\<rparr>) u = upd32 pa v (data_view cpu u)"
      using True cell_set_cells_4 [OF r(2,1)] by (simp add: data_view_def upd32_def fun_eq_iff)
    show "mem_wf ?M" using r(2) by simp
  qed (use True in \<open>simp_all add: set_cells_rest same_geometry_def\<close>)
next
  case False
  note f = assms [unfolded data_word_def cpu_bus_def]
  have i: "cached.cinv (dcache cpu, (cpu_mem cpu, (cpu_msr cpu, cpu_dev cpu)))" using f False by (simp add: cached_cinv)
  have l: "line_in_ram (dcache cpu) (case (cpu_mem cpu, (cpu_msr cpu, cpu_dev cpu)) of (M, d) \<Rightarrow> dram_at M) pa" using f False by simp
  have "pa AND 3 = 0" "4 dvd line_size (dcache cpu)" using f False line_size_4_dvd by auto
  from cached.writem32_ok [OF i l this, of vt v] obtain c M where
    r: "cache_writem32 (phy_ops vt) pa v (dcache cpu, cpu_bus cpu) = Inr (c, (M, (cpu_msr cpu, cpu_dev cpu)))"
      "cached_inv (c, (M, (cpu_msr cpu, cpu_dev cpu)))" "view c (cell M) = upd32 pa v (view (dcache cpu) (cell (cpu_mem cpu)))"
      "M\<lparr>memory := []\<rparr> = (cpu_mem cpu)\<lparr>memory := []\<rparr>" "same_geometry c (dcache cpu)"
    by (auto simp: cached_cview cached_cframe cached_cinv cpu_bus_def)
  then have "mem_wf M" by (simp add: cached_inv_def)
  then show thesis
    using False r by (intro that [of M c]) (simp_all add: data_write32_def data_view_def on_dcache_def set_bus_def)
qed

lemma data_read32_ok:
  assumes "data_word va pa u cpu"
  obtains c M where "data_read32 vt pa u cpu = Inr (le32 (data_view cpu u) pa, cpu\<lparr>dcache := c, cpu_mem := M\<rparr>)"
    and "data_view (cpu\<lparr>dcache := c, cpu_mem := M\<rparr>) u = data_view cpu u" and "M\<lparr>memory := []\<rparr> = (cpu_mem cpu)\<lparr>memory := []\<rparr>"
proof (cases u)
  case True
  note f = assms [unfolded data_word_def cpu_bus_def]
  have "dram_range (cpu_mem cpu) pa 4" "mem_wf (cpu_mem cpu)" using f by auto
  then show thesis using True
    by (intro that [of "cpu_mem cpu" "dcache cpu"])
      (simp_all add: data_read32_def data_view_def from_bus_def cpu_bus_def set_bus_def phy_readm32_dram le_at)
next
  case False
  note f = assms [unfolded data_word_def cpu_bus_def]
  have i: "cached.cinv (dcache cpu, (cpu_mem cpu, (cpu_msr cpu, cpu_dev cpu)))" using f False by (simp add: cached_cinv)
  have l: "line_in_ram (dcache cpu) (case (cpu_mem cpu, (cpu_msr cpu, cpu_dev cpu)) of (M, d) \<Rightarrow> dram_at M) pa" using f False by simp
  have "pa AND 3 = 0" "4 dvd line_size (dcache cpu)" using f False line_size_4_dvd by auto
  from cached.readm32_ok [OF i l this, of vt] obtain c M where
    r: "cache_readm32 (phy_ops vt) pa (dcache cpu, cpu_bus cpu) =
        Inr (le32 (view (dcache cpu) (cell (cpu_mem cpu))) pa, c, (M, (cpu_msr cpu, cpu_dev cpu)))"
      "view c (cell M) = view (dcache cpu) (cell (cpu_mem cpu))" "M\<lparr>memory := []\<rparr> = (cpu_mem cpu)\<lparr>memory := []\<rparr>"
    by (auto simp: cached_cview cached_cframe cached_cinv cpu_bus_def)
  then show thesis
    using False by (intro that [of M c]) (simp_all add: data_read32_def data_view_def from_dcache_def set_bus_def)
qed

lemma same_window:
  assumes "M\<lparr>memory := []\<rparr> = M'\<lparr>memory := []\<rparr>"
  shows "dram_at M = dram_at M'" "dram_range M = dram_range M'"
proof -
  have "dram_phy_start M = dram_phy_start M'" "memory_size M = memory_size M'" "mmio_phy_base M = mmio_phy_base M'"
    "mmio_phy_end_addr M = mmio_phy_end_addr M'"
    using arg_cong [OF assms, of dram_phy_start] arg_cong [OF assms, of memory_size] arg_cong [OF assms, of mmio_phy_base]
      arg_cong [OF assms, of mmio_phy_end_addr] by simp_all
  then show "dram_at M = dram_at M'" by (simp add: dram_at_def in_dram_def in_mmio_def fun_eq_iff)
  then show "dram_range M = dram_range M'" by (simp add: dram_range_def fun_eq_iff)
qed

lemma data_word_stored:
  assumes "data_word va pa u cpu" and "M\<lparr>memory := []\<rparr> = (cpu_mem cpu)\<lparr>memory := []\<rparr>" and "same_geometry c (dcache cpu)"
    and "mem_wf M" and "\<not> u \<longrightarrow> cached_inv (c, (M, (cpu_msr cpu, cpu_dev cpu)))"
  shows "data_word va pa u (cpu\<lparr>dcache := c, cpu_mem := M\<rparr>)"
proof -
  have "m_P_LINE c = m_P_LINE (dcache cpu)" using assms(3) by (simp add: same_geometry_def)
  then show ?thesis
    using assms same_window [OF assms(2)] same_geometry_eqs(11) [OF assms(3)]
    by (simp add: data_word_def cpu_bus_def)
qed

text \<open>
  Claim C11: a stored word is loaded back. On a machine where a virtual address translates, for loads and stores, to an aligned word of DRAM,
  \<open>STW\<close> followed by \<open>LDWU\<close> at the same address (computed from any base registers and displacements) loads exactly the stored register, whether the
  access goes through the data cache (enabled or not, in any coherent state) or past it; both advance by four, raise no exception, change no other byte that the data port sees and,
  for the store, no register.
\<close>

theorem stw_ldwu:
  assumes "data_word va pa u cpu" and "length (regfile cpu) = 32"
    and "effective_va d cpu = Inr va" and "effective_va d' cpu = Inr va" and "get_reg (rd d) cpu = Inr v" and "unat (rd d') < 32"
  shows "\<exists>cpu1 cpu2. exec_STW vt pc d cpu = Inr (pc + 4, False, cpu1) \<and> exec_LDWU vt pc' d' cpu1 = Inr (pc' + 4, False, cpu2) \<and>
    regfile cpu1 = regfile cpu \<and> get_reg (rd d') cpu2 = Inr (if rd d' = 0 then 0 else v) \<and>
    data_view cpu1 u = upd32 pa v (data_view cpu u) \<and> data_view cpu2 u = data_view cpu1 u"
proof -
  have al: "check_vma_align va 4 = Inr 0" using assms(1) by (simp add: data_word_def check_vma_align_def)
  have tr: "translated p va st c k = k pa u"
    if "data_word va pa u c" for p st c and k :: "phy_addr_t \<Rightarrow> bool \<Rightarrow> ('a, 'b) outcome"
    using that by (simp add: translated_def data_word_def)
  from data_write32_ok [OF assms(1), of vt v] obtain c M where
    w: "data_write32 vt pa u v cpu = Inr (cpu\<lparr>dcache := c, cpu_mem := M\<rparr>)"
      "data_view (cpu\<lparr>dcache := c, cpu_mem := M\<rparr>) u = upd32 pa v (data_view cpu u)"
      "M\<lparr>memory := []\<rparr> = (cpu_mem cpu)\<lparr>memory := []\<rparr>" "mem_wf M"
      "\<not> u \<longrightarrow> cached_inv (c, (M, (cpu_msr cpu, cpu_dev cpu)))" "same_geometry c (dcache cpu)" .
  let ?c1 = "cpu\<lparr>dcache := c, cpu_mem := M\<rparr>"
  have d1: "data_word va pa u ?c1" by (rule data_word_stored [OF assms(1) w(3,6,4,5)])
  from data_read32_ok [OF d1, of vt] obtain c2 M2 where
    r: "data_read32 vt pa u ?c1 = Inr (le32 (data_view ?c1 u) pa, ?c1\<lparr>dcache := c2, cpu_mem := M2\<rparr>)"
      "data_view (?c1\<lparr>dcache := c2, cpu_mem := M2\<rparr>) u = data_view ?c1 u" .
  let ?c2 = "?c1\<lparr>dcache := c2, cpu_mem := M2\<rparr>"
  let ?c3 = "if rd d' = 0 then ?c2 else ?c2\<lparr>regfile := (regfile ?c2)[unat (rd d') := v]\<rparr>"
  have len: "length (regfile ?c2) = 32" "length (regfile ?c3) = 32" using assms(2) by simp_all
  have "exec_STW vt pc d cpu = Inr (pc + 4, False, ?c1)"
    using assms(3,5) al tr [OF assms(1)] w(1) by (simp add: exec_STW_def aligned_va_def fetch_next_def)
  moreover have "effective_va d' ?c1 = Inr va" using assms(4) get_reg_frame [of ?c1 cpu] by (simp add: effective_va_def)
  then have "exec_LDWU vt pc' d' ?c1 = Inr (pc' + 4, False, ?c3)"
    using al tr [OF d1] r(1) w(2) set_reg_val [OF assms(6) len(1), of v]
    by (simp add: exec_LDWU_def aligned_va_def fetch_next_def le32_upd32)
  moreover have "get_reg (rd d') ?c3 = Inr (if rd d' = 0 then 0 else v)"
    using get_reg_val [OF assms(6) len(2)] assms(2,6) by simp
  moreover have "data_view ?c3 u = data_view ?c1 u" using r(2) by (cases u) (simp_all add: data_view_def)
  ultimately show ?thesis using w(2) by (intro exI [of _ ?c1] exI [of _ ?c3]) simp
qed

text \<open>\<open>stw r2, 4(r1)\<close> and \<open>ldwu r3, 4(r1)\<close> with the start of the memory in \<open>r1\<close>.\<close>

definition small_data :: "(unit, unit) CPU" where
  "small_data = small_cpu\<lparr>regfile := [0, 0x80000000, 5] @ replicate 29 0\<rparr>"

theorem stw_ldwu_witness:
  "data_word 0x80000004 0x80000004 True small_data \<and>
   (\<exists>cpu1 cpu2. exec_STW undefined 0 (decode (enc_imm15 0x18 2 1 4)) small_data = Inr (4, False, cpu1) \<and>
      exec_LDWU undefined 4 (decode (enc_imm15 0x17 3 1 4)) cpu1 = Inr (8, False, cpu2) \<and> get_reg 3 cpu2 = Inr 5)"
proof -
  let ?s = "decode (enc_imm15 0x18 2 1 4)" and ?l = "decode (enc_imm15 0x17 3 1 4)"
  have d: "rd ?s = 2" "rs1 ?s = 1" "simm15 ?s = 4" "rd ?l = 3" "rs1 ?l = 1" "simm15 ?l = 4"
    using decode_enc_imm15 [of "0x18" 2 1 4] decode_enc_imm15 [of "0x17" 3 1 4] by simp_all
  have "dmmu_translate_vma 2 True (msr_zero 2 2) 0x80000004 st = Inr (0, Some 0x80000004, True)" for st
    by (simp add: dmmu_translate_vma_def msr_zero_def psr_reset_def)
  then have w: "data_word 0x80000004 0x80000004 True small_data"
    using small_mem_wf small_mem_range by (simp add: data_word_def small_data_def small_cpu_def)
  have e: "length (regfile small_data) = 32" "effective_va ?s small_data = Inr 0x80000004"
    "effective_va ?l small_data = Inr 0x80000004" "get_reg (rd ?s) small_data = Inr 5" "unat (rd ?l) < 32"
    by (simp_all add: small_data_def effective_va_def d get_reg_def nthE_def reg_less)
  from stw_ldwu [OF w e, of undefined 0 4] show ?thesis using w by (simp add: d) blast
qed

section \<open>Jumps\<close>

lemma exec_JMP_effect:
  assumes "length (regfile cpu) = 32" and "ras_wf (cpu_ras cpu)" and "unat (rd d) < 32" and "unat (rs1 d) < 32"
    and "get_reg (rs1 d) cpu = Inr a"
  shows "\<exists>r. exec_JMP pc d cpu = Inr (if rd d = rs1 d \<and> rd d \<noteq> 0 then pc + 4 else a, False,
      cpu\<lparr>regfile := if rd d = 0 then regfile cpu else (regfile cpu)[unat (rd d) := pc + 4], cpu_ras := r\<rparr>) \<and> ras_wf r \<and>
    (rd d \<noteq> ADDR_RLNK \<longrightarrow> r = (if rs1 d = ADDR_RLNK then ras_pop (cpu_ras cpu) else cpu_ras cpu))"
proof -
  define R where "R = (if rd d = 0 then regfile cpu else (regfile cpu)[unat (rd d) := pc + 4])"
  define t where "t = (if rd d = rs1 d \<and> rd d \<noteq> 0 then pc + 4 else a)"
  define p where "p = (if rs1 d = ADDR_RLNK then ras_pop (cpu_ras cpu) else cpu_ras cpu)"
  have c1: "set_reg (rd d) (pc + 4) cpu = Inr (cpu\<lparr>regfile := R\<rparr>)" using set_reg_val [OF assms(3,1)] by (simp add: R_def)
  have "rd d \<noteq> rs1 d \<longrightarrow> unat (rd d) \<noteq> unat (rs1 d)" by (simp add: word_unat_eq_iff)
  then have t: "get_reg (rs1 d) (cpu\<lparr>regfile := R\<rparr>) = Inr t"
    using assms get_reg_val [OF assms(4), of cpu] get_reg_val [OF assms(4), of "cpu\<lparr>regfile := R\<rparr>"]
    by (auto simp: R_def t_def)
  have w: "ras_wf p" using assms(2) ras_wf_pop by (simp add: p_def)
  obtain r where r: "ras_push pc t p = Inr r" using ras_push_total [OF w] by blast
  have "exec_JMP pc d cpu = Inr (t, False, cpu\<lparr>regfile := R, cpu_ras := if rd d = ADDR_RLNK then r else p\<rparr>)"
    using c1 t r by (cases "rs1 d = ADDR_RLNK"; cases "rd d = ADDR_RLNK") (simp_all add: exec_JMP_def push_ras_def p_def)
  then show ?thesis
    unfolding R_def [symmetric] t_def [symmetric] p_def [symmetric]
    using w ras_wf_push [OF w r] by (intro exI [of _ "if rd d = ADDR_RLNK then r else p"]) simp
qed

text \<open>
  Claim C32: \<open>JMP\<close> stores the link address before it reads its target. It goes to the value of \<open>rs1\<close> and leaves the address of the next instruction in
  \<open>rd\<close>, except that when both are the same register other than 0 it falls through to the next
  instruction, whatever the register held. Nothing else changes but the return-address stack: popped when \<open>rs1\<close> is the link
  register, then pushed when \<open>rd\<close> is.
\<close>

theorem jmp_target:
  assumes "length (regfile cpu) = 32" and "ras_wf (cpu_ras cpu)" and "unat (rd d) < 32" and "unat (rs1 d) < 32"
    and "get_reg (rs1 d) cpu = Inr a"
  shows "\<exists>r. exec_JMP pc d cpu = Inr (if rd d = rs1 d \<and> rd d \<noteq> 0 then pc + 4 else a, False,
      cpu\<lparr>regfile := if rd d = 0 then regfile cpu else (regfile cpu)[unat (rd d) := pc + 4], cpu_ras := r\<rparr>) \<and> ras_wf r \<and>
    (rd d \<noteq> ADDR_RLNK \<longrightarrow> r = (if rs1 d = ADDR_RLNK then ras_pop (cpu_ras cpu) else cpu_ras cpu))"
  using exec_JMP_effect [OF assms] .

theorem jmp_target_witness:
  "length (regfile small_data) = 32 \<and> ras_wf (cpu_ras small_data) \<and>
   (\<exists>cpu'. exec_JMP 0x1000 (decode (enc_fmt1 0xd 1 1 0)) small_data = Inr (0x1004, False, cpu'))"
proof -
  let ?d = "decode (enc_fmt1 0xd 1 1 0)"
  have d: "rd ?d = 1" "rs1 ?d = 1" using decode_enc_fmt1 [of "0xd" 1 1 0] by simp_all
  have e: "length (regfile small_data) = 32" "ras_wf (cpu_ras small_data)" "unat (rd ?d) < 32" "unat (rs1 ?d) < 32"
    "get_reg (rs1 ?d) small_data = Inr 0x80000000"
    by (simp_all add: small_data_def d get_reg_def nthE_def reg_less small_cpu_def ras_wf_new)
  from jmp_target [OF e, of "0x1000"] show ?thesis using e(1,2) by (auto simp: d)
qed

end
