(* ===== verification/Difftest.thy ===== *)
theory Difftest
  imports CpuProps
begin

text \<open>
  Differential testing, \<open>em/csrc/dpi-c.cc\<close>: the simulated design reports the instructions it commits, two per cycle at most, and after each cycle the interpreter executes as many
  and the two are compared. The file-scope variables are the record \<open>difftest\<close>, with the interpreter the pointer \<open>dpic_emu_CPU\<close> refers to. Of the
  class \<open>Emu\<close> the code uses the cycle counter, an argument here, and \<open>clk\<close>, a parameter over the state \<open>'e\<close> of the simulation: it is called only while the
  process is being ended. The main result is that a cycle passes exactly when it is a lock-step of the two machines, given as an inductive relation.
\<close>

section \<open>State\<close>

abbreviation (input) rtl_num_channel :: nat where "rtl_num_channel \<equiv> 2"

record ('cb, 'dv) difftest =
  dpic_enable :: bool
  dpic_emu_CPU :: "('cb, 'dv) CPU"
  rtl_regfile :: "cpu_word_t list"
  rtl_pc :: vm_addr_t
  rtl_num_commit :: u64
  rtl_last_commit_cycle :: u64
  rtl_commit_timeout_max :: u64
  rtl_pc_queue :: "PCQueue option"
  rtl_valid :: "u8 list"
  rtl_cmt_pc :: "u32 list"
  rtl_insn :: "u32 list"
  rtl_wen :: "u8 list"
  rtl_wnum :: "u8 list"
  rtl_wdata :: "u32 list"
  rtl_excp :: "u8 list"
  rtl_excp_vect :: "u32 list"
  rtl_irqc_irr :: u32

text \<open>Static variables start as zero; the interpreter is given by \<open>startup_difftest\<close>.\<close>

definition difftest_static :: "('cb, 'dv) CPU \<Rightarrow> ('cb, 'dv) difftest" where
  "difftest_static cpu = \<lparr>dpic_enable = False, dpic_emu_CPU = cpu, rtl_regfile = replicate 32 0, rtl_pc = 0, rtl_num_commit = 0,
     rtl_last_commit_cycle = 0, rtl_commit_timeout_max = 0, rtl_pc_queue = None, rtl_valid = replicate 2 0, rtl_cmt_pc = replicate 2 0,
     rtl_insn = replicate 2 0, rtl_wen = replicate 2 0, rtl_wnum = replicate 2 0, rtl_wdata = replicate 2 0, rtl_excp = replicate 2 0,
     rtl_excp_vect = replicate 2 0, rtl_irqc_irr = 0\<rparr>"

definition startup_difftest :: "('cb, 'dv) CPU \<Rightarrow> u64 \<Rightarrow> ('cb, 'dv) difftest \<Rightarrow> ('cb, 'dv) difftest" where
  "startup_difftest cpu commit_timeout_max st =
     st\<lparr>dpic_enable := True, dpic_emu_CPU := cpu, rtl_num_commit := 0,
       rtl_pc_queue := (case rtl_pc_queue st of None \<Rightarrow> Some pcq_new | Some q \<Rightarrow> Some q),
       rtl_commit_timeout_max := commit_timeout_max\<rparr>"

section \<open>Ending the process\<close>

fun terminate_clks :: "('e \<Rightarrow> halt + bool \<times> 'e) \<Rightarrow> nat \<Rightarrow> 'e \<Rightarrow> halt + 'e" where
  "terminate_clks clk 0 e = Inr e"
| "terminate_clks clk (Suc n) e = bnd (clk e) (\<lambda>(fin, e'). if fin then Inr e' else terminate_clks clk n e')"

text \<open>\<open>finish\<close> closes the wave file. Nothing returns from here.\<close>

definition difftest_terminate :: "('e \<Rightarrow> halt + bool \<times> 'e) \<Rightarrow> 'e \<Rightarrow> halt + 'a" where
  "difftest_terminate clk e = bnd (terminate_clks clk 10 e) (\<lambda>_. Inl (Panic 0))"

section \<open>What the design reports\<close>

definition dpic_sync_irqc :: "u32 \<Rightarrow> ('cb, 'dv) difftest \<Rightarrow> ('cb, 'dv) difftest" where
  "dpic_sync_irqc irqc_irr st = st\<lparr>rtl_irqc_irr := irqc_irr\<rparr>"

definition dpic_commit_inst ::
  "u32 \<Rightarrow> u8 \<Rightarrow> u32 \<Rightarrow> u32 \<Rightarrow> u8 \<Rightarrow> u8 \<Rightarrow> u32 \<Rightarrow> u8 \<Rightarrow> u32 \<Rightarrow> ('cb, 'dv) difftest \<Rightarrow> halt + ('cb, 'dv) difftest" where
  "dpic_commit_inst cmt_index valid pc insn wen wnum wdata excp excp_vect st =
     (if \<not> dpic_enable st then Inr st
      else assertE (cmt_index < of_nat rtl_num_channel) (
        let i = unat cmt_index in
        Inr (st\<lparr>rtl_valid := (rtl_valid st)[i := valid], rtl_cmt_pc := (rtl_cmt_pc st)[i := pc], rtl_insn := (rtl_insn st)[i := insn],
          rtl_wen := (rtl_wen st)[i := wen], rtl_wnum := (rtl_wnum st)[i := wnum], rtl_wdata := (rtl_wdata st)[i := wdata],
          rtl_excp := (rtl_excp st)[i := excp], rtl_excp_vect := (rtl_excp_vect st)[i := excp_vect]\<rparr>)))"

section \<open>Comparison\<close>

fun compare_regs :: "nat list \<Rightarrow> ('cb, 'dv) difftest \<Rightarrow> halt + bool" where
  "compare_regs [] st = Inr False"
| "compare_regs (i # is) st =
     bnd (get_reg (of_nat i) (dpic_emu_CPU st)) (\<lambda>right.
     bnd (nthE (rtl_regfile st) i) (\<lambda>wrong.
     if wrong \<noteq> right then Inr True else compare_regs is st))"

definition difftest_compare_reg :: "('cb, 'dv) difftest \<Rightarrow> halt + bool" where
  "difftest_compare_reg st = compare_regs [0..<32] st"

text \<open>The register write of a committed instruction: \<open>None\<close> is the report of a write to register 0. The register number is a \<open>char\<close>, sign-extended before the index is formed.\<close>

definition commit_write :: "nat \<Rightarrow> ('cb, 'dv) difftest \<Rightarrow> halt + ('cb, 'dv) difftest option" where
  "commit_write i st =
     (if rtl_wen st ! i = 0 then Inr (Some st)
      else if rtl_wnum st ! i = 0 then Inr None
      else bnd (updE (rtl_regfile st) (unat (scast (rtl_wnum st ! i) :: u32)) (rtl_wdata st ! i)) (\<lambda>r.
        Inr (Some (st\<lparr>rtl_regfile := r\<rparr>))))"

text \<open>Before \<open>RMSR\<close> of the time stamp, the interpreter takes over the value the design has read.\<close>

definition sync_tsr :: "nat \<Rightarrow> ('cb, 'dv) difftest \<Rightarrow> halt + ('cb, 'dv) difftest" where
  "sync_tsr i st =
     (let insn = rtl_insn st ! i in
      if INS32_GET_BITS insn INS32_MASK_OPCODE INS32_SHIFTRIGHT_OPCODE = ucast INS32_OP_RMSR then
        bnd (nthE (rtl_regfile st) (unat (INS32_GET_BITS insn INS32_MASK_RD INS32_SHIFTRIGHT_RD))) (\<lambda>val.
        bnd (nthE (rtl_regfile st) (unat (INS32_GET_BITS insn INS32_MASK_RS1 INS32_SHIFTRIGHT_RS1))) (\<lambda>a.
        Inr (if a OR INS32_GET_BITS insn INS32_MASK_IMM15 INS32_SHIFTRIGHT_IMM15 = ucast MSR_TSR
             then st\<lparr>dpic_emu_CPU := msr_set_tsr val (dpic_emu_CPU st)\<rparr> else st)))
      else Inr st)"

definition sync_irq :: "nat \<Rightarrow> ('cb, 'dv) difftest \<Rightarrow> ('cb, 'dv) difftest" where
  "sync_irq i st =
     (let cpu = dpic_emu_CPU st in
      if rtl_excp_vect st ! i = vect_EIRQ cpu
      then st\<lparr>dpic_emu_CPU := cpu\<lparr>cpu_msr := irqc_set_irr (rtl_irqc_irr st) (cpu_msr cpu)\<rparr>\<rparr> else st)"

text \<open>
  One step of the interpreter and the comparison of its address, instruction and exception with those of channel \<open>i\<close>. The event's
  instruction is not assigned when the fetch fails, so comparing it then is undefined.
\<close>

definition emu_compare :: "('cb, 'dv) vtable \<Rightarrow> nat \<Rightarrow> ('cb, 'dv) difftest \<Rightarrow> halt + ('cb, 'dv) difftest \<times> bool" where
  "emu_compare vt i st =
     (let cpu = dpic_emu_CPU st; emu_pc = cpu_pc cpu in
      bnd (cpu_step vt emu_pc True cpu) (\<lambda>(emu_npc, ev, cpu').
      let st' = st\<lparr>dpic_emu_CPU := cpu'\<lparr>cpu_pc := emu_npc\<rparr>\<rparr> in
      if rtl_cmt_pc st ! i \<noteq> emu_pc then Inr (st', False)
      else bnd (if rtl_excp st ! i = 0
                then case ev_insn ev of None \<Rightarrow> Inl Undefined | Some insn \<Rightarrow> Inr (rtl_insn st ! i \<noteq> insn)
                else Inr False) (\<lambda>different.
      if different then Inr (st', False)
      else if (if ev_excp ev then 1 else 0) \<noteq> rtl_excp st ! i then Inr (st', False)
      else Inr (st', True))))"

definition push_rtl :: "nat \<Rightarrow> ('cb, 'dv) difftest \<Rightarrow> halt + ('cb, 'dv) difftest" where
  "push_rtl i st =
     (case rtl_pc_queue st of
        None \<Rightarrow> Inl Undefined
      | Some q \<Rightarrow> bnd (pcq_push (rtl_cmt_pc st ! i) (rtl_insn st ! i) q) (\<lambda>q'.
          Inr (st\<lparr>rtl_pc := rtl_cmt_pc st ! i, rtl_pc_queue := Some q'\<rparr>)))"

text \<open>The loop over the channels; a mismatch leaves it. The flag is \<open>validated\<close>.\<close>

fun check_channels :: "('cb, 'dv) vtable \<Rightarrow> nat list \<Rightarrow> ('cb, 'dv) difftest \<Rightarrow> halt + ('cb, 'dv) difftest \<times> bool" where
  "check_channels vt [] st = Inr (st, True)"
| "check_channels vt (i # is) st =
     (if rtl_valid st ! i = 0 then check_channels vt is st
      else
        bnd (push_rtl i st) (\<lambda>st1.
        bnd (if rtl_excp st1 ! i = 0
             then bnd (commit_write i st1) (\<lambda>w. case w of None \<Rightarrow> Inr None | Some st2 \<Rightarrow> bnd (sync_tsr i st2) (\<lambda>st3. Inr (Some st3)))
             else Inr (Some (sync_irq i st1))) (\<lambda>r.
        case r of
          None \<Rightarrow> Inr (st1, False)
        | Some st4 \<Rightarrow> bnd (emu_compare vt i st4) (\<lambda>(st5, ok). if ok then check_channels vt is st5 else Inr (st5, False)))))"

definition num_valid :: "('cb, 'dv) difftest \<Rightarrow> nat" where
  "num_valid st = length (filter (\<lambda>i. rtl_valid st ! i \<noteq> 0) [0..<rtl_num_channel])"

definition dpic_step ::
  "('cb, 'dv) vtable \<Rightarrow> ('e \<Rightarrow> halt + bool \<times> 'e) \<Rightarrow> 'e \<Rightarrow> u64 \<Rightarrow> ('cb, 'dv) difftest \<Rightarrow> halt + ('cb, 'dv) difftest" where
  "dpic_step vt clk e cycle st =
     (if \<not> dpic_enable st then Inr st
      else
        let st0 = st\<lparr>rtl_num_commit := rtl_num_commit st + of_nat (num_valid st)\<rparr> in
        if cycle - rtl_last_commit_cycle st0 > rtl_commit_timeout_max st0 then difftest_terminate clk e
        else if num_valid st = 0 then Inr st0
        else
          bnd (check_channels vt [0..<rtl_num_channel] (st0\<lparr>rtl_last_commit_cycle := cycle\<rparr>)) (\<lambda>(st1, validated).
          bnd (difftest_compare_reg st1) (\<lambda>differ.
          if validated \<and> \<not> differ then Inr st1 else difftest_terminate clk e)))"

section \<open>Lock-step\<close>

text \<open>
  The specification: how the two machines move together over what channel \<open>i\<close> reports. An idle channel moves nothing. A retired instruction writes its register in the copy of the
  design's registers, and the interpreter, at the reported address, executes the reported instruction without an exception. A trap makes the
  interpreter, at the reported address, raise an exception, an interrupt with the pending lines of the design.
\<close>

inductive lock_step :: "('cb, 'dv) vtable \<Rightarrow> nat \<Rightarrow> ('cb, 'dv) difftest \<Rightarrow> ('cb, 'dv) difftest \<Rightarrow> bool" for vt i where
  idle: "rtl_valid st ! i = 0 \<Longrightarrow> lock_step vt i st st"
| retire: "rtl_valid st ! i \<noteq> 0 \<Longrightarrow> rtl_excp st ! i = 0 \<Longrightarrow> push_rtl i st = Inr st1 \<Longrightarrow> commit_write i st1 = Inr (Some st2) \<Longrightarrow>
    sync_tsr i st2 = Inr st3 \<Longrightarrow> cpu_pc (dpic_emu_CPU st3) = rtl_cmt_pc st ! i \<Longrightarrow>
    cpu_step vt (rtl_cmt_pc st ! i) True (dpic_emu_CPU st3) = Inr (npc, \<lparr>ev_excp = False, ev_insn = Some (rtl_insn st ! i)\<rparr>, cpu') \<Longrightarrow>
    lock_step vt i st (st3\<lparr>dpic_emu_CPU := cpu'\<lparr>cpu_pc := npc\<rparr>\<rparr>)"
| trap: "rtl_valid st ! i \<noteq> 0 \<Longrightarrow> rtl_excp st ! i = 1 \<Longrightarrow> push_rtl i st = Inr st1 \<Longrightarrow>
    cpu_pc (dpic_emu_CPU st1) = rtl_cmt_pc st ! i \<Longrightarrow>
    cpu_step vt (rtl_cmt_pc st ! i) True (dpic_emu_CPU (sync_irq i st1)) = Inr (npc, ev, cpu') \<Longrightarrow> ev_excp ev \<Longrightarrow>
    lock_step vt i st ((sync_irq i st1)\<lparr>dpic_emu_CPU := cpu'\<lparr>cpu_pc := npc\<rparr>\<rparr>)"

inductive_cases lock_stepE: "lock_step vt i st st'"

text \<open>What the parts of a channel's step leave alone.\<close>

definition same_report :: "('cb, 'dv) difftest \<Rightarrow> ('cb, 'dv) difftest \<Rightarrow> bool" where
  "same_report st' st \<longleftrightarrow> rtl_valid st' = rtl_valid st \<and> rtl_cmt_pc st' = rtl_cmt_pc st \<and> rtl_insn st' = rtl_insn st \<and>
     rtl_excp st' = rtl_excp st \<and> rtl_excp_vect st' = rtl_excp_vect st \<and> length (rtl_regfile st') = length (rtl_regfile st)"

lemma push_rtl_frame: "push_rtl i st = Inr st' \<Longrightarrow> same_report st' st \<and> dpic_emu_CPU st' = dpic_emu_CPU st"
  by (auto simp: push_rtl_def same_report_def split: option.splits)

lemma commit_write_frame: "commit_write i st = Inr (Some st') \<Longrightarrow> same_report st' st \<and> dpic_emu_CPU st' = dpic_emu_CPU st"
  by (auto simp: commit_write_def same_report_def updE_eq_Inr split: if_splits)

lemma sync_tsr_frame: "sync_tsr i st = Inr st' \<Longrightarrow> same_report st' st \<and> cpu_pc (dpic_emu_CPU st') = cpu_pc (dpic_emu_CPU st)"
  by (auto simp: sync_tsr_def same_report_def msr_set_tsr_def Let_def split: if_splits)

lemma sync_irq_frame: "same_report (sync_irq i st) st \<and> cpu_pc (dpic_emu_CPU (sync_irq i st)) = cpu_pc (dpic_emu_CPU st)"
  by (simp add: sync_irq_def same_report_def Let_def)

lemma same_report_trans: "same_report a b \<Longrightarrow> same_report b c \<Longrightarrow> same_report a c"
  by (simp add: same_report_def)

lemma emu_compare_iff:
  "emu_compare vt i st = Inr (st', True) \<longleftrightarrow> (\<exists>npc ev cpu'.
     cpu_step vt (cpu_pc (dpic_emu_CPU st)) True (dpic_emu_CPU st) = Inr (npc, ev, cpu') \<and> rtl_cmt_pc st ! i = cpu_pc (dpic_emu_CPU st) \<and>
     (rtl_excp st ! i = 0 \<longrightarrow> ev_insn ev = Some (rtl_insn st ! i)) \<and> of_bool (ev_excp ev) = rtl_excp st ! i \<and>
     st' = st\<lparr>dpic_emu_CPU := cpu'\<lparr>cpu_pc := npc\<rparr>\<rparr>)"
proof (cases "cpu_step vt (cpu_pc (dpic_emu_CPU st)) True (dpic_emu_CPU st)")
  case (Inr r)
  obtain npc ev cpu' where r: "r = (npc, ev, cpu')" by (cases r)
  have b: "(if ev_excp ev then 1 else 0) = (of_bool (ev_excp ev) :: u8)" by simp
  show ?thesis
    unfolding emu_compare_def Let_def Inr r b
    by (cases "rtl_excp st ! i = 0"; cases "ev_insn ev") auto
qed (simp add: emu_compare_def Let_def)

lemma lock_step_valid: "lock_step vt i st st' \<Longrightarrow> rtl_valid st ! i = 0 \<Longrightarrow> st' = st"
  by (auto elim: lock_stepE)

text \<open>A channel that passes the loop's checks is a lock-step, and conversely.\<close>

lemma check_retire:
  assumes v: "rtl_valid st ! i \<noteq> 0" and x: "rtl_excp st ! i = 0" and c: "check_channels vt (i # is) st = Inr (st', True)"
  shows "\<exists>st1. lock_step vt i st st1 \<and> check_channels vt is st1 = Inr (st', True)"
proof -
  obtain st1 where p: "push_rtl i st = Inr st1" using c v by auto
  note f = push_rtl_frame [OF p]
  with c p x v obtain st2 st3 st5 where
    s: "commit_write i st1 = Inr (Some st2)" "sync_tsr i st2 = Inr st3" "emu_compare vt i st3 = Inr (st5, True)"
      "check_channels vt is st5 = Inr (st', True)"
    by (auto simp: same_report_def split: option.splits if_splits)
  note g = commit_write_frame [OF s(1)] sync_tsr_frame [OF s(2)]
  from s(3) obtain npc ev cpu' where
    e: "cpu_step vt (cpu_pc (dpic_emu_CPU st3)) True (dpic_emu_CPU st3) = Inr (npc, ev, cpu')" "rtl_cmt_pc st3 ! i = cpu_pc (dpic_emu_CPU st3)"
      "ev_insn ev = Some (rtl_insn st3 ! i)" "\<not> ev_excp ev" "st5 = st3\<lparr>dpic_emu_CPU := cpu'\<lparr>cpu_pc := npc\<rparr>\<rparr>"
    using x f g by (auto simp: emu_compare_iff same_report_def split: if_splits)
  have "ev = \<lparr>ev_excp = False, ev_insn = Some (rtl_insn st ! i)\<rparr>" using e(3,4) f g by (simp add: same_report_def)
  then have "lock_step vt i st st5"
    unfolding e(5) by (intro lock_step.retire [OF v x p s(1,2)]) (use e(1,2) f g in \<open>simp_all add: same_report_def\<close>)
  then show ?thesis using s(4) by blast
qed

lemma check_trap:
  assumes v: "rtl_valid st ! i \<noteq> 0" and x: "rtl_excp st ! i \<noteq> 0" and c: "check_channels vt (i # is) st = Inr (st', True)"
  shows "\<exists>st1. lock_step vt i st st1 \<and> check_channels vt is st1 = Inr (st', True)"
proof -
  obtain st1 where p: "push_rtl i st = Inr st1" using c v by auto
  note f = push_rtl_frame [OF p] sync_irq_frame [of i st1]
  with c p x v obtain st5 where s: "emu_compare vt i (sync_irq i st1) = Inr (st5, True)" "check_channels vt is st5 = Inr (st', True)"
    by (auto simp: same_report_def split: option.splits if_splits)
  from s(1) obtain npc ev cpu' where
    e: "cpu_step vt (cpu_pc (dpic_emu_CPU (sync_irq i st1))) True (dpic_emu_CPU (sync_irq i st1)) = Inr (npc, ev, cpu')"
      "rtl_cmt_pc st ! i = cpu_pc (dpic_emu_CPU st1)" "of_bool (ev_excp ev) = rtl_excp st ! i"
      "st5 = (sync_irq i st1)\<lparr>dpic_emu_CPU := cpu'\<lparr>cpu_pc := npc\<rparr>\<rparr>"
    using f by (auto simp: emu_compare_iff same_report_def)
  have "ev_excp ev" "rtl_excp st ! i = 1" using e(3) x by (cases "ev_excp ev"; simp)+
  then have "lock_step vt i st st5"
    unfolding e(4) by (intro lock_step.trap [OF v _ p]) (use e(1,2) f in \<open>simp_all add: same_report_def\<close>)
  then show ?thesis using s(2) by blast
qed

lemma lock_step_check:
  assumes "lock_step vt i st st5" and r: "check_channels vt is st5 = Inr (st', True)"
  shows "check_channels vt (i # is) st = Inr (st', True)"
  using assms(1)
proof (cases rule: lock_step.cases)
  case idle
  then show ?thesis using r by simp
next
  case (retire st1 st2 st3 npc cpu')
  note f = push_rtl_frame [OF retire(4)] commit_write_frame [OF retire(5)] sync_tsr_frame [OF retire(6)]
  have "emu_compare vt i st3 = Inr (st5, True)" using retire f by (simp add: emu_compare_iff same_report_def)
  then show ?thesis using retire r f by (simp add: same_report_def)
next
  case (trap st1 npc ev cpu')
  note f = push_rtl_frame [OF trap(4)] sync_irq_frame [of i st1]
  have "emu_compare vt i (sync_irq i st1) = Inr (st5, True)" using trap f by (simp add: emu_compare_iff same_report_def)
  then show ?thesis using trap r f by (simp add: same_report_def)
qed

lemma check_channel_iff:
  "check_channels vt (i # is) st = Inr (st', True) \<longleftrightarrow> (\<exists>st1. lock_step vt i st st1 \<and> check_channels vt is st1 = Inr (st', True))"
proof (cases "rtl_valid st ! i = 0")
  case True
  then have "check_channels vt (i # is) st = check_channels vt is st" "lock_step vt i st st" by (simp_all add: lock_step.idle)
  then show ?thesis using True lock_step_valid by metis
next
  case False
  then show ?thesis
    using check_retire [of st i vt "is" st'] check_trap [of st i vt "is" st'] lock_step_check [of vt i st _ "is" st'] by blast
qed

lemma lock_step_report:
  assumes "lock_step vt i st st'"
  shows "same_report st' st"
  using assms
proof (cases rule: lock_step.cases)
  case (retire st1 st2 st3 npc cpu')
  then show ?thesis
    using push_rtl_frame [OF retire(4)] commit_write_frame [OF retire(5)] sync_tsr_frame [OF retire(6)] by (auto simp: same_report_def)
next
  case (trap st1 npc ev cpu')
  then show ?thesis using push_rtl_frame [OF trap(4)] sync_irq_frame [of i st1] by (auto simp: same_report_def)
qed (auto simp: same_report_def)

lemma compare_regs_False:
  "\<forall>i \<in> set is. i < length (rtl_regfile st) \<Longrightarrow>
   compare_regs is st = Inr False \<longleftrightarrow> (\<forall>i \<in> set is. get_reg (of_nat i) (dpic_emu_CPU st) = Inr (rtl_regfile st ! i))"
  by (induction "is") auto

lemma terminate_never_returns [simp]: "difftest_terminate clk e \<noteq> Inr x"
  by (simp add: difftest_terminate_def)

text \<open>The exact condition under which a cycle with commits returns.\<close>

lemma dpic_step_lock_step:
  assumes "dpic_enable st" and "num_valid st \<noteq> 0" and "cycle - rtl_last_commit_cycle st \<le> rtl_commit_timeout_max st"
    and "length (rtl_regfile st) = 32"
  shows "dpic_step vt clk e cycle st = Inr st' \<longleftrightarrow>
    (\<exists>st1. lock_step vt 0 (st\<lparr>rtl_num_commit := rtl_num_commit st + of_nat (num_valid st), rtl_last_commit_cycle := cycle\<rparr>) st1 \<and>
       lock_step vt 1 st1 st' \<and> (\<forall>i < 32. get_reg (of_nat i) (dpic_emu_CPU st') = Inr (rtl_regfile st' ! i)))"
proof -
  let ?st = "st\<lparr>rtl_num_commit := rtl_num_commit st + of_nat (num_valid st), rtl_last_commit_cycle := cycle\<rparr>"
  have u: "[0..<2] = [0, 1 :: nat]" by (simp add: upt_rec)
  have t: "(rtl_commit_timeout_max st < cycle - rtl_last_commit_cycle st) = False" using assms(3) by (simp add: not_less)
  have d: "dpic_step vt clk e cycle st = bnd (check_channels vt [0, 1] ?st) (\<lambda>(st1, validated).
      bnd (difftest_compare_reg st1) (\<lambda>differ. if validated \<and> \<not> differ then Inr st1 else difftest_terminate clk e))"
    unfolding dpic_step_def Let_def u using assms(1,2) by (simp add: t del: check_channels.simps)
  have "dpic_step vt clk e cycle st = Inr st' \<longleftrightarrow> check_channels vt [0, 1] ?st = Inr (st', True) \<and> difftest_compare_reg st' = Inr False"
    unfolding d bnd_eq_Inr by (auto simp del: check_channels.simps split: if_splits)
  also have "check_channels vt [0, 1] ?st = Inr (st', True) \<longleftrightarrow> (\<exists>st1. lock_step vt 0 ?st st1 \<and> lock_step vt 1 st1 st')"
    by (simp only: check_channel_iff check_channels.simps(1)) auto
  also have "(\<exists>st1. lock_step vt 0 ?st st1 \<and> lock_step vt 1 st1 st') \<and> difftest_compare_reg st' = Inr False \<longleftrightarrow>
      (\<exists>st1. lock_step vt 0 ?st st1 \<and> lock_step vt 1 st1 st' \<and> (\<forall>i < 32. get_reg (of_nat i) (dpic_emu_CPU st') = Inr (rtl_regfile st' ! i)))"
  proof -
    have "difftest_compare_reg st' = Inr False \<longleftrightarrow> (\<forall>i < 32. get_reg (of_nat i) (dpic_emu_CPU st') = Inr (rtl_regfile st' ! i))"
      if "lock_step vt 0 ?st st1" "lock_step vt 1 st1 st'" for st1
    proof -
      have "length (rtl_regfile st') = 32"
        using lock_step_report [OF that(1)] lock_step_report [OF that(2)] assms(4) by (simp add: same_report_def)
      then show ?thesis by (subst difftest_compare_reg_def) (auto simp: compare_regs_False)
    qed
    then show ?thesis by blast
  qed
  finally show ?thesis .
qed

text \<open>
  Claim C3: differential testing accepts exactly lock-steps. In a cycle in which the design commits something and the commit timeout has not expired, the check
  returns if and only if what the two channels report is, in order, a lock-step of design and interpreter and afterwards every register of the interpreter equals the design's; it then returns the state
  reached by those steps. In every other case the process ends.
\<close>

theorem difftest_lock_step:
  assumes "dpic_enable st" and "num_valid st \<noteq> 0" and "cycle - rtl_last_commit_cycle st \<le> rtl_commit_timeout_max st"
    and "length (rtl_regfile st) = 32"
  shows "dpic_step vt clk e cycle st = Inr st' \<longleftrightarrow>
    (\<exists>st1. lock_step vt 0 (st\<lparr>rtl_num_commit := rtl_num_commit st + of_nat (num_valid st), rtl_last_commit_cycle := cycle\<rparr>) st1 \<and>
       lock_step vt 1 st1 st' \<and> (\<forall>i < 32. get_reg (of_nat i) (dpic_emu_CPU st') = Inr (rtl_regfile st' ! i)))"
  using dpic_step_lock_step [OF assms] .

text \<open>The small machine at a barrier, and a design that has committed it on its first channel.\<close>

definition small_barrier :: insn_t where
  "small_barrier = enc_fmt1 0x20 0 0 0"

definition small_difftest :: "(unit, unit) difftest" where
  "small_difftest = (startup_difftest (small_prog small_barrier) 100000 (difftest_static (small_prog small_barrier)))\<lparr>
     rtl_regfile := [0, 7, 5] @ replicate 29 0, rtl_valid := [1, 0], rtl_cmt_pc := [0x80000000, 0], rtl_insn := [small_barrier, 0]\<rparr>"

lemma get_reg_nth:
  assumes "length (regfile cpu) = 32" and "regfile cpu ! 0 = 0" and "i < 32"
  shows "get_reg (of_nat i) cpu = Inr (regfile cpu ! i)"
proof -
  have "unat (of_nat i :: u16) = i" using assms(3) by (simp add: unat_of_nat)
  moreover have "(of_nat i :: u16) = 0 \<longleftrightarrow> i = 0" using assms(3) by (metis calculation unat_eq_zero)
  moreover have "\<not> 32 \<le> (of_nat i :: u16)" using assms(3) calculation(1) by (simp add: word_le_nat_alt)
  ultimately show ?thesis using assms by (auto simp: get_reg_def nthE_def)
qed

theorem difftest_lock_step_witness:
  "dpic_enable small_difftest \<and> num_valid small_difftest \<noteq> 0 \<and>
   (\<exists>st'. dpic_step undefined (\<lambda>e. Inr (True, e)) () 17 small_difftest = Inr st' \<and> cpu_pc (dpic_emu_CPU st') = 0x80000004)"
proof -
  have f: "dpic_enable small_difftest" "num_valid small_difftest = 1" "length (rtl_regfile small_difftest) = 32"
    "(17 :: u64) - rtl_last_commit_cycle small_difftest \<le> rtl_commit_timeout_max small_difftest"
    by (simp_all add: small_difftest_def startup_difftest_def difftest_static_def num_valid_def upt_rec)
  let ?c = "small_prog small_barrier" and ?st = "small_difftest\<lparr>rtl_num_commit := 1, rtl_last_commit_cycle := 17\<rparr>"
  have "undisturbed True ?c" using small_prog_ready(1) [of small_barrier] by (simp add: undisturbed_def)
  from step_fetches [OF this small_prog_ready(2), of undefined] obtain c M q where
    "cpu_step undefined 0x80000000 True ?c = bnd (exec_insn undefined 0x80000000 (decode small_barrier) (?c\<lparr>icache := c, cpu_mem := M, pc_queue := q\<rparr>))
        (\<lambda>(npc, excp, cpu'). Inr (npc, \<lparr>ev_excp = excp, ev_insn = Some small_barrier\<rparr>, cpu'))"
    unfolding small_prog_ready(3) by blast
  then have s: "cpu_step undefined 0x80000000 True ?c =
      Inr (0x80000004, \<lparr>ev_excp = False, ev_insn = Some small_barrier\<rparr>, ?c\<lparr>icache := c, cpu_mem := M, pc_queue := q\<rparr>)"
    by (simp add: exec_insn_def small_barrier_def decode_enc_fmt1 alu_reg_def alu_imm_def branch_cc_def fetch_next_def)
  obtain q' where q': "pcq_push 0x80000000 small_barrier pcq_new = Inr q'" using pcq_push_refines [OF pcq_wf_new(1)] by metis
  define st1 where "st1 = ?st\<lparr>rtl_pc := 0x80000000, rtl_pc_queue := Some q'\<rparr>"
  define st2 where "st2 = st1\<lparr>dpic_emu_CPU := (?c\<lparr>icache := c, cpu_mem := M, pc_queue := q\<rparr>)\<lparr>cpu_pc := 0x80000004\<rparr>\<rparr>"
  note defs = small_difftest_def startup_difftest_def difftest_static_def
  have d: "rtl_valid ?st = [1, 0]" "rtl_excp ?st = [0, 0]" "rtl_cmt_pc ?st = [0x80000000, 0]" "rtl_insn ?st = [small_barrier, 0]"
    "rtl_wen ?st = [0, 0]" "dpic_emu_CPU ?st = ?c" "cpu_pc ?c = 0x80000000" "rtl_pc_queue ?st = Some pcq_new"
    by (simp_all add: defs small_prog_def small_cpu_def numeral_2_eq_2)
  have p: "push_rtl 0 ?st = Inr st1" "commit_write 0 st1 = Inr (Some st1)"
    using d q' by (simp_all add: push_rtl_def commit_write_def st1_def)
  have "INS32_GET_BITS small_barrier INS32_MASK_OPCODE INS32_SHIFTRIGHT_OPCODE = 0x20" by (simp add: small_barrier_def enc_fmt1_def INS32_GET_BITS_def)
  then have t: "sync_tsr 0 st1 = Inr st1" using d by (simp add: sync_tsr_def st1_def)
  have "lock_step undefined 0 ?st st2" unfolding st2_def
    by (rule lock_step.retire [OF _ _ p t]) (use s d in \<open>simp_all add: st1_def\<close>)
  moreover have "lock_step undefined 1 st2 st2" by (rule lock_step.idle) (use d in \<open>simp add: st1_def st2_def\<close>)
  moreover have "\<forall>i < 32. get_reg (of_nat i) (dpic_emu_CPU st2) = Inr (rtl_regfile st2 ! i)"
    by (auto simp: get_reg_nth st1_def st2_def defs small_prog_def)
  ultimately have "dpic_step undefined (\<lambda>e. Inr (True, e)) () 17 small_difftest = Inr st2"
    using difftest_lock_step [of small_difftest 17 undefined "\<lambda>e. Inr (True, e)" "()" st2] f by (auto simp: defs)
  moreover have "cpu_pc (dpic_emu_CPU st2) = 0x80000004" by (simp add: st2_def)
  ultimately show ?thesis using f by simp
qed

text \<open>
  A mismatch ends the process with exit code 0, like a test that passes, once the clocks that complete the wave file have run.
\<close>

lemma difftest_mismatch_exit_code:
  assumes "\<And>e. \<exists>r. clk e = Inr r"
  shows "difftest_terminate clk e = Inl (Panic 0)"
proof -
  have "\<exists>e'. terminate_clks clk n e = Inr e'" for n
  proof (induction n arbitrary: e)
    case (Suc n)
    obtain fin e' where "clk e = Inr (fin, e')" using assms [of e] by auto
    then show ?case using Suc [of e'] by (cases fin) auto
  qed simp
  then obtain e' where "terminate_clks clk 10 e = Inr e'" by blast
  then show ?thesis by (simp add: difftest_terminate_def)
qed

end
