(* ===== verification/Uart.thy ===== *)
theory Uart
  imports MsrState
begin

text \<open>
  The serial port: the host side of \<open>em/csrc/peripheral/virt-uart.cc\<close>, whose file-scope variables
  are the record \<open>virt_uart\<close>, and the memory-mapped device of \<open>em/csrc/peripheral/pb-uart.cc\<close>. The branches for
  Windows (\<open>CreateFileA\<close>, \<open>ReadFile\<close> and so on) are not modelled: elsewhere the port has no
  input of its own. An operation of the device acts on the processor's model-specific registers,
  to which it is wired by \<open>irqc_set_interrupt\<close>, on the host side and on the device.
\<close>

section \<open>Host side\<close>

record virt_uart =
  vu_inited :: bool
  vu_in_difftest :: bool
  vu_dat :: u8
  vu_dat_pending_for_difftest :: bool
  vu_stdout :: "u8 list"

definition virt_uart_init :: "bool \<Rightarrow> virt_uart \<Rightarrow> int \<times> virt_uart" where
  "virt_uart_init in_difftest v =
     (let v1 = v\<lparr>vu_in_difftest := vu_in_difftest v \<or> in_difftest\<rparr> in
      if vu_inited v1 \<or> in_difftest then (0, v1) else (0, v1\<lparr>vu_inited := True\<rparr>))"

definition virt_uart_putch :: "u8 \<Rightarrow> virt_uart \<Rightarrow> virt_uart" where
  "virt_uart_putch ch v = v\<lparr>vu_stdout := vu_stdout v @ [ch]\<rparr>"

text \<open>\<open>buf\<close> is the memory from the pointer on; a missing terminator is read past.\<close>

fun virt_uart_write :: "u8 list \<Rightarrow> virt_uart \<Rightarrow> halt + virt_uart" where
  "virt_uart_write [] v = Inl Undefined"
| "virt_uart_write (c # buf) v = (if c = 0 then Inr v else virt_uart_write buf (virt_uart_putch c v))"

text \<open>The result is the byte stored through the pointer when the function returns 1.\<close>

definition virt_uart_poll_read :: "virt_uart \<Rightarrow> u8 option \<times> virt_uart" where
  "virt_uart_poll_read v =
     (if vu_dat_pending_for_difftest v
      then (Some (vu_dat v), v\<lparr>vu_dat_pending_for_difftest := False\<rparr>)
      else (None, v))"

section \<open>Device\<close>

record DevicePbUart =
  RBR :: u8
  DLR :: u8
  IER :: u8
  FCR :: u8
  LCR_DLAB :: u8
  MCR :: u8
  LSR :: u8
  IIR :: u8
  rdy :: u8
  tx_full :: u8
  dout_overun :: u8
  dat_ready :: u8
  RBR_written :: u8
  pb_irq :: int

abbreviation (input) pb_uart_mmio_size :: u32 where "pb_uart_mmio_size \<equiv> 0x8"

type_synonym uart_world = "msr_s \<times> virt_uart \<times> DevicePbUart"

definition pb_uart_reset :: "DevicePbUart \<Rightarrow> DevicePbUart" where
  "pb_uart_reset u = \<lparr>RBR = 0, DLR = 0xa0, IER = 0, FCR = 0, LCR_DLAB = 0, MCR = 0, LSR = 0, IIR = 0x1,
     rdy = 1, tx_full = 0, dout_overun = 0, dat_ready = 0, RBR_written = 0, pb_irq = pb_irq u\<rparr>"

text \<open>The call \<open>if (!tree->in_difftest()) tree->cpu->irqc_set_interrupt(irq, level)\<close>.\<close>

definition uart_set_irq :: "bool \<Rightarrow> bool \<Rightarrow> uart_world \<Rightarrow> halt + uart_world" where
  "uart_set_irq in_difftest level = (\<lambda>(m, v, u).
     if in_difftest then Inr (m, v, u)
     else bnd (irqc_set_interrupt (pb_irq u) level m) (\<lambda>m'. Inr (m', v, u)))"

definition pb_uart_step :: "bool \<Rightarrow> uart_world \<Rightarrow> halt + uart_world" where
  "pb_uart_step in_difftest = (\<lambda>(m, v, u).
     if IIR u AND 0x1 \<noteq> 0 then
       (case virt_uart_poll_read v of (r, v1) \<Rightarrow>
        let u1 = (case r of None \<Rightarrow> u | Some b \<Rightarrow> u\<lparr>RBR := b, dat_ready := 1\<rparr>) in
        if dat_ready u1 \<noteq> 0 \<and> IER u1 AND 0x1 \<noteq> 0
        then uart_set_irq in_difftest True (m, v1, u1\<lparr>IIR := 0x4\<rparr>)
        else if tx_full u1 = 0 \<and> RBR_written u1 \<noteq> 0 \<and> IER u1 AND 0x2 \<noteq> 0
        then uart_set_irq in_difftest True (m, v1, u1\<lparr>RBR_written := 0, IIR := 0x2\<rparr>)
        else Inr (m, v1, u1))
     else Inr (m, v, u))"

definition IIR_sel :: "DevicePbUart \<Rightarrow> u8" where
  "IIR_sel u = drop_bit 1 (IIR u) AND 0x3"

text \<open>
  \<open>DLR\<close> is declared as one byte; the expressions on it are computed in \<open>int\<close> and truncated.
\<close>

definition pb_uart_put :: "bool \<Rightarrow> phy_addr_t \<Rightarrow> u8 \<Rightarrow> uart_world \<Rightarrow> halt + uart_world" where
  "pb_uart_put in_difftest addr val = (\<lambda>(m, v, u).
     if addr = 0 then
       (if LCR_DLAB u \<noteq> 0
        then Inr (m, v, u\<lparr>DLR := ucast (push_bit 8 (drop_bit 8 (ucast (DLR u) :: u32) AND 0xff) OR ucast val)\<rparr>)
        else pb_uart_step in_difftest
               (m, if in_difftest then v else virt_uart_putch val v, u\<lparr>RBR_written := 1\<rparr>))
     else if addr = 1 then
       (if LCR_DLAB u \<noteq> 0
        then Inr (m, v, u\<lparr>DLR := ucast ((ucast (DLR u) AND 0xff :: u32) OR push_bit 8 (ucast val))\<rparr>)
        else Inr (m, v, u\<lparr>IER := val AND 0x0f\<rparr>))
     else if addr = 3 then Inr (m, v, u\<lparr>LCR_DLAB := val AND push_bit 7 1\<rparr>)
     else Inr (m, v, u))"

definition pb_uart_writem8 :: "bool \<Rightarrow> phy_addr_t \<Rightarrow> u8 \<Rightarrow> uart_world \<Rightarrow> halt + uart_world" where
  "pb_uart_writem8 in_difftest addr0 val = (\<lambda>(m, v, u).
     let addr = addr0 AND (pb_uart_mmio_size - 1) in
     bnd (if IIR u AND 0x1 = 0 \<and> IIR_sel u = 0x1 \<and> addr = 0x0 \<and> LCR_DLAB u = 0
          then uart_set_irq in_difftest False (m, v, u\<lparr>IIR := IIR u OR 0x1\<rparr>)
          else Inr (m, v, u)) (\<lambda>w.
     bnd (pb_uart_put in_difftest addr val w) (pb_uart_step in_difftest)))"

text \<open>The value of a register, computed in \<open>int\<close> and truncated to \<open>uint8_t\<close>.\<close>

definition pb_uart_reg :: "phy_addr_t \<Rightarrow> DevicePbUart \<Rightarrow> u8" where
  "pb_uart_reg addr u =
     (if addr = 0 then (if LCR_DLAB u \<noteq> 0 then DLR u AND 0xff else RBR u)
      else if addr = 1 then
        (if LCR_DLAB u \<noteq> 0 then ucast (drop_bit 8 (ucast (DLR u) :: u32) AND 0xff) else IER u)
      else if addr = 2 then IIR u
      else if addr = 3 then ucast (push_bit 7 (ucast (LCR_DLAB u) :: u32) OR 0x3)
      else if addr = 4 then 0
      else if addr = 5 then
        ucast (push_bit 6 (ucast (rdy u) :: u32) OR push_bit 5 (if tx_full u = 0 then 1 else 0)
               OR push_bit 1 (ucast (dout_overun u)) OR ucast (dat_ready u))
      else if addr = 6 then 0x80
      else 0)"

definition pb_uart_readm8 :: "bool \<Rightarrow> phy_addr_t \<Rightarrow> uart_world \<Rightarrow> halt + u8 \<times> uart_world" where
  "pb_uart_readm8 in_difftest addr0 = (\<lambda>(m, v, u).
     let addr = addr0 AND (pb_uart_mmio_size - 1);
         ret = pb_uart_reg addr u in
     bnd (if IIR u AND 0x1 = 0 \<and>
             (IIR_sel u = 0x2 \<and> addr = 0x0 \<and> LCR_DLAB u = 0 \<or> IIR_sel u = 0x1 \<and> addr = 0x2 \<and> LCR_DLAB u = 0)
          then uart_set_irq in_difftest False (m, v, u\<lparr>dat_ready := 0, IIR := IIR u OR 0x1\<rparr>)
          else Inr (m, v, u)) (\<lambda>w.
     bnd (pb_uart_step in_difftest w) (\<lambda>w'. Inr (ret, w'))))"

section \<open>Well-formed states and the interrupt line\<close>

definition uart_wf :: "DevicePbUart \<Rightarrow> bool" where
  "uart_wf u \<longleftrightarrow> IIR u \<in> {1, 2, 3, 4, 5} \<and> LCR_DLAB u \<in> {0, 0x80} \<and> IER u < 16 \<and> rdy u = 1 \<and> tx_full u = 0 \<and>
     dout_overun u = 0 \<and> dat_ready u \<in> {0, 1} \<and> RBR_written u \<in> {0, 1} \<and> 0 \<le> pb_irq u \<and> pb_irq u < 32"

text \<open>The device asks for an interrupt exactly when bit 0 of \<open>IIR\<close> is clear; its line in \<open>IRR\<close> says so.\<close>

definition uart_pending :: "DevicePbUart \<Rightarrow> bool" where
  "uart_pending u \<longleftrightarrow> IIR u AND 0x1 = 0"

definition uart_ok :: "bool \<Rightarrow> uart_world \<Rightarrow> bool" where
  "uart_ok in_difftest = (\<lambda>(m, v, u).
     uart_wf u \<and> (in_difftest \<or> bit (IRR m) (nat (pb_irq u)) = uart_pending u))"

text \<open>What no operation changes: everything but the device's own line.\<close>

definition uart_frame :: "bool \<Rightarrow> uart_world \<Rightarrow> uart_world \<Rightarrow> bool" where
  "uart_frame in_difftest = (\<lambda>(m, v, u) (m', v', u').
     pb_irq u' = pb_irq u \<and> (in_difftest \<longrightarrow> IRR m' = IRR m) \<and>
     m'\<lparr>IRR := 0\<rparr> = m\<lparr>IRR := 0\<rparr> \<and> (\<forall>n. n \<noteq> nat (pb_irq u) \<longrightarrow> bit (IRR m') n = bit (IRR m) n))"

lemma uart_frame_refl: "uart_frame df w w"
  by (simp add: uart_frame_def split: prod.splits)

lemma uart_frame_trans: "uart_frame df w1 w2 \<Longrightarrow> uart_frame df w2 w3 \<Longrightarrow> uart_frame df w1 w3"
  by (cases w1; cases w2; cases w3) (auto simp: uart_frame_def)

text \<open>An operation that keeps \<open>uart_ok\<close>, changes nothing else and sends \<open>tx\<close>.\<close>

definition uart_stdout :: "uart_world \<Rightarrow> u8 list" where
  "uart_stdout w = vu_stdout (fst (snd w))"

definition uart_post :: "bool \<Rightarrow> uart_world \<Rightarrow> u8 list \<Rightarrow> halt + uart_world \<Rightarrow> bool" where
  "uart_post in_difftest w tx r \<longleftrightarrow> (\<exists>w'. r = Inr w' \<and> uart_ok in_difftest w' \<and> uart_frame in_difftest w w' \<and>
     LCR_DLAB (snd (snd w')) = LCR_DLAB (snd (snd w)) \<and> uart_stdout w' = uart_stdout w @ tx)"

lemma iir_cases:
  "x \<in> {1, 2, 3, 4, 5} \<Longrightarrow> x OR 1 \<in> {1, 2, 3, 4, 5}" "(x OR 1) AND 1 \<noteq> 0" for x :: u8
  by (auto simp: or_eq_0_iff word_nonzero_iff bit_simps)

lemma uart_set_irq_post:
  assumes "uart_wf u" "uart_pending u = l"
  shows "uart_post df (m, v, u) [] (uart_set_irq df l (m, v, u))"
proof (cases df)
  case True
  then show ?thesis
    using assms by (simp add: uart_set_irq_def uart_post_def uart_ok_def uart_frame_def)
next
  case False
  have r: "0 \<le> pb_irq u" "pb_irq u < 32" using assms(1) by (simp_all add: uart_wf_def)
  obtain irr where irr: "irqc_set_interrupt (pb_irq u) l m = Inr (m\<lparr>IRR := irr\<rparr>)"
      "\<And>n. bit irr n = (if n = nat (pb_irq u) then l else bit (IRR m) n)"
    by (rule irqc_set_interrupt_lines [OF r]) blast
  then show ?thesis
    using False assms by (simp add: uart_set_irq_def uart_post_def uart_ok_def uart_frame_def uart_stdout_def)
qed

lemma uart_post_pre: 
  assumes "uart_post df (m, v', u') tx r" "pb_irq u' = pb_irq u" "LCR_DLAB u' = LCR_DLAB u"
    "vu_stdout v' = vu_stdout v @ tx'"
  shows "uart_post df (m, v, u) (tx' @ tx) r"
  using assms by (auto simp: uart_post_def uart_frame_def uart_stdout_def)

lemma uart_set_irq_from:
  assumes "uart_wf u'" "uart_pending u' = l" "pb_irq u' = pb_irq u" "LCR_DLAB u' = LCR_DLAB u" "vu_stdout v' = vu_stdout v"
  shows "uart_post df (m, v, u) [] (uart_set_irq df l (m, v', u'))"
  using uart_post_pre [OF uart_set_irq_post [OF assms(1,2)] assms(3,4), where v = v and tx' = "[]"] assms(5) by simp

lemma uart_post_refl: "uart_ok df w \<Longrightarrow> uart_post df w [] (Inr w)"
  by (simp add: uart_post_def uart_frame_refl)

lemma uart_post_bnd:
  assumes "uart_post df w tx r"
    and "\<And>w'. uart_ok df w' \<Longrightarrow> LCR_DLAB (snd (snd w')) = LCR_DLAB (snd (snd w)) \<Longrightarrow> uart_post df w' tx' (f w')"
  shows "uart_post df w (tx @ tx') (bnd r f)"
  using assms unfolding uart_post_def by (fastforce intro: uart_frame_trans)

lemma poll_read_cases:
  obtains (none) "virt_uart_poll_read v = (None, v)"
    | (byte) b v1 where "virt_uart_poll_read v = (Some b, v1)" "vu_stdout v1 = vu_stdout v"
  by (cases "vu_dat_pending_for_difftest v") (auto simp: virt_uart_poll_read_def)

lemma pb_uart_step_post:
  assumes ok: "uart_ok df (m, v, u)"
  shows "uart_post df (m, v, u) [] (pb_uart_step df (m, v, u))"
proof (cases "uart_pending u")
  case True
  then show ?thesis using ok by (simp add: pb_uart_step_def uart_pending_def uart_post_refl)
next
  case False
  obtain r v1 where poll: "virt_uart_poll_read v = (r, v1)" "vu_stdout v1 = vu_stdout v"
    by (rule poll_read_cases [of v]) auto
  define u1 where "u1 = (case r of None \<Rightarrow> u | Some b \<Rightarrow> u\<lparr>RBR := b, dat_ready := 1\<rparr>)"
  have f: "pb_irq u1 = pb_irq u" "LCR_DLAB u1 = LCR_DLAB u" "IIR u1 = IIR u" "tx_full u1 = tx_full u"
    by (simp_all add: u1_def split: option.splits)
  have wf1: "uart_wf u1" using ok by (auto simp: u1_def uart_ok_def uart_wf_def split: option.splits)
  have rx: "uart_post df (m, v, u) [] (uart_set_irq df True (m, v1, u1\<lparr>IIR := 4\<rparr>))"
    by (rule uart_set_irq_from)
      (use wf1 f poll in \<open>simp_all add: uart_wf_def uart_pending_def\<close>)
  have tx: "uart_post df (m, v, u) [] (uart_set_irq df True (m, v1, u1\<lparr>RBR_written := 0, IIR := 2\<rparr>))"
    by (rule uart_set_irq_from)
      (use wf1 f poll in \<open>simp_all add: uart_wf_def uart_pending_def\<close>)
  have none: "uart_post df (m, v, u) [] (Inr (m, v1, u1))"
    using ok f wf1 poll by (simp add: uart_post_def uart_ok_def uart_frame_def uart_stdout_def uart_pending_def)
  have "pb_uart_step df (m, v, u) =
    (if dat_ready u1 \<noteq> 0 \<and> IER u1 AND 1 \<noteq> 0 then uart_set_irq df True (m, v1, u1\<lparr>IIR := 4\<rparr>)
     else if tx_full u1 = 0 \<and> RBR_written u1 \<noteq> 0 \<and> IER u1 AND 2 \<noteq> 0
     then uart_set_irq df True (m, v1, u1\<lparr>RBR_written := 0, IIR := 2\<rparr>) else Inr (m, v1, u1))"
    using False by (simp add: pb_uart_step_def uart_pending_def poll u1_def Let_def)
  then show ?thesis using rx tx none by presburger
qed

lemma uart_ack_post:
  assumes "uart_ok df (m, v, u)" "d \<in> {0, 1}"
  shows "uart_post df (m, v, u) [] (uart_set_irq df False (m, v, u\<lparr>dat_ready := d, IIR := IIR u OR 1\<rparr>))"
proof (rule uart_set_irq_from)
  show "uart_wf (u\<lparr>dat_ready := d, IIR := IIR u OR 1\<rparr>)"
    using assms iir_cases(1) [of "IIR u"] by (simp add: uart_ok_def uart_wf_def)
qed (simp_all add: uart_pending_def iir_cases)

lemma pb_uart_readm8_post:
  assumes "uart_ok df w"
  shows "uart_post df w [] (bnd (pb_uart_readm8 df a w) (\<lambda>(x, w'). Inr w'))"
proof -
  obtain m v u where w: "w = (m, v, u)" by (cases w)
  let ?c = "IIR u AND 1 = 0 \<and> (IIR_sel u = 2 \<and> a AND 7 = 0 \<and> LCR_DLAB u = 0 \<or> IIR_sel u = 1 \<and> a AND 7 = 2 \<and> LCR_DLAB u = 0)"
  have 1: "uart_post df w [] (if ?c then uart_set_irq df False (m, v, u\<lparr>dat_ready := 0, IIR := IIR u OR 1\<rparr>) else Inr (m, v, u))"
    using assms uart_ack_post [of df m v u 0] uart_post_refl by (simp add: w)
  have "uart_post df w ([] @ []) (bnd (if ?c then uart_set_irq df False (m, v, u\<lparr>dat_ready := 0, IIR := IIR u OR 1\<rparr>) else Inr (m, v, u))
      (pb_uart_step df))"
    by (rule uart_post_bnd [OF 1]) (metis pb_uart_step_post prod_cases3)
  moreover have "bnd (pb_uart_readm8 df a w) (\<lambda>(x, w'). Inr w') =
      bnd (if ?c then uart_set_irq df False (m, v, u\<lparr>dat_ready := 0, IIR := IIR u OR 1\<rparr>) else Inr (m, v, u)) (pb_uart_step df)"
    by (simp only: w pb_uart_readm8_def Let_def prod.case bnd_assoc) simp
  ultimately show ?thesis by simp
qed

text \<open>The effect of a store on the divisor latch access bit and on the output.\<close>

definition uart_dlab_next :: "phy_addr_t \<Rightarrow> u8 \<Rightarrow> bool \<Rightarrow> bool" where
  "uart_dlab_next a val dlab = (if a AND 7 = 3 then bit val 7 else dlab)"

definition uart_tx_byte :: "phy_addr_t \<Rightarrow> u8 \<Rightarrow> bool \<Rightarrow> u8 list" where
  "uart_tx_byte a val dlab = (if a AND 7 = 0 \<and> \<not> dlab then [val] else [])"

lemma bit_exp_8: "bit ((2 :: u8) ^ k) n \<longleftrightarrow> n = k \<and> k < 8"
  by (auto simp: bit_simps)

lemma dlab_bit: "val AND 0x80 = (if bit val 7 then 0x80 else 0)" for val :: u8
proof -
  have b: "bit (0x80 :: u8) n \<longleftrightarrow> n = 7" for n
    using bit_exp_8 [of 7 n] by simp
  show ?thesis
    by (rule bit_word_eqI) (simp only: bit_and_iff b bit_0_eq bot_apply if_distrib [of bit] if_distribR, auto)
qed

lemma and_0f_less: "val AND 0x0f < 16" for val :: u8
  using unat_and_mask_less [of val 4] by (simp add: word_less_nat_alt)

lemma pb_uart_step_post': "uart_ok df w \<Longrightarrow> uart_post df w [] (pb_uart_step df w)"
  by (cases w) (simp add: pb_uart_step_post)

lemma uart_put_post:
  assumes "uart_ok df (m, v, u)" "a AND 7 \<noteq> 3"
  shows "uart_post df (m, v, u) (if df then [] else uart_tx_byte a val (LCR_DLAB u \<noteq> 0)) (pb_uart_put df (a AND 7) val (m, v, u))"
proof -
  have wf: "uart_wf u" using assms(1) by (simp add: uart_ok_def)
  consider "a AND 7 = 0" "LCR_DLAB u = 0" | "a AND 7 = 0" "LCR_DLAB u \<noteq> 0" | "a AND 7 = 1" | "a AND 7 \<noteq> 0" "a AND 7 \<noteq> 1" by blast
  then show ?thesis
  proof cases
    case 1
    let ?v = "if df then v else virt_uart_putch val v"
    have "uart_ok df (m, ?v, u\<lparr>RBR_written := 1\<rparr>)"
      using assms(1) by (simp add: uart_ok_def uart_wf_def uart_pending_def)
    from uart_post_pre [OF pb_uart_step_post [OF this], where u = u and v = v and tx' = "if df then [] else [val]"]
    have "uart_post df (m, v, u) (if df then [] else [val]) (pb_uart_step df (m, ?v, u\<lparr>RBR_written := 1\<rparr>))"
      by (simp add: virt_uart_putch_def)
    then show ?thesis using 1 by (cases df) (simp_all add: pb_uart_put_def uart_tx_byte_def)
  next
    case 2
    then show ?thesis
      using assms(1) by (simp add: pb_uart_put_def uart_tx_byte_def uart_post_def uart_ok_def uart_wf_def uart_frame_def
          uart_stdout_def uart_pending_def)
  next
    case 3
    then show ?thesis
      using assms(1) by (auto simp: pb_uart_put_def uart_tx_byte_def uart_post_def uart_ok_def uart_wf_def uart_frame_def
          uart_stdout_def uart_pending_def and_0f_less)
  next
    case 4
    then show ?thesis
      using assms by (cases df) (simp_all add: pb_uart_put_def uart_tx_byte_def uart_post_refl)
  qed
qed

lemma uart_ok_lcr:
  "uart_ok df (m, v, u) \<Longrightarrow> uart_ok df (m, v, u\<lparr>LCR_DLAB := val AND push_bit 7 1\<rparr>)"
  by (simp add: uart_ok_def uart_wf_def uart_pending_def dlab_bit)

text \<open>A store keeps the invariant, sends the byte it should and sets the access bit it should.\<close>

lemma pb_uart_writem8_post:
  assumes ok: "uart_ok df (m, v, u)"
  obtains w' where "pb_uart_writem8 df a val (m, v, u) = Inr w'" "uart_ok df w'" "uart_frame df (m, v, u) w'"
    "uart_stdout w' = vu_stdout v @ (if df then [] else uart_tx_byte a val (LCR_DLAB u \<noteq> 0))"
    "LCR_DLAB (snd (snd w')) \<noteq> 0 \<longleftrightarrow> uart_dlab_next a val (LCR_DLAB u \<noteq> 0)"
proof -
  let ?c = "IIR u AND 1 = 0 \<and> IIR_sel u = 1 \<and> a AND 7 = 0 \<and> LCR_DLAB u = 0"
  let ?ack = "if ?c then uart_set_irq df False (m, v, u\<lparr>IIR := IIR u OR 1\<rparr>) else Inr (m, v, u)"
  have d: "dat_ready u \<in> {0, 1}" using ok by (simp add: uart_ok_def uart_wf_def)
  have 1: "uart_post df (m, v, u) [] ?ack"
    using ok uart_ack_post [OF ok d] uart_post_refl [OF ok] by simp
  have eq: "pb_uart_writem8 df a val (m, v, u) = bnd ?ack (\<lambda>w. bnd (pb_uart_put df (a AND 7) val w) (pb_uart_step df))"
    by (simp add: pb_uart_writem8_def Let_def)
  show ?thesis
  proof (cases "a AND 7 = 3")
    case True
    let ?u = "u\<lparr>LCR_DLAB := val AND push_bit 7 1\<rparr>"
    have "uart_post df (m, v, ?u) [] (pb_uart_step df (m, v, ?u))"
      by (rule pb_uart_step_post [OF uart_ok_lcr [OF ok]])
    moreover have "pb_uart_writem8 df a val (m, v, u) = pb_uart_step df (m, v, ?u)"
      using True by (simp add: eq pb_uart_put_def)
    ultimately show ?thesis
      using True that by (auto simp: uart_post_def uart_frame_def uart_stdout_def uart_tx_byte_def uart_dlab_next_def dlab_bit)
  next
    case False
    have "uart_post df (m, v, u) ([] @ (if df then [] else uart_tx_byte a val (LCR_DLAB u \<noteq> 0)) @ [])
        (bnd ?ack (\<lambda>w. bnd (pb_uart_put df (a AND 7) val w) (pb_uart_step df)))"
    proof (rule uart_post_bnd [OF 1], rule uart_post_bnd)
      fix w' :: uart_world
      assume "uart_ok df w'" "LCR_DLAB (snd (snd w')) = LCR_DLAB (snd (snd (m, v, u)))"
      then show "uart_post df w' (if df then [] else uart_tx_byte a val (LCR_DLAB u \<noteq> 0)) (pb_uart_put df (a AND 7) val w')"
        using uart_put_post [OF _ False, of df "fst w'" "fst (snd w')" "snd (snd w')" val] by (cases df) simp_all
    qed (rule pb_uart_step_post')
    then show ?thesis
      using False that by (auto simp: eq [symmetric] uart_post_def uart_stdout_def uart_dlab_next_def)
  qed
qed

section \<open>Sequences of accesses\<close>

datatype uart_op = UWrite phy_addr_t u8 | URead phy_addr_t | UStep

fun uart_do :: "bool \<Rightarrow> uart_op \<Rightarrow> uart_world \<Rightarrow> halt + uart_world" where
  "uart_do df (UWrite a val) w = pb_uart_writem8 df a val w"
| "uart_do df (URead a) w = bnd (pb_uart_readm8 df a w) (\<lambda>(x, w'). Inr w')"
| "uart_do df UStep w = pb_uart_step df w"

fun uart_run :: "bool \<Rightarrow> uart_op list \<Rightarrow> uart_world \<Rightarrow> halt + uart_world" where
  "uart_run df [] w = Inr w"
| "uart_run df (x # xs) w = bnd (uart_do df x w) (uart_run df xs)"

text \<open>What should be sent: the bytes stored at offset 0 while the divisor latch access bit is clear.\<close>

fun uart_sent :: "bool \<Rightarrow> uart_op list \<Rightarrow> u8 list" where
  "uart_sent dlab [] = []"
| "uart_sent dlab (UWrite a val # xs) = uart_tx_byte a val dlab @ uart_sent (uart_dlab_next a val dlab) xs"
| "uart_sent dlab (x # xs) = uart_sent dlab xs"

lemma uart_run_post:
  assumes "uart_ok df w"
  shows "\<exists>w'. uart_run df xs w = Inr w' \<and> uart_ok df w' \<and> uart_frame df w w' \<and>
    uart_stdout w' = uart_stdout w @ (if df then [] else uart_sent (LCR_DLAB (snd (snd w)) \<noteq> 0) xs)"
  using assms
proof (induction xs arbitrary: w)
  case Nil
  then show ?case by (simp add: uart_frame_refl)
next
  case (Cons x xs)
  have "\<exists>w1 tx. uart_do df x w = Inr w1 \<and> uart_ok df w1 \<and> uart_frame df w w1 \<and> uart_stdout w1 = uart_stdout w @ tx \<and>
    tx @ (if df then [] else uart_sent (LCR_DLAB (snd (snd w1)) \<noteq> 0) xs) =
      (if df then [] else uart_sent (LCR_DLAB (snd (snd w)) \<noteq> 0) (x # xs))"
  proof (cases x)
    case (UWrite a val)
    obtain m v u where w: "w = (m, v, u)" by (cases w)
    show ?thesis
      by (rule pb_uart_writem8_post [of df m v u a val]) (use Cons.prems in \<open>auto simp: UWrite w uart_stdout_def\<close>)
  next
    case (URead a)
    then show ?thesis using pb_uart_readm8_post [OF Cons.prems, of a] by (auto simp: uart_post_def)
  next
    case UStep
    then show ?thesis using pb_uart_step_post' [OF Cons.prems] by (auto simp: uart_post_def)
  qed
  then obtain w1 tx where 1: "uart_do df x w = Inr w1" "uart_ok df w1" "uart_frame df w w1" "uart_stdout w1 = uart_stdout w @ tx"
    "tx @ (if df then [] else uart_sent (LCR_DLAB (snd (snd w1)) \<noteq> 0) xs) =
      (if df then [] else uart_sent (LCR_DLAB (snd (snd w)) \<noteq> 0) (x # xs))" by blast
  from Cons.IH [OF 1(2)] obtain w' where "uart_run df xs w1 = Inr w'" "uart_ok df w'" "uart_frame df w1 w'"
    "uart_stdout w' = uart_stdout w1 @ (if df then [] else uart_sent (LCR_DLAB (snd (snd w1)) \<noteq> 0) xs)" by blast
  with 1 show ?case
    using uart_frame_trans [OF 1(3)] by (simp del: uart_sent.simps) 
qed

text \<open>
  Claim C23: the serial port under any sequence of stores, loads and clock steps from the reset state, with
  its line initially low: no access fails; the line in \<open>IRR\<close> is high exactly while the device has an interrupt
  pending, no other line and no other register changes, and the bytes sent are exactly those stored at offset 0 while the divisor
  latch access bit was clear, in order.
\<close>

theorem uart_protocol:
  assumes "0 \<le> irq" "irq < 32" "\<not> bit (IRR m) (nat irq)"
  shows "\<exists>m' v' u'. uart_run False xs (m, v, pb_uart_reset (u\<lparr>pb_irq := irq\<rparr>)) = Inr (m', v', u') \<and>
    bit (IRR m') (nat irq) = (IIR u' AND 0x1 = 0) \<and> (\<forall>n. n \<noteq> nat irq \<longrightarrow> bit (IRR m') n = bit (IRR m) n) \<and>
    m'\<lparr>IRR := 0\<rparr> = m\<lparr>IRR := 0\<rparr> \<and> vu_stdout v' = vu_stdout v @ uart_sent False xs \<and> uart_wf u'"
proof -
  let ?u = "pb_uart_reset (u\<lparr>pb_irq := irq\<rparr>)"
  have "uart_ok False (m, v, ?u)"
    using assms by (simp add: uart_ok_def uart_wf_def pb_uart_reset_def uart_pending_def)
  from uart_run_post [OF this, of xs] show ?thesis
    by (auto simp: uart_ok_def uart_frame_def uart_stdout_def uart_pending_def pb_uart_reset_def)
qed

theorem uart_protocol_witness:
  "\<exists>m' v' u'. uart_run False [UWrite 1 2, UWrite 0 0x41, UWrite 3 0x80, UWrite 0 0x42]
      (msr_zero 1 1, \<lparr>vu_inited = True, vu_in_difftest = False, vu_dat = 0, vu_dat_pending_for_difftest = False, vu_stdout = []\<rparr>,
       pb_uart_reset (pb_uart_reset undefined\<lparr>pb_irq := 1\<rparr>)) = Inr (m', v', u') \<and> vu_stdout v' = [0x41]"
proof -
  have "\<not> bit (IRR (msr_zero 1 1)) (nat 1)" by (simp add: msr_zero_def)
  moreover have "uart_sent False [UWrite 1 2, UWrite 0 0x41, UWrite 3 0x80, UWrite 0 0x42] = [0x41]" by code_simp
  ultimately show ?thesis
    using uart_protocol [of 1 "msr_zero 1 1" "[UWrite 1 2, UWrite 0 0x41, UWrite 3 0x80, UWrite 0 0x42]"
        "\<lparr>vu_inited = True, vu_in_difftest = False, vu_dat = 0, vu_dat_pending_for_difftest = False, vu_stdout = []\<rparr>"
        "pb_uart_reset undefined"] by fastforce
qed

section \<open>Interrupt handshakes\<close>











text \<open>
  The high half of the divisor latch does not exist: \<open>DLR\<close> is one byte wide, so a store at offset 1 with the
  divisor latch access bit set leaves it as it is and a load there returns 0. A load of the line control register never
  shows the access bit, which is stored as \<open>0x80\<close> and shifted left by 7 again.
\<close>

lemma uart_divisor_high_lost:
  assumes "LCR_DLAB u = 0x80"
  shows "pb_uart_put df 1 val (m, v, u) = Inr (m, v, u)" and "pb_uart_reg 1 u = 0" and "pb_uart_reg 3 u = 0x3"
proof -
  have ff: "(0xff :: u32) = mask 8" by (simp add: mask_eq_exp_minus_1)
  have "ucast ((ucast x AND 0xff :: u32) OR push_bit 8 (ucast val)) = x" for x :: u8
    unfolding ff by (rule bit_word_eqI) (auto simp: bit_simps)
  then show "pb_uart_put df 1 val (m, v, u) = Inr (m, v, u)" using assms by (simp add: pb_uart_put_def)
  have "drop_bit 8 (ucast x :: u32) = 0" for x :: u8
    by (rule bit_word_eqI) (auto simp: bit_simps dest: bit_imp_le_length)
  then show "pb_uart_reg 1 u = 0" using assms by (simp add: pb_uart_reg_def)
  show "pb_uart_reg 3 u = 0x3" using assms by (simp add: pb_uart_reg_def)
qed

end
