(* ===== verification/Flash.thy ===== *)
theory Flash
  imports Memory
begin

text \<open>
  The flash memory of \<open>em/csrc/peripheral/flash.cc\<close>: an array of \<open>size\<close> bytes of which the first \<open>image_size\<close>, as many as
  the image file provides, can be accessed. \<open>image_size\<close> is \<open>None\<close> when the constructor leaves it uninitialised.
  Its registration on the MMIO bus is in \<open>DeviceTree\<close>. \<open>addr + n\<close> is computed in 32 bits and compared in 64.
\<close>

record Flash =
  fl_mem :: "u8 list"
  fl_mmio_base :: phy_addr_t
  image_size :: "u64 option"

text \<open>
  \<open>raw\<close> is the indeterminate contents of the new array, \<open>image_fp\<close> the contents of the image file. \<open>fread\<close> copies at
  most \<open>size\<close> bytes and returns their number.
\<close>

definition Flash_load :: "u8 list \<Rightarrow> phy_addr_t \<Rightarrow> u8 list option \<Rightarrow> Flash" where
  "Flash_load raw mmio_base image_fp =
     (case image_fp of
        None \<Rightarrow> \<lparr>fl_mem = raw, fl_mmio_base = mmio_base, image_size = None\<rparr>
      | Some bs \<Rightarrow>
          let bytes = take (length raw) bs in
          \<lparr>fl_mem = bytes @ drop (length bytes) raw, fl_mmio_base = mmio_base, image_size = Some (of_nat (length bytes))\<rparr>)"

definition get_image_size :: "Flash \<Rightarrow> halt + u64" where
  "get_image_size fl = (case image_size fl of None \<Rightarrow> Inl Undefined | Some n \<Rightarrow> Inr n)"

definition flash_put :: "phy_addr_t \<Rightarrow> u8 \<Rightarrow> Flash \<Rightarrow> halt + Flash" where
  "flash_put addr val fl = bnd (updE (fl_mem fl) (unat addr) val) (\<lambda>b. Inr (fl\<lparr>fl_mem := b\<rparr>))"

definition flash_get :: "phy_addr_t \<Rightarrow> Flash \<Rightarrow> halt + u8" where
  "flash_get addr fl = nthE (fl_mem fl) (unat addr)"

definition flash_writem8 :: "phy_addr_t \<Rightarrow> u8 \<Rightarrow> Flash \<Rightarrow> halt + Flash" where
  "flash_writem8 addr0 val fl =
     (let addr = addr0 - fl_mmio_base fl in
      bnd (get_image_size fl) (\<lambda>n.
      if ucast addr \<ge> n then Inr fl else flash_put addr val fl))"

definition flash_writem16 :: "phy_addr_t \<Rightarrow> u16 \<Rightarrow> Flash \<Rightarrow> halt + Flash" where
  "flash_writem16 addr0 val fl =
     (let addr = addr0 - fl_mmio_base fl in
      bnd (get_image_size fl) (\<lambda>n.
      if ucast (addr + 2) > n then Inr fl else
      bnd (flash_put addr (ucast val) fl) (\<lambda>fl.
      flash_put (addr + 1) (ucast (drop_bit 8 val)) fl)))"

definition flash_writem32 :: "phy_addr_t \<Rightarrow> u32 \<Rightarrow> Flash \<Rightarrow> halt + Flash" where
  "flash_writem32 addr0 val fl =
     (let addr = addr0 - fl_mmio_base fl in
      bnd (get_image_size fl) (\<lambda>n.
      if ucast (addr + 4) > n then Inr fl else
      bnd (flash_put addr (ucast val) fl) (\<lambda>fl.
      bnd (flash_put (addr + 1) (ucast (drop_bit 8 val)) fl) (\<lambda>fl.
      bnd (flash_put (addr + 2) (ucast (drop_bit 16 val)) fl) (\<lambda>fl.
      flash_put (addr + 3) (ucast (drop_bit 24 val)) fl)))))"

definition flash_readm8 :: "phy_addr_t \<Rightarrow> Flash \<Rightarrow> halt + u8" where
  "flash_readm8 addr0 fl =
     (let addr = addr0 - fl_mmio_base fl in
      bnd (get_image_size fl) (\<lambda>n.
      if ucast addr \<ge> n then Inr 0xff else flash_get addr fl))"

definition flash_readm16 :: "phy_addr_t \<Rightarrow> Flash \<Rightarrow> halt + u16" where
  "flash_readm16 addr0 fl =
     (let addr = addr0 - fl_mmio_base fl in
      bnd (get_image_size fl) (\<lambda>n.
      if ucast (addr + 2) > n then Inr 0xffff else
      bnd (flash_get addr fl) (\<lambda>b0.
      bnd (flash_get (addr + 1) fl) (\<lambda>b1.
      Inr (ucast b0 OR push_bit 8 (ucast b1))))))"

definition flash_readm32 :: "phy_addr_t \<Rightarrow> Flash \<Rightarrow> halt + u32" where
  "flash_readm32 addr0 fl =
     (let addr = addr0 - fl_mmio_base fl in
      bnd (get_image_size fl) (\<lambda>n.
      if ucast (addr + 4) > n then Inr 0xffffffff else
      bnd (flash_get addr fl) (\<lambda>b0.
      bnd (flash_get (addr + 1) fl) (\<lambda>b1.
      bnd (flash_get (addr + 2) fl) (\<lambda>b2.
      bnd (flash_get (addr + 3) fl) (\<lambda>b3.
      Inr (ucast b0 OR push_bit 8 (ucast b1) OR push_bit 16 (ucast b2) OR push_bit 24 (ucast b3))))))))"

section \<open>Accesses stay in the image\<close>

text \<open>The image lies in the array, and the array is small enough that no offset wraps.\<close>

definition flash_wf :: "Flash \<Rightarrow> bool" where
  "flash_wf fl \<longleftrightarrow> (\<exists>n. image_size fl = Some n \<and> unat n \<le> length (fl_mem fl)) \<and> length (fl_mem fl) + 4 < 2 ^ 32"

definition img :: "Flash \<Rightarrow> nat" where
  "img fl = (case image_size fl of None \<Rightarrow> 0 | Some n \<Rightarrow> unat n)"

definition fl_off :: "Flash \<Rightarrow> phy_addr_t \<Rightarrow> nat" where
  "fl_off fl a = unat (a - fl_mmio_base fl)"

lemma flash_wf_load:
  assumes "length raw + 4 < 2 ^ 32"
  shows "flash_wf (Flash_load raw b (Some bs))" "img (Flash_load raw b (Some bs)) = min (length bs) (length raw)"
    "length (fl_mem (Flash_load raw b fp)) = length raw"
proof -
  let ?k = "min (length raw) (length bs)"
  have "?k < 2 ^ 64" using assms by (auto simp: min_def)
  then have "unat (of_nat ?k :: u64) = ?k" by (simp add: unat_of_nat take_bit_nat_eq_self)
  then show "flash_wf (Flash_load raw b (Some bs))" "img (Flash_load raw b (Some bs)) = min (length bs) (length raw)"
    using assms by (auto simp: flash_wf_def img_def Flash_load_def Let_def min_def split: if_splits)
  show "length (fl_mem (Flash_load raw b fp)) = length raw"
    by (auto simp: Flash_load_def Let_def split: option.splits)
qed

lemma get_image_size_wf:
  assumes "flash_wf fl"
  obtains n where "get_image_size fl = Inr n" "unat n = img fl" "img fl \<le> length (fl_mem fl)"
  using assms by (auto simp: flash_wf_def get_image_size_def img_def)

lemma off_add:
  assumes "unat (x :: u32) + n < 2 ^ 32"
  shows "unat (x + of_nat n) = unat x + n"
  using assms by (simp add: unat_word_ariths unat_of_nat)

lemma ucast64_less: "(ucast (x :: u32) :: u64) < n \<longleftrightarrow> unat x < unat n" "n < (ucast x :: u64) \<longleftrightarrow> unat n < unat x"
  by (simp_all add: word_less_nat_alt unat_ucast_up)

text \<open>The bytes \<open>vs\<close> stored from offset \<open>o\<close> on.\<close>

definition fl_store :: "nat \<Rightarrow> u8 list \<Rightarrow> Flash \<Rightarrow> Flash" where
  "fl_store off vs fl = fl\<lparr>fl_mem := take off (fl_mem fl) @ vs @ drop (off + length vs) (fl_mem fl)\<rparr>"

lemma fl_store_simps [simp]:
  "fl_mmio_base (fl_store k vs fl) = fl_mmio_base fl" "image_size (fl_store k vs fl) = image_size fl"
  by (simp_all add: fl_store_def)

lemma fl_store_facts:
  assumes "k + length vs \<le> length (fl_mem fl)"
  shows "length (fl_mem (fl_store k vs fl)) = length (fl_mem fl)"
    "\<And>i. fl_mem (fl_store k vs fl) ! i = (if k \<le> i \<and> i < k + length vs then vs ! (i - k) else fl_mem fl ! i)"
  using assms by (auto simp: fl_store_def nth_append)

lemma fl_store_wf: "flash_wf fl \<Longrightarrow> k + length vs \<le> length (fl_mem fl) \<Longrightarrow> flash_wf (fl_store k vs fl)"
  by (simp add: flash_wf_def fl_store_facts)

lemma fl_store_img [simp]: "img (fl_store k vs fl) = img fl"
  by (simp add: img_def)

lemma flash_put_in:
  "unat a < length (fl_mem fl) \<Longrightarrow> flash_put a v fl = Inr (fl\<lparr>fl_mem := (fl_mem fl)[unat a := v]\<rparr>)"
  by (simp add: flash_put_def)

lemma flash_get_in: "unat a < length (fl_mem fl) \<Longrightarrow> flash_get a fl = Inr (fl_mem fl ! unat a)"
  by (simp add: flash_get_def)

lemma list_put4:
  assumes "i + 3 < length xs"
  shows "xs[i := a, i + 1 := b, i + 2 := c, i + 3 := d] = take i xs @ [a, b, c, d] @ drop (i + 4) xs"
proof (rule nth_equalityI)
  fix k assume k: "k < length (xs[i := a, i + 1 := b, i + 2 := c, i + 3 := d])"
  consider "k < i" | "k = i" | "k = i + 1" | "k = i + 2" | "k = i + 3" | j where "k = i + 4 + j"
  proof -
    have "k < i \<or> k = i \<or> k = i + 1 \<or> k = i + 2 \<or> k = i + 3 \<or> k = i + 4 + (k - (i + 4))" by linarith
    then show ?thesis using that by blast
  qed
  then show "xs[i := a, i + 1 := b, i + 2 := c, i + 3 := d] ! k = (take i xs @ [a, b, c, d] @ drop (i + 4) xs) ! k"
    using assms k by cases (simp_all add: nth_append)
qed (use assms in simp)

lemma list_put2:
  assumes "i + 1 < length xs"
  shows "xs[i := a, i + 1 := b] = take i xs @ [a, b] @ drop (i + 2) xs"
proof (rule nth_equalityI)
  fix k assume k: "k < length (xs[i := a, i + 1 := b])"
  consider "k < i" | "k = i" | "k = i + 1" | j where "k = i + 2 + j"
  proof -
    have "k < i \<or> k = i \<or> k = i + 1 \<or> k = i + 2 + (k - (i + 2))" by linarith
    then show ?thesis using that by blast
  qed
  then show "xs[i := a, i + 1 := b] ! k = (take i xs @ [a, b] @ drop (i + 2) xs) ! k"
    using assms k by cases (simp_all add: nth_append)
qed (use assms in simp)

lemma fl_store_4:
  "fl_store k [w, x, y, z] fl = fl\<lparr>fl_mem := take k (fl_mem fl) @ [w, x, y, z] @ drop (k + 4) (fl_mem fl)\<rparr>"
  by (simp add: fl_store_def eval_nat_numeral)

text \<open>Each access as one step on the array.\<close>

lemma flash_8:
  assumes "flash_wf fl"
  shows "flash_writem8 a v fl = Inr (if fl_off fl a < img fl then fl_store (fl_off fl a) [v] fl else fl)"
    "flash_readm8 a fl = Inr (if fl_off fl a < img fl then fl_mem fl ! fl_off fl a else 0xff)"
proof -
  obtain n where n: "get_image_size fl = Inr n" "unat n = img fl" "img fl \<le> length (fl_mem fl)"
    by (rule get_image_size_wf [OF assms])
  let ?a = "a - fl_mmio_base fl"
  have "n \<le> ucast ?a \<longleftrightarrow> \<not> fl_off fl a < img fl"
    by (simp add: not_less [symmetric] ucast64_less n fl_off_def)
  then show "flash_writem8 a v fl = Inr (if fl_off fl a < img fl then fl_store (fl_off fl a) [v] fl else fl)"
    "flash_readm8 a fl = Inr (if fl_off fl a < img fl then fl_mem fl ! fl_off fl a else 0xff)"
    using n by (simp_all add: flash_writem8_def flash_readm8_def Let_def flash_put_in flash_get_in fl_off_def fl_store_def
        upd_conv_take_nth_drop)
qed

lemma flash_16:
  assumes "flash_wf fl" "fl_off fl a < length (fl_mem fl)"
  shows "flash_writem16 a v fl = Inr (if fl_off fl a + 2 \<le> img fl then fl_store (fl_off fl a) [byte_of 0 v, byte_of 1 v] fl else fl)"
    "flash_readm16 a fl = Inr (if fl_off fl a + 2 \<le> img fl
       then push_bit 8 (ucast (fl_mem fl ! (fl_off fl a + 1))) OR ucast (fl_mem fl ! fl_off fl a) else 0xffff)"
proof -
  obtain n where n: "get_image_size fl = Inr n" "unat n = img fl" "img fl \<le> length (fl_mem fl)"
    by (rule get_image_size_wf [OF assms(1)])
  let ?a = "a - fl_mmio_base fl"
  have len: "length (fl_mem fl) + 4 < 2 ^ 32" using assms(1) by (simp add: flash_wf_def)
  have u: "unat (?a + 1) = fl_off fl a + 1" "unat (?a + 2) = fl_off fl a + 2"
    using off_add [of ?a 1] off_add [of ?a 2] assms(2) len by (simp_all add: fl_off_def)
  have c: "n < ucast (?a + 2) \<longleftrightarrow> \<not> fl_off fl a + 2 \<le> img fl" by (simp add: ucast64_less n u not_le)
  have b: "ucast v = byte_of 0 v" "ucast (drop_bit 8 v) = byte_of 1 v" by (simp_all add: byte_of_def)
  have w: "flash_writem16 a v fl = Inr (fl_store (fl_off fl a) [byte_of 0 v, byte_of 1 v] fl)" if "fl_off fl a + 2 \<le> img fl"
  proof -
    have "fl_off fl a + 1 < length (fl_mem fl)" using that n(3) by simp
    then show ?thesis
      using that n(1) c list_put2 [of "fl_off fl a" "fl_mem fl" "byte_of 0 v" "byte_of 1 v"]
      by (simp add: flash_writem16_def Let_def flash_put_in u fl_off_def [symmetric] fl_store_def b)
  qed
  show "flash_writem16 a v fl = Inr (if fl_off fl a + 2 \<le> img fl then fl_store (fl_off fl a) [byte_of 0 v, byte_of 1 v] fl else fl)"
    using w n(1) c by (auto simp: flash_writem16_def)
  show "flash_readm16 a fl = Inr (if fl_off fl a + 2 \<le> img fl
       then push_bit 8 (ucast (fl_mem fl ! (fl_off fl a + 1))) OR ucast (fl_mem fl ! fl_off fl a) else 0xffff)"
    using n c by (simp add: flash_readm16_def Let_def flash_get_in u fl_off_def [symmetric] or.commute)
qed

lemma flash_32:
  assumes "flash_wf fl" "fl_off fl a < length (fl_mem fl)"
  shows "flash_writem32 a v fl = Inr (if fl_off fl a + 4 \<le> img fl
      then fl_store (fl_off fl a) [byte_of 0 v, byte_of 1 v, byte_of 2 v, byte_of 3 v] fl else fl)"
    "flash_readm32 a fl = Inr (if fl_off fl a + 4 \<le> img fl
       then push_bit 24 (ucast (fl_mem fl ! (fl_off fl a + 3))) OR push_bit 16 (ucast (fl_mem fl ! (fl_off fl a + 2)))
         OR push_bit 8 (ucast (fl_mem fl ! (fl_off fl a + 1))) OR ucast (fl_mem fl ! fl_off fl a) else 0xffffffff)"
proof -
  obtain n where n: "get_image_size fl = Inr n" "unat n = img fl" "img fl \<le> length (fl_mem fl)"
    by (rule get_image_size_wf [OF assms(1)])
  let ?a = "a - fl_mmio_base fl"
  have len: "length (fl_mem fl) + 4 < 2 ^ 32" using assms(1) by (simp add: flash_wf_def)
  have u: "unat (?a + 1) = fl_off fl a + 1" "unat (?a + 2) = fl_off fl a + 2" "unat (?a + 3) = fl_off fl a + 3"
      "unat (?a + 4) = fl_off fl a + 4"
    using off_add [of ?a 1] off_add [of ?a 2] off_add [of ?a 3] off_add [of ?a 4] assms(2) len by (simp_all add: fl_off_def)
  have c: "n < ucast (?a + 4) \<longleftrightarrow> \<not> fl_off fl a + 4 \<le> img fl" by (simp add: ucast64_less n u not_le)
  have b: "ucast v = byte_of 0 v" "ucast (drop_bit 8 v) = byte_of 1 v" "ucast (drop_bit 16 v) = byte_of 2 v"
    "ucast (drop_bit 24 v) = byte_of 3 v" by (simp_all add: byte_of_def)
  have w: "flash_writem32 a v fl = Inr (fl_store (fl_off fl a) [byte_of 0 v, byte_of 1 v, byte_of 2 v, byte_of 3 v] fl)"
    if "fl_off fl a + 4 \<le> img fl"
  proof -
    have "fl_off fl a + 3 < length (fl_mem fl)" using that n(3) by simp
    then show ?thesis
      using that n(1) c list_put4 [of "fl_off fl a" "fl_mem fl" "byte_of 0 v" "byte_of 1 v" "byte_of 2 v" "byte_of 3 v"]
      by (simp add: flash_writem32_def Let_def flash_put_in u fl_off_def [symmetric] fl_store_4 b)
  qed
  show "flash_writem32 a v fl = Inr (if fl_off fl a + 4 \<le> img fl
      then fl_store (fl_off fl a) [byte_of 0 v, byte_of 1 v, byte_of 2 v, byte_of 3 v] fl else fl)"
    using w n(1) c by (auto simp: flash_writem32_def)
  show "flash_readm32 a fl = Inr (if fl_off fl a + 4 \<le> img fl
       then push_bit 24 (ucast (fl_mem fl ! (fl_off fl a + 3))) OR push_bit 16 (ucast (fl_mem fl ! (fl_off fl a + 2)))
         OR push_bit 8 (ucast (fl_mem fl ! (fl_off fl a + 1))) OR ucast (fl_mem fl ! fl_off fl a) else 0xffffffff)"
    using n c by (simp add: flash_readm32_def Let_def flash_get_in u fl_off_def [symmetric] or.commute or.left_commute)
qed

lemma fl_off_store [simp]: "fl_off (fl_store k vs fl) a = fl_off fl a"
  by (simp add: fl_off_def)

text \<open>Without an image every access compares the address with a size that was never assigned.\<close>

lemma flash_no_image:
  assumes "image_size fl = None"
  shows "flash_writem8 a v8 fl = Inl Undefined" "flash_writem16 a v16 fl = Inl Undefined" "flash_writem32 a v32 fl = Inl Undefined"
    "flash_readm8 a fl = Inl Undefined" "flash_readm16 a fl = Inl Undefined" "flash_readm32 a fl = Inl Undefined"
  using assms
  by (simp_all add: flash_writem8_def flash_writem16_def flash_writem32_def flash_readm8_def flash_readm16_def flash_readm32_def
      get_image_size_def Let_def)

text \<open>
  Claim C34: with an image loaded, for accesses of every width at every address of the flash window. When all bytes of the access lie in the
  image, a store replaces exactly those bytes, in little-endian order, a load returns them, and a load after a store at the same address returns the stored
  value. When the access reaches past the image, even if it starts in it, a store leaves the flash exactly as it was and a load returns all ones.
\<close>

theorem flash_access:
  assumes "flash_wf fl" and "fl_off fl a < length (fl_mem fl)"
  shows "flash_writem8 a v8 fl = Inr (if fl_off fl a + 1 \<le> img fl then fl\<lparr>fl_mem := (fl_mem fl)[fl_off fl a := v8]\<rparr> else fl) \<and>
    flash_writem16 a v16 fl = Inr (if fl_off fl a + 2 \<le> img fl
      then fl\<lparr>fl_mem := (fl_mem fl)[fl_off fl a := byte_of 0 v16, fl_off fl a + 1 := byte_of 1 v16]\<rparr> else fl) \<and>
    flash_writem32 a v32 fl = Inr (if fl_off fl a + 4 \<le> img fl
      then fl\<lparr>fl_mem := (fl_mem fl)[fl_off fl a := byte_of 0 v32, fl_off fl a + 1 := byte_of 1 v32,
        fl_off fl a + 2 := byte_of 2 v32, fl_off fl a + 3 := byte_of 3 v32]\<rparr> else fl) \<and>
    flash_readm8 a fl = Inr (if fl_off fl a + 1 \<le> img fl then fl_mem fl ! fl_off fl a else 0xff) \<and>
    flash_readm16 a fl = Inr (if fl_off fl a + 2 \<le> img fl
      then push_bit 8 (ucast (fl_mem fl ! (fl_off fl a + 1))) OR ucast (fl_mem fl ! fl_off fl a) else 0xffff) \<and>
    flash_readm32 a fl = Inr (if fl_off fl a + 4 \<le> img fl
      then push_bit 24 (ucast (fl_mem fl ! (fl_off fl a + 3))) OR push_bit 16 (ucast (fl_mem fl ! (fl_off fl a + 2)))
        OR push_bit 8 (ucast (fl_mem fl ! (fl_off fl a + 1))) OR ucast (fl_mem fl ! fl_off fl a) else 0xffffffff) \<and>
    bnd (flash_writem8 a v8 fl) (flash_readm8 a) = Inr (if fl_off fl a + 1 \<le> img fl then v8 else 0xff) \<and>
    bnd (flash_writem16 a v16 fl) (flash_readm16 a) = Inr (if fl_off fl a + 2 \<le> img fl then v16 else 0xffff) \<and>
    bnd (flash_writem32 a v32 fl) (flash_readm32 a) = Inr (if fl_off fl a + 4 \<le> img fl then v32 else 0xffffffff)"
proof (intro conjI)
  let ?k = "fl_off fl a"
  let ?f8 = "if ?k < img fl then fl_store ?k [v8] fl else fl"
  let ?f16 = "if ?k + 2 \<le> img fl then fl_store ?k [byte_of 0 v16, byte_of 1 v16] fl else fl"
  let ?f32 = "if ?k + 4 \<le> img fl then fl_store ?k [byte_of 0 v32, byte_of 1 v32, byte_of 2 v32, byte_of 3 v32] fl else fl"
  note wf = assms(1) and k = assms(2)
  have i: "img fl \<le> length (fl_mem fl)" using wf by (auto simp: flash_wf_def img_def)
  have wf': "flash_wf ?f8" "flash_wf ?f16" "flash_wf ?f32" using wf k i by (auto intro!: fl_store_wf)
  have k': "fl_off ?f16 a < length (fl_mem ?f16)" "fl_off ?f32 a < length (fl_mem ?f32)" using k i by (simp_all add: fl_store_facts)
  show "flash_writem8 a v8 fl = Inr (if ?k + 1 \<le> img fl then fl\<lparr>fl_mem := (fl_mem fl)[?k := v8]\<rparr> else fl)"
    using i by (simp add: flash_8 [OF wf] fl_store_def upd_conv_take_nth_drop Suc_le_eq)
  show "flash_writem16 a v16 fl = Inr (if ?k + 2 \<le> img fl
      then fl\<lparr>fl_mem := (fl_mem fl)[?k := byte_of 0 v16, ?k + 1 := byte_of 1 v16]\<rparr> else fl)"
    using i by (auto simp: flash_16 [OF wf k] fl_store_def list_put2 simp flip: One_nat_def)
  show "flash_writem32 a v32 fl = Inr (if ?k + 4 \<le> img fl
      then fl\<lparr>fl_mem := (fl_mem fl)[?k := byte_of 0 v32, ?k + 1 := byte_of 1 v32, ?k + 2 := byte_of 2 v32, ?k + 3 := byte_of 3 v32]\<rparr> else fl)"
  proof (cases "?k + 4 \<le> img fl")
    case True
    then have "?k + 3 < length (fl_mem fl)" using i by simp
    from list_put4 [OF this] show ?thesis unfolding flash_32(1) [OF wf k] if_P [OF True] fl_store_4 by simp
  qed (simp add: flash_32 [OF wf k])
  show "bnd (flash_writem8 a v8 fl) (flash_readm8 a) = Inr (if ?k + 1 \<le> img fl then v8 else 0xff)"
    using flash_8(2) [OF wf'(1), of a] i k by (simp add: flash_8(1) [OF wf] fl_store_facts Suc_le_eq split: if_splits)
  show "bnd (flash_writem16 a v16 fl) (flash_readm16 a) = Inr (if ?k + 2 \<le> img fl then v16 else 0xffff)"
    using flash_16(2) [OF wf'(2) k'(1)] i k bytes_word16 [of v16] by (simp add: flash_16(1) [OF wf k] fl_store_facts split: if_splits)
  show "bnd (flash_writem32 a v32 fl) (flash_readm32 a) = Inr (if ?k + 4 \<le> img fl then v32 else 0xffffffff)"
    using flash_32(2) [OF wf'(3) k'(2)] i k bytes_word32 [of v32]
    by (simp add: flash_32(1) [OF wf k] fl_store_facts eval_nat_numeral split: if_splits)
qed (simp_all only: flash_8(2) [OF assms(1)] flash_16(2) [OF assms] flash_32(2) [OF assms] Suc_eq_plus1 [symmetric] Suc_le_eq)

theorem flash_access_witness:
  "flash_wf (Flash_load [0, 0, 0, 0, 0, 0, 0, 0] 0x30000000 (Some [1, 2, 3, 4, 5])) \<and>
   bnd (flash_writem32 0x30000000 0x12345678 (Flash_load [0, 0, 0, 0, 0, 0, 0, 0] 0x30000000 (Some [1, 2, 3, 4, 5])))
     (flash_readm32 0x30000000) = Inr 0x12345678 \<and>
   flash_writem16 0x30000004 0xffff (Flash_load [0, 0, 0, 0, 0, 0, 0, 0] 0x30000000 (Some [1, 2, 3, 4, 5])) =
     Inr (Flash_load [0, 0, 0, 0, 0, 0, 0, 0] 0x30000000 (Some [1, 2, 3, 4, 5]))"
proof -
  let ?fl = "Flash_load [0, 0, 0, 0, 0, 0, 0, 0] 0x30000000 (Some [1, 2, 3, 4, 5])"
  have wf: "flash_wf ?fl" "img ?fl = 5" "length (fl_mem ?fl) = 8"
    using flash_wf_load(1,2) [where raw = "[0, 0, 0, 0, 0, 0, 0, 0]" and b = "0x30000000" and bs = "[1, 2, 3, 4, 5]"]
      flash_wf_load(3) [where raw = "[0, 0, 0, 0, 0, 0, 0, 0]" and b = "0x30000000"] by simp_all
  have o: "fl_off ?fl 0x30000000 = 0" "fl_off ?fl 0x30000004 = 4" by (simp_all add: fl_off_def Flash_load_def Let_def)
  have l: "fl_off ?fl 0x30000000 < length (fl_mem ?fl)" "fl_off ?fl 0x30000004 < length (fl_mem ?fl)" by (simp_all only: o wf(3))
  have "bnd (flash_writem32 0x30000000 0x12345678 ?fl) (flash_readm32 0x30000000) = Inr (if 0 + 4 \<le> (5::nat) then 0x12345678 else 0xffffffff)"
    using flash_access [OF wf(1) l(1), of 0 0 "0x12345678"] unfolding o wf by blast
  moreover have "flash_writem16 0x30000004 0xffff ?fl = Inr (if 4 + 2 \<le> (5::nat)
      then ?fl\<lparr>fl_mem := (fl_mem ?fl)[4 := byte_of 0 (0xffff :: u16), 4 + 1 := byte_of 1 (0xffff :: u16)]\<rparr> else ?fl)"
    using flash_access [OF wf(1) l(2), of 0 "0xffff" 0] unfolding o wf by blast
  ultimately show ?thesis using wf(1) by simp
qed

end
