(* ===== verification/DeviceTree.thy ===== *)
theory DeviceTree
  imports Uart Flash
begin

text \<open>
  The devices on the MMIO bus, \<open>em/csrc/peripheral/device-tree.cc\<close>: construction with the registration of the handlers, the virtual
  function table, the clock step. A handler acts on the model-specific registers of the
  processor and on the tree; the file-scope variables of the host side of the serial port are the field \<open>dt_virt\<close>. \<open>dt_cpu\<close> says
  whether the pointer \<open>cpu\<close> is set: without it the tree belongs to the memory of the simulated hardware.
\<close>

datatype dev_cb = CbPbUart | CbFlash

record DeviceTree =
  dt_cpu :: bool
  pb_uart :: DevicePbUart
  flash :: Flash
  dt_virt :: virt_uart

type_synonym dev_world = "msr_s \<times> DeviceTree"

definition in_difftest :: "DeviceTree \<Rightarrow> bool" where
  "in_difftest dt \<longleftrightarrow> \<not> dt_cpu dt"

section \<open>Handlers\<close>

definition on_uart :: "(bool \<Rightarrow> uart_world \<Rightarrow> halt + uart_world) \<Rightarrow> dev_world \<Rightarrow> halt + dev_world" where
  "on_uart f = (\<lambda>(m, dt).
     bnd (f (in_difftest dt) (m, dt_virt dt, pb_uart dt)) (\<lambda>(m', v, u).
     Inr (m', dt\<lparr>dt_virt := v, pb_uart := u\<rparr>)))"

definition from_uart :: "(bool \<Rightarrow> uart_world \<Rightarrow> halt + 'x \<times> uart_world) \<Rightarrow> dev_world \<Rightarrow> halt + 'x \<times> dev_world" where
  "from_uart f = (\<lambda>(m, dt).
     bnd (f (in_difftest dt) (m, dt_virt dt, pb_uart dt)) (\<lambda>(x, m', v, u).
     Inr (x, m', dt\<lparr>dt_virt := v, pb_uart := u\<rparr>)))"

definition on_flash :: "(Flash \<Rightarrow> halt + Flash) \<Rightarrow> dev_world \<Rightarrow> halt + dev_world" where
  "on_flash f = (\<lambda>(m, dt). bnd (f (flash dt)) (\<lambda>fl. Inr (m, dt\<lparr>flash := fl\<rparr>)))"

definition from_flash :: "(Flash \<Rightarrow> halt + 'x) \<Rightarrow> dev_world \<Rightarrow> halt + 'x \<times> dev_world" where
  "from_flash f = (\<lambda>(m, dt). bnd (f (flash dt)) (\<lambda>x. Inr (x, m, dt)))"

text \<open>\<open>DevicePbUart\<close> overrides the 8-bit handlers only; the others are those of \<open>MMIOCallback\<close>.\<close>

definition dev_vt :: "(dev_cb, dev_world) MMIOCallback" where
  "dev_vt = \<lparr>
     cb_writem8 = (\<lambda>cb a v opq w. case cb of
        CbPbUart \<Rightarrow> on_uart (\<lambda>df. pb_uart_writem8 df a v) w | CbFlash \<Rightarrow> on_flash (flash_writem8 a v) w),
     cb_writem16 = (\<lambda>cb a v opq w. case cb of CbPbUart \<Rightarrow> Inr w | CbFlash \<Rightarrow> on_flash (flash_writem16 a v) w),
     cb_writem32 = (\<lambda>cb a v opq w. case cb of CbPbUart \<Rightarrow> Inr w | CbFlash \<Rightarrow> on_flash (flash_writem32 a v) w),
     cb_writem64 = (\<lambda>cb a v opq w. Inr w),
     cb_readm8 = (\<lambda>cb a opq w. case cb of
        CbPbUart \<Rightarrow> from_uart (\<lambda>df. pb_uart_readm8 df a) w | CbFlash \<Rightarrow> from_flash (flash_readm8 a) w),
     cb_readm16 = (\<lambda>cb a opq w. case cb of CbPbUart \<Rightarrow> Inr (0, w) | CbFlash \<Rightarrow> from_flash (flash_readm16 a) w),
     cb_readm32 = (\<lambda>cb a opq w. case cb of CbPbUart \<Rightarrow> Inr (0, w) | CbFlash \<Rightarrow> from_flash (flash_readm32 a) w),
     cb_readm64 = (\<lambda>cb a opq w. Inr (0, w))\<rparr>"

section \<open>Construction and clock\<close>

text \<open>\<open>raw\<close> is the indeterminate contents of the new object; its registers are set by \<open>reset\<close>.\<close>

definition DevicePbUart_new ::
  "DevicePbUart \<Rightarrow> bool \<Rightarrow> phy_addr_t \<Rightarrow> int \<Rightarrow> virt_uart \<Rightarrow> dev_cb Memory \<Rightarrow>
   halt + DevicePbUart \<times> virt_uart \<times> dev_cb Memory" where
  "DevicePbUart_new raw df mmio_base irq v M =
     (let u = pb_uart_reset (raw\<lparr>pb_irq := irq\<rparr>);
          v' = snd (virt_uart_init df v) in
      bnd (mmio_register_writem8 mmio_base (mmio_base + pb_uart_mmio_size - 1) CbPbUart CbPbUart M) (\<lambda>M.
      bnd (mmio_register_readm8 mmio_base (mmio_base + pb_uart_mmio_size - 1) CbPbUart CbPbUart M) (\<lambda>M.
      Inr (u, v', M))))"

text \<open>\<open>mmio_base + size - 1\<close> is computed in \<open>size_t\<close> and converted to \<open>phy_addr_t\<close>.\<close>

definition Flash_new ::
  "u8 list \<Rightarrow> phy_addr_t \<Rightarrow> u8 list option \<Rightarrow> dev_cb Memory \<Rightarrow> halt + Flash \<times> dev_cb Memory" where
  "Flash_new raw mmio_base image_fp M =
     (let e = ucast (ucast mmio_base + of_nat (length raw) - 1 :: u64) in
      bnd (mmio_register_writem8 mmio_base e CbFlash CbFlash M) (\<lambda>M.
      bnd (mmio_register_readm8 mmio_base e CbFlash CbFlash M) (\<lambda>M.
      bnd (mmio_register_writem16 mmio_base e CbFlash CbFlash M) (\<lambda>M.
      bnd (mmio_register_readm16 mmio_base e CbFlash CbFlash M) (\<lambda>M.
      bnd (mmio_register_writem32 mmio_base e CbFlash CbFlash M) (\<lambda>M.
      bnd (mmio_register_readm32 mmio_base e CbFlash CbFlash M) (\<lambda>M.
      Inr (Flash_load raw mmio_base image_fp, M))))))))"

text \<open>\<open>raw_flash\<close> has the size of the flash, \<open>0x10000000\<close> bytes.\<close>

definition DeviceTree_new ::
  "DevicePbUart \<Rightarrow> u8 list \<Rightarrow> bool \<Rightarrow> phy_addr_t \<Rightarrow> u8 list option \<Rightarrow> virt_uart \<Rightarrow> dev_cb Memory \<Rightarrow>
   halt + DeviceTree \<times> dev_cb Memory" where
  "DeviceTree_new raw_uart raw_flash has_cpu mmio_phy_base' flash_image_fp v M =
     bnd (DevicePbUart_new raw_uart (\<not> has_cpu) (mmio_phy_base' + 0x10000000) 1 v M) (\<lambda>(u, v', M).
     bnd (Flash_new raw_flash (mmio_phy_base' + 0x30000000) flash_image_fp M) (\<lambda>(fl, M).
     Inr (\<lparr>dt_cpu = has_cpu, pb_uart = u, flash = fl, dt_virt = v'\<rparr>, M)))"

definition DeviceTree_step :: "dev_world \<Rightarrow> halt + dev_world" where
  "DeviceTree_step = on_uart pb_uart_step"

section \<open>The tree keeps the contract of the bus\<close>

definition dev_window :: "phy_addr_t \<Rightarrow> dev_cb \<Rightarrow> phy_addr_t \<Rightarrow> bool" where
  "dev_window base cb a = (case cb of
     CbPbUart \<Rightarrow> unat (a - (base + 0x10000000)) < 8
   | CbFlash \<Rightarrow> unat (a - (base + 0x30000000)) < 0x10000000)"

text \<open>
  The serial port is well-formed and its interrupt line agrees with it, the flash has an image; the tables of the registers have their sizes.
\<close>

definition dev_inv :: "phy_addr_t \<Rightarrow> nat \<Rightarrow> nat \<Rightarrow> dev_world \<Rightarrow> bool" where
  "dev_inv base ni nd = (\<lambda>(m, dt).
     uart_ok (in_difftest dt) (m, dt_virt dt, pb_uart dt) \<and> pb_irq (pb_uart dt) = 1 \<and> flash_wf (flash dt) \<and>
     fl_mmio_base (flash dt) = base + 0x30000000 \<and> length (fl_mem (flash dt)) = 0x10000000 \<and> msr_wf ni nd m)"

lemma msr_wf_IRR: "m'\<lparr>IRR := 0\<rparr> = m\<lparr>IRR := 0\<rparr> \<Longrightarrow> msr_wf ni nd m \<Longrightarrow> msr_wf ni nd m'"
  by (metis msr_wf_frame(9))

lemma in_difftest_upd [simp]: "in_difftest (dt\<lparr>dt_virt := v, pb_uart := u\<rparr>) = in_difftest dt" "in_difftest (dt\<lparr>flash := fl\<rparr>) = in_difftest dt"
  by (simp_all add: in_difftest_def)

lemma on_uart_inv:
  assumes "dev_inv base ni nd w"
    and "\<And>df x. uart_ok df x \<Longrightarrow> \<exists>x'. f df x = Inr x' \<and> uart_ok df x' \<and> uart_frame df x x'"
  shows "\<exists>w'. on_uart f w = Inr w' \<and> dev_inv base ni nd w'"
proof -
  obtain m dt where w: "w = (m, dt)" by fastforce
  have ok: "uart_ok (in_difftest dt) (m, dt_virt dt, pb_uart dt)" using assms(1) by (simp add: w dev_inv_def)
  obtain m' v' u' where x: "f (in_difftest dt) (m, dt_virt dt, pb_uart dt) = Inr (m', v', u')"
      "uart_ok (in_difftest dt) (m', v', u')" "uart_frame (in_difftest dt) (m, dt_virt dt, pb_uart dt) (m', v', u')"
    using assms(2) [OF ok] by auto
  then have "dev_inv base ni nd (m', dt\<lparr>dt_virt := v', pb_uart := u'\<rparr>)"
    using assms(1) by (auto simp: w dev_inv_def uart_frame_def intro: msr_wf_IRR)
  then show ?thesis using x(1) by (simp add: w on_uart_def)
qed

lemma from_uart_inv:
  assumes "dev_inv base ni nd w"
    and "\<And>df x. uart_ok df x \<Longrightarrow> \<exists>y x'. f df x = Inr (y, x') \<and> uart_ok df x' \<and> uart_frame df x x'"
  shows "\<exists>y w'. from_uart f w = Inr (y, w') \<and> dev_inv base ni nd w'"
proof -
  let ?g = "\<lambda>df x. bnd (f df x) (\<lambda>(y, x'). Inr x')"
  have "\<exists>w'. on_uart ?g w = Inr w' \<and> dev_inv base ni nd w'"
    by (rule on_uart_inv [OF assms(1)]) (use assms(2) in fastforce)
  then show ?thesis by (fastforce simp: on_uart_def from_uart_def split: prod.splits)
qed

lemma uart_write_ok: "uart_ok df x \<Longrightarrow> \<exists>x'. pb_uart_writem8 df a v x = Inr x' \<and> uart_ok df x' \<and> uart_frame df x x'"
  using pb_uart_writem8_post [of df "fst x" "fst (snd x)" "snd (snd x)" a v] by (metis prod.collapse)

lemma uart_read_ok: "uart_ok df x \<Longrightarrow> \<exists>y x'. pb_uart_readm8 df a x = Inr (y, x') \<and> uart_ok df x' \<and> uart_frame df x x'"
  using pb_uart_readm8_post [of df x a] by (auto simp: uart_post_def)

lemma uart_step_ok: "uart_ok df x \<Longrightarrow> \<exists>x'. pb_uart_step df x = Inr x' \<and> uart_ok df x' \<and> uart_frame df x x'"
  using pb_uart_step_post' [of df x] by (auto simp: uart_post_def)

lemma on_flash_inv:
  assumes "dev_inv base ni nd w" "dev_window base CbFlash a"
  shows "\<exists>w'. on_flash (flash_writem8 a v8) w = Inr w' \<and> dev_inv base ni nd w'"
    "\<exists>w'. on_flash (flash_writem16 a v16) w = Inr w' \<and> dev_inv base ni nd w'"
    "\<exists>w'. on_flash (flash_writem32 a v32) w = Inr w' \<and> dev_inv base ni nd w'"
    "\<exists>y. from_flash (flash_readm8 a) w = Inr (y, w)"
    "\<exists>y. from_flash (flash_readm16 a) w = Inr (y, w)"
    "\<exists>y. from_flash (flash_readm32 a) w = Inr (y, w)"
proof -
  obtain m dt where w: "w = (m, dt)" by fastforce
  have fl: "flash_wf (flash dt)" "fl_off (flash dt) a < length (fl_mem (flash dt))"
    using assms by (simp_all add: w dev_inv_def dev_window_def fl_off_def)
  have i: "img (flash dt) \<le> length (fl_mem (flash dt))" using fl(1) by (auto simp: flash_wf_def img_def)
  show "\<exists>w'. on_flash (flash_writem8 a v8) w = Inr w' \<and> dev_inv base ni nd w'"
    "\<exists>w'. on_flash (flash_writem16 a v16) w = Inr w' \<and> dev_inv base ni nd w'"
    "\<exists>w'. on_flash (flash_writem32 a v32) w = Inr w' \<and> dev_inv base ni nd w'"
    "\<exists>y. from_flash (flash_readm8 a) w = Inr (y, w)"
    "\<exists>y. from_flash (flash_readm16 a) w = Inr (y, w)"
    "\<exists>y. from_flash (flash_readm32 a) w = Inr (y, w)"
    using assms(1) fl i
    by (simp_all add: w on_flash_def from_flash_def flash_8 flash_16 flash_32 dev_inv_def fl_store_facts fl_store_wf)
qed

interpretation devs: mmio_device dev_vt "dev_window base" "dev_inv base ni nd" for base ni nd
proof unfold_locales
  fix d :: dev_world and cb a v8 v16 v32 opq
  assume d: "dev_inv base ni nd d" and win: "dev_window base cb a"
  have uw: "\<exists>w'. on_uart (\<lambda>df. pb_uart_writem8 df a v8) d = Inr w' \<and> dev_inv base ni nd w'"
    by (rule on_uart_inv [OF d uart_write_ok])
  have ur: "\<exists>y w'. from_uart (\<lambda>df. pb_uart_readm8 df a) d = Inr (y, w') \<and> dev_inv base ni nd w'"
    by (rule from_uart_inv [OF d uart_read_ok])
  show "safeE (dev_inv base ni nd) (cb_writem8 dev_vt cb a v8 opq d)"
    using uw on_flash_inv(1) [OF d, of a v8] win by (cases cb) (auto simp: dev_vt_def)
  show "safeE (dev_inv base ni nd) (cb_writem16 dev_vt cb a v16 opq d)"
    using d on_flash_inv(2) [OF d, of a v16] win by (cases cb) (auto simp: dev_vt_def)
  show "safeE (dev_inv base ni nd) (cb_writem32 dev_vt cb a v32 opq d)"
    using d on_flash_inv(3) [OF d, of a v32] win by (cases cb) (auto simp: dev_vt_def)
  show "safeE (\<lambda>(v, d'). dev_inv base ni nd d') (cb_readm8 dev_vt cb a opq d)"
    using d ur on_flash_inv(4) [OF d, of a] win by (cases cb) (auto simp: dev_vt_def)
  show "safeE (\<lambda>(v, d'). dev_inv base ni nd d') (cb_readm16 dev_vt cb a opq d)"
    using d on_flash_inv(5) [OF d, of a] win by (cases cb) (auto simp: dev_vt_def)
  show "safeE (\<lambda>(v, d'). dev_inv base ni nd d') (cb_readm32 dev_vt cb a opq d)"
    using d on_flash_inv(6) [OF d, of a] win by (cases cb) (auto simp: dev_vt_def)
qed

section \<open>Every access of the constructed bus is defined\<close>

lemma base_offset:
  assumes "unat (base :: u32) \<le> 0xC0000000" "k < 0x40000000"
  shows "unat (base + of_nat k) = unat base + k"
  using assms by (simp add: unat_word_ariths unat_of_nat)

lemma offset_in_range:
  fixes a s :: u32
  assumes "s \<le> a" "unat a \<le> unat s + k"
  shows "unat (a - s) \<le> k"
  using assms by (simp add: unat_sub word_le_nat_alt)

lemma uart_end: "base + 0x10000000 + 8 - 1 = base + (0x10000007 :: u32)"
  by simp

lemma node_ok:
  assumes "unat base \<le> 0xC0000000"
  shows "base + 0x10000000 \<le> a \<Longrightarrow> a \<le> base + 0x10000007 \<Longrightarrow> dev_window base CbPbUart a"
    "base + 0x30000000 \<le> a \<Longrightarrow> a \<le> base + 0x3fffffff \<Longrightarrow> dev_window base CbFlash a"
proof -
  note u = base_offset [OF assms, of "0x10000000"] base_offset [OF assms, of "0x10000007"]
    base_offset [OF assms, of "0x30000000"] base_offset [OF assms, of "0x3fffffff"]
  assume "base + 0x10000000 \<le> a" "a \<le> base + 0x10000007"
  then show "dev_window base CbPbUart a"
    using u(1,2) offset_in_range [of "base + 0x10000000" a 7] by (simp add: dev_window_def word_le_nat_alt)
next
  note u = base_offset [OF assms, of "0x30000000"] base_offset [OF assms, of "0x3fffffff"]
  assume "base + 0x30000000 \<le> a" "a \<le> base + 0x3fffffff"
  then show "dev_window base CbFlash a"
    using u offset_in_range [of "base + 0x30000000" a "0xfffffff"] by (simp add: dev_window_def word_le_nat_alt)
qed

lemma flash_end:
  assumes "unat (base :: u32) \<le> 0xC0000000"
  shows "ucast (ucast (base + 0x30000000) + of_nat 0x10000000 - 1 :: u64) = base + (0x3fffffff :: u32)"
proof -
  have u: "unat (base + 0x30000000) = unat base + 0x30000000" "unat (base + 0x3fffffff) = unat base + 0x3fffffff"
    using base_offset [OF assms, of "0x30000000"] base_offset [OF assms, of "0x3fffffff"] by simp_all
  have "ucast (base + 0x30000000) + of_nat 0x10000000 - 1 = (ucast (base + 0x30000000) + 0xfffffff :: u64)" by simp
  also have "\<dots> = ucast (base + 0x3fffffff)"
    using assms by (simp add: word_unat_eq_iff unat_word_ariths(1) [where 'a = 64] unat_ucast_up u)
  finally have eq: "ucast (base + 0x30000000) + of_nat 0x10000000 - 1 = (ucast (base + 0x3fffffff) :: u64)" .
  have "ucast (ucast x :: u64) = x" for x :: u32
    by (rule bit_word_eqI) (simp add: bit_simps)
  then show ?thesis unfolding eq .
qed

lemma disjoint_windows:
  assumes "unat (base :: u32) \<le> 0xC0000000"
  shows "\<not> base + 0x10000007 > base + 0x30000000"
  using base_offset [OF assms, of "0x10000007"] base_offset [OF assms, of "0x30000000"] by (simp add: word_less_nat_alt)

lemma DeviceTree_new_inv:
  assumes M: "Memory_new c raw start base last_addr = Inr M" "length raw < 2 ^ 63"
    and fl: "length raw_flash = 0x10000000" and base: "unat base \<le> 0xC0000000"
    and m: "msr_wf ni nd m" "\<not> bit (IRR m) 1"
  shows "\<exists>dt M'. DeviceTree_new raw_uart raw_flash c base (Some bytes) v M = Inr (dt, M') \<and>
    bus_inv (dev_window base) (dev_inv base ni nd) (M', (m, dt))"
proof -
  have dom: "mmio8 M = Some []" "mmio16 M = Some []" "mmio32 M = Some []"
    using M(1) by (auto simp: Memory_new_def)
  let ?n = "\<lambda>w s e cb. \<lparr>nd_write = w, nd_start_addr = s, nd_end_addr = e, nd_callback = cb, nd_opaque = cb\<rparr>"
  let ?us = "base + 0x10000000" and ?ue = "base + 0x10000007" and ?fs = "base + 0x30000000" and ?fe = "base + 0x3fffffff"
  let ?M = "M\<lparr>mmio8 := Some [?n False ?fs ?fe CbFlash, ?n True ?fs ?fe CbFlash, ?n False ?us ?ue CbPbUart, ?n True ?us ?ue CbPbUart],
    mmio16 := Some [?n False ?fs ?fe CbFlash, ?n True ?fs ?fe CbFlash],
    mmio32 := Some [?n False ?fs ?fe CbFlash, ?n True ?fs ?fe CbFlash]\<rparr>"
  let ?u = "pb_uart_reset (raw_uart\<lparr>pb_irq := 1\<rparr>)" and ?fl = "Flash_load raw_flash ?fs (Some bytes)"
  let ?dt = "\<lparr>dt_cpu = c, pb_uart = ?u, flash = ?fl, dt_virt = snd (virt_uart_init (\<not> c) v)\<rparr>"
  have "DeviceTree_new raw_uart raw_flash c base (Some bytes) v M = Inr (?dt, ?M)"
    using dom disjoint_windows [OF base] disjoint_windows [OF base, unfolded add.commute [of base "0x10000007"]] flash_end [OF base]
    by (simp add: uart_end DeviceTree_new_def DevicePbUart_new_def Flash_new_def Let_def fl mmio_register_writem8_def mmio_register_readm8_def
        mmio_register_writem16_def mmio_register_readm16_def mmio_register_writem32_def mmio_register_readm32_def
        mmio_append_node_def mmio_overlap_def)
  moreover have "flash_wf ?fl" "length (fl_mem ?fl) = 0x10000000" "fl_mmio_base ?fl = ?fs"
    using flash_wf_load(1) [of raw_flash ?fs bytes] flash_wf_load(3) [of raw_flash ?fs "Some bytes"] fl
    by (simp_all add: Flash_load_def Let_def)
  then have "dev_inv base ni nd (m, ?dt)"
    using m by (simp add: dev_inv_def uart_ok_def uart_wf_def uart_pending_def pb_uart_reset_def)
  then have "bus_inv (dev_window base) (dev_inv base ni nd) (?M, (m, ?dt))"
    using mem_wf_new [OF M] node_ok [OF base]
    by (simp add: bus_inv_def mem_wf_def mem_domains_ok_def domain_ok_def)
  ultimately show ?thesis by blast
qed

text \<open>Construction of the tree touches neither the DRAM nor the windows of addresses.\<close>

definition dram_part :: "'cb Memory \<Rightarrow> u8 list \<times> u64 \<times> phy_addr_t \<times> phy_addr_t \<times> phy_addr_t" where
  "dram_part M = (memory M, memory_size M, dram_phy_start M, mmio_phy_base M, mmio_phy_end_addr M)"

lemma append_frame:
  "mmio_register_writem8 s e cb opq M = Inr M' \<Longrightarrow> dram_part M' = dram_part M"
  "mmio_register_readm8 s e cb opq M = Inr M' \<Longrightarrow> dram_part M' = dram_part M"
  "mmio_register_writem16 s e cb opq M = Inr M' \<Longrightarrow> dram_part M' = dram_part M"
  "mmio_register_readm16 s e cb opq M = Inr M' \<Longrightarrow> dram_part M' = dram_part M"
  "mmio_register_writem32 s e cb opq M = Inr M' \<Longrightarrow> dram_part M' = dram_part M"
  "mmio_register_readm32 s e cb opq M = Inr M' \<Longrightarrow> dram_part M' = dram_part M"
  by (auto simp: mmio_register_writem8_def mmio_register_readm8_def mmio_register_writem16_def mmio_register_readm16_def
      mmio_register_writem32_def mmio_register_readm32_def dram_part_def)

lemma DeviceTree_new_part:
  "DeviceTree_new raw_uart raw_flash c base fp v M = Inr (dt, M') \<Longrightarrow> dram_part M' = dram_part M"
  by (auto simp: DeviceTree_new_def DevicePbUart_new_def Flash_new_def Let_def dest!: append_frame)

lemma DeviceTree_new_memory:
  "DeviceTree_new raw_uart raw_flash c base fp v M = Inr (dt, M') \<Longrightarrow>
   memory M' = memory M \<and> dram_phy_start M' = dram_phy_start M \<and> memory_size M' = memory_size M"
  using DeviceTree_new_part by (fastforce simp: dram_part_def)

lemma dram_at_part: "dram_part M' = dram_part M \<Longrightarrow> dram_at M' = dram_at M"
  by (simp add: dram_part_def dram_at_def in_dram_def in_mmio_def fun_eq_iff)

lemma append_mmio64:
  "mmio_register_writem8 s e cb opq M = Inr M' \<Longrightarrow> mmio64 M' = mmio64 M"
  "mmio_register_readm8 s e cb opq M = Inr M' \<Longrightarrow> mmio64 M' = mmio64 M"
  "mmio_register_writem16 s e cb opq M = Inr M' \<Longrightarrow> mmio64 M' = mmio64 M"
  "mmio_register_readm16 s e cb opq M = Inr M' \<Longrightarrow> mmio64 M' = mmio64 M"
  "mmio_register_writem32 s e cb opq M = Inr M' \<Longrightarrow> mmio64 M' = mmio64 M"
  "mmio_register_readm32 s e cb opq M = Inr M' \<Longrightarrow> mmio64 M' = mmio64 M"
  by (auto simp: mmio_register_writem8_def mmio_register_readm8_def mmio_register_writem16_def mmio_register_readm16_def
      mmio_register_writem32_def mmio_register_readm32_def)

lemma DeviceTree_new_mmio64: "DeviceTree_new raw_uart raw_flash c base fp v M = Inr (dt, M') \<Longrightarrow> mmio64 M' = mmio64 M"
  by (auto simp: DeviceTree_new_def DevicePbUart_new_def Flash_new_def Let_def dest!: append_mmio64)

text \<open>A sequence of physical accesses of every width and of device clocks.\<close>

datatype bus_op = BWrite8 phy_addr_t u8 | BWrite16 phy_addr_t u16 | BWrite32 phy_addr_t u32 | BWrite64 phy_addr_t u64
  | BRead8 phy_addr_t | BRead16 phy_addr_t | BRead32 phy_addr_t | BRead64 phy_addr_t | BClock

fun bus_do :: "bus_op \<Rightarrow> (dev_cb, dev_world) bus \<Rightarrow> halt + (dev_cb, dev_world) bus" where
  "bus_do (BWrite8 a v) s = phy_writem8 dev_vt a v s"
| "bus_do (BWrite16 a v) s = phy_writem16 dev_vt a v s"
| "bus_do (BWrite32 a v) s = phy_writem32 dev_vt a v s"
| "bus_do (BWrite64 a v) s = phy_writem64 dev_vt a v s"
| "bus_do (BRead8 a) s = bnd (phy_readm8 dev_vt a s) (\<lambda>(v, s'). Inr s')"
| "bus_do (BRead16 a) s = bnd (phy_readm16 dev_vt a s) (\<lambda>(v, s'). Inr s')"
| "bus_do (BRead32 a) s = bnd (phy_readm32 dev_vt a s) (\<lambda>(v, s'). Inr s')"
| "bus_do (BRead64 a) s = bnd (phy_readm64 dev_vt a s) (\<lambda>(v, s'). Inr s')"
| "bus_do BClock (M, d) = bnd (DeviceTree_step d) (\<lambda>d'. Inr (M, d'))"

fun bus_run :: "bus_op list \<Rightarrow> (dev_cb, dev_world) bus \<Rightarrow> halt + (dev_cb, dev_world) bus" where
  "bus_run [] s = Inr s"
| "bus_run (x # xs) s = bnd (bus_do x s) (bus_run xs)"

text \<open>A 64-bit access to an address from \<open>lo\<close> to \<open>hi\<close>.\<close>

fun wide_in :: "phy_addr_t \<Rightarrow> phy_addr_t \<Rightarrow> bus_op \<Rightarrow> bool" where
  "wide_in lo hi (BWrite64 a v) \<longleftrightarrow> lo \<le> a \<and> a \<le> hi"
| "wide_in lo hi (BRead64 a) \<longleftrightarrow> lo \<le> a \<and> a \<le> hi"
| "wide_in lo hi _ \<longleftrightarrow> False"

lemma DeviceTree_step_inv: "dev_inv base ni nd d \<Longrightarrow> \<exists>d'. DeviceTree_step d = Inr d' \<and> dev_inv base ni nd d'"
  unfolding DeviceTree_step_def by (rule on_uart_inv [OF _ uart_step_ok])

lemma bus_do_safe:
  assumes "bus_inv (dev_window base) (dev_inv base ni nd) s" and "\<not> wide_in (mmio_phy_base (fst s)) (mmio_phy_end_addr (fst s)) x"
  shows "safeE (bus_inv (dev_window base) (dev_inv base ni nd)) (bus_do x s)"
proof (cases x)
  case BClock
  obtain M d where s: "s = (M, d)" by (rule prod.exhaust)
  then have "dev_inv base ni nd d" using assms(1) by (simp add: bus_inv_def)
  then obtain d' where "DeviceTree_step d = Inr d'" "dev_inv base ni nd d'" using DeviceTree_step_inv by blast
  then show ?thesis using assms(1) by (simp add: BClock s bus_inv_def)
qed (use assms in \<open>auto simp: in_mmio_def intro!: safeE_bnd [OF devs.phy_readm8_safe] safeE_bnd [OF devs.phy_readm16_safe]
    safeE_bnd [OF devs.phy_readm32_safe] safeE_bnd [OF devs.phy_readm64_safe] intro: devs.phy_writem8_safe devs.phy_writem16_safe
    devs.phy_writem32_safe devs.phy_writem64_safe\<close>)

lemma bus_do_frame: "bus_do x s = Inr s' \<Longrightarrow> bus_frame s' = bus_frame s"
proof (cases x)
  case BClock
  assume "bus_do x s = Inr s'"
  then show ?thesis by (cases s) (auto simp: BClock bus_frame_def)
qed (auto dest: phy_writem8_frame phy_readm8_frame phy_write_frame phy_read_frame)

lemma bus_do_wide: "mmio64 (fst s) = None \<Longrightarrow> wide_in (mmio_phy_base (fst s)) (mmio_phy_end_addr (fst s)) x \<Longrightarrow> bus_do x s = Inl Undefined"
  by (cases s; cases x) (simp_all add: in_mmio_def phy_64_undefined)

lemma bus_run_split:
  "(\<exists>ys y zs s'. x # xs = ys @ y # zs \<and> bus_run ys s = Inr s' \<and> P y) \<longleftrightarrow>
   P x \<or> (\<exists>s1. bus_do x s = Inr s1 \<and> (\<exists>ys y zs s'. xs = ys @ y # zs \<and> bus_run ys s1 = Inr s' \<and> P y))"
  (is "?l \<longleftrightarrow> ?r")
proof
  assume ?l
  then obtain ys y zs s' where y: "x # xs = ys @ y # zs" "bus_run ys s = Inr s'" "P y" by blast
  then show ?r
  proof (cases ys)
    case (Cons x' ys')
    then obtain s1 where "bus_do x s = Inr s1" "bus_run ys' s1 = Inr s'" using y(1,2) by (cases "bus_do x s") auto
    then show ?thesis using y Cons by (intro disjI2 exI [of _ s1] conjI exI [of _ ys'] exI [of _ y] exI [of _ zs] exI [of _ s']) simp_all
  qed simp
next
  assume ?r
  then show ?l
  proof
    assume "P x"
    then show ?l by (intro exI [of _ "[]"] exI [of _ x] exI [of _ xs] exI [of _ s]) simp
  next
    assume "\<exists>s1. bus_do x s = Inr s1 \<and> (\<exists>ys y zs s'. xs = ys @ y # zs \<and> bus_run ys s1 = Inr s' \<and> P y)"
    then obtain s1 ys y zs s' where "bus_do x s = Inr s1" "xs = ys @ y # zs" "bus_run ys s1 = Inr s'" "P y" by blast
    then show ?l by (intro exI [of _ "x # ys"] exI [of _ y] exI [of _ zs] exI [of _ s']) simp
  qed
qed

lemma bus_run_outcome:
  assumes "bus_ok (dev_window base) (dev_inv base ni nd) W s" and "mmio64 W = None"
  shows "(bus_run xs s = Inl Undefined \<longleftrightarrow>
      (\<exists>ys y zs s'. xs = ys @ y # zs \<and> bus_run ys s = Inr s' \<and> wide_in (mmio_phy_base W) (mmio_phy_end_addr W) y)) \<and>
    (case bus_run xs s of Inl e \<Rightarrow> e \<noteq> AssertFail | Inr s' \<Rightarrow> bus_ok (dev_window base) (dev_inv base ni nd) W s')"
  using assms(1)
proof (induction xs arbitrary: s)
  case Nil
  then show ?case by simp
next
  case (Cons x xs)
  let ?P = "wide_in (mmio_phy_base W) (mmio_phy_end_addr W)"
  have w: "mmio_phy_base (fst s) = mmio_phy_base W" "mmio_phy_end_addr (fst s) = mmio_phy_end_addr W" "mmio64 (fst s) = None"
    and b: "bus_inv (dev_window base) (dev_inv base ni nd) s"
    using Cons.prems assms(2) by (auto simp: bus_ok_def bus_frame_def)
  show ?case
  proof (cases "?P x")
    case True
    then have "bus_do x s = Inl Undefined" using bus_do_wide [of s x] w by simp
    with True show ?thesis unfolding bus_run_split by simp
  next
    case False
    then have safe: "safeE (bus_inv (dev_window base) (dev_inv base ni nd)) (bus_do x s)" using bus_do_safe [OF b] w by simp
    show ?thesis
    proof (cases "bus_do x s")
      case (Inl e)
      then show ?thesis using safe False unfolding bus_run_split by (simp add: safeE_def)
    next
      case (Inr s1)
      then have "bus_ok (dev_window base) (dev_inv base ni nd) W s1"
        using safe Cons.prems bus_do_frame [OF Inr] by (simp add: bus_ok_def)
      from Cons.IH [OF this] show ?thesis using Inr False unfolding bus_run_split by simp
    qed
  qed
qed

text \<open>
  Claim C24: after the memory and the devices are constructed, with a flash image and an MMIO base of at most \<open>0xC0000000\<close>, the registration
  succeeds, and for every sequence of 8-, 16-, 32- and 64-bit accesses at any addresses and of device clocks: the behaviour is undefined exactly when
  the run reaches a 64-bit access to the MMIO window, whose list of handlers the constructor leaves uninitialised; no assertion fails; a run to the end leaves a
  state where every handler still meets its contract and the serial port's interrupt line agrees with the device. The remaining runs
  stop with the diagnosis of an unmapped address.
\<close>

theorem device_bus_defined:
  assumes "Memory_new c raw start base last_addr = Inr M" "length raw < 2 ^ 63"
    and "length raw_flash = 0x10000000" "unat base \<le> 0xC0000000" and "msr_wf ni nd m" "\<not> bit (IRR m) 1"
  shows "\<exists>dt M'. DeviceTree_new raw_uart raw_flash c base (Some bytes) v M = Inr (dt, M') \<and>
    (bus_run xs (M', (m, dt)) = Inl Undefined \<longleftrightarrow>
      (\<exists>ys y zs s. xs = ys @ y # zs \<and> bus_run ys (M', (m, dt)) = Inr s \<and> wide_in base last_addr y)) \<and>
    (case bus_run xs (M', (m, dt)) of
       Inl e \<Rightarrow> e \<noteq> AssertFail
     | Inr s \<Rightarrow> bus_inv (dev_window base) (dev_inv base ni nd) s \<and> bus_frame s = M'\<lparr>memory := []\<rparr>)"
proof -
  obtain dt M' where new: "DeviceTree_new raw_uart raw_flash c base (Some bytes) v M = Inr (dt, M')"
    and inv: "bus_inv (dev_window base) (dev_inv base ni nd) (M', (m, dt))"
    using DeviceTree_new_inv [OF assms, of raw_uart bytes v] by blast
  let ?W = "M'\<lparr>memory := []\<rparr>"
  have "mmio64 M = None" "mmio_phy_base M = base" "mmio_phy_end_addr M = last_addr" using assms(1) by (auto simp: Memory_new_def)
  then have W: "mmio64 ?W = None" "mmio_phy_base ?W = base" "mmio_phy_end_addr ?W = last_addr"
    using DeviceTree_new_part [OF new] DeviceTree_new_mmio64 [OF new] by (auto simp: dram_part_def)
  have "bus_ok (dev_window base) (dev_inv base ni nd) ?W (M', (m, dt))" using inv by (simp add: bus_ok_def bus_frame_def)
  from bus_run_outcome [OF this W(1), of xs] new show ?thesis unfolding W by (auto simp: bus_ok_def split: sum.splits)
qed

theorem device_bus_defined_witness:
  "length (replicate 0x10000000 (0::u8)) = 0x10000000 \<and> (\<exists>M dt M'.
     Memory_new True (replicate 4096 0) 0x80000000 0 0x7fffffff = Inr M \<and>
     DeviceTree_new (pb_uart_reset undefined) (replicate 0x10000000 0) True 0 (Some [1, 2, 3])
       \<lparr>vu_inited = False, vu_in_difftest = False, vu_dat = 0, vu_dat_pending_for_difftest = False, vu_stdout = []\<rparr> M = Inr (dt, M') \<and>
     bus_run [BWrite8 0x10000000 0x41, BRead32 0x30000000, BRead64 0x80000000, BClock] (M', (msr_zero 16 16, dt)) \<noteq> Inl Undefined \<and>
     bus_run [BRead64 0x10000000] (M', (msr_zero 16 16, dt)) = Inl Undefined)"
proof -
  obtain M :: "dev_cb Memory" where M: "Memory_new True (replicate 4096 0) 0x80000000 0 0x7fffffff = Inr M"
    by (simp add: Memory_new_def)
  let ?v = "\<lparr>vu_inited = False, vu_in_difftest = False, vu_dat = 0, vu_dat_pending_for_difftest = False, vu_stdout = []\<rparr>"
  let ?new = "DeviceTree_new (pb_uart_reset undefined) (replicate 0x10000000 0) True 0 (Some [1, 2, 3]) ?v M"
  have m: "msr_wf 16 16 (msr_zero 16 16)" "\<not> bit (IRR (msr_zero 16 16)) 1" by (simp, simp add: msr_zero_def)
  have len: "length (replicate 4096 (0::u8)) < 2 ^ 63" "unat (0 :: phy_addr_t) \<le> 0xC0000000" by simp_all
  note T = device_bus_defined [OF M len(1) length_replicate len(2) m, of "pb_uart_reset undefined" 0 "[1, 2, 3]" ?v]
  let ?xs = "[BWrite8 0x10000000 0x41, BRead32 0x30000000, BRead64 0x80000000, BClock]"
  obtain dt M' where new: "?new = Inr (dt, M')" using T [of "[]"] by (elim exE conjE)
  have u: "bus_run xs (M', (msr_zero 16 16, dt)) = Inl Undefined \<longleftrightarrow>
      (\<exists>ys y zs s. xs = ys @ y # zs \<and> bus_run ys (M', (msr_zero 16 16, dt)) = Inr s \<and> wide_in 0 0x7fffffff y)" for xs
    using T [of xs] by (elim exE conjE) (simp only: new sum.inject prod.inject)
  have "\<not> wide_in 0 0x7fffffff y" if "?xs = ys @ y # zs" for ys y zs
  proof -
    have "y \<in> set ?xs" unfolding that by simp
    then show ?thesis by auto
  qed
  then have "bus_run ?xs (M', (msr_zero 16 16, dt)) \<noteq> Inl Undefined" unfolding u by blast
  moreover have "bus_run [BRead64 0x10000000] (M', (msr_zero 16 16, dt)) = Inl Undefined"
    unfolding u by (intro exI [of _ "[]"] exI [of _ "BRead64 0x10000000"] exI [of _ "[]"] exI [of _ "(M', (msr_zero 16 16, dt))"]) simp
  ultimately show ?thesis using M new by (intro conjI length_replicate exI [of _ M] exI [of _ dt] exI [of _ M'])
qed

end
