(* ===== verification/Axi4.thy ===== *)
theory Axi4
  imports Memory
begin

text \<open>
  The AXI4 channels of \<open>em/csrc/peripheral/axi4.hh\<close> and \<open>em/csrc/peripheral/axi4.cc\<close>: the five channel structures, the macros
  that copy them from and to the ports of the simulated design, and the handshake helpers. The design itself is generated from the
  hardware description; its AXI ports are the record \<open>dut_axi\<close>, with the names and the types through which the macros use them.
  The main result is the byte-lane merge of \<open>axi_get_wdata\<close>.
\<close>

section \<open>Channels\<close>

type_synonym axi_addr_t = u64
type_synonym axi_data_t = "u64 list"

abbreviation (input) AXI_DATA_WIDTH_64 :: nat where "AXI_DATA_WIDTH_64 \<equiv> 4"

record axi_aw_channel =
  aw_ready :: u8
  aw_valid :: u8
  aw_addr :: axi_addr_t
  aw_prot :: u8
  aw_id :: u8
  aw_user :: u8
  aw_len :: u8
  aw_size :: u8
  aw_burst :: u8
  aw_lock :: u8
  aw_cache :: u8
  aw_qos :: u8

record axi_w_channel =
  w_ready :: u8
  w_valid :: u8
  w_data :: axi_data_t
  w_strb :: u8
  w_last :: u8

record axi_b_channel =
  b_ready :: u8
  b_valid :: u8
  b_resp :: u8
  b_id :: u8
  b_user :: u8

record axi_ar_channel =
  ar_ready :: u8
  ar_valid :: u8
  ar_addr :: axi_addr_t
  ar_prot :: u8
  ar_id :: u8
  ar_user :: u8
  ar_len :: u8
  ar_size :: u8
  ar_burst :: u8
  ar_lock :: u8
  ar_cache :: u8
  ar_qos :: u8

record axi_r_channel =
  r_ready :: u8
  r_valid :: u8
  r_resp :: u8
  r_data :: axi_data_t
  r_last :: u8
  r_id :: u8
  r_user :: u8

record axi_channel =
  ax_aw :: axi_aw_channel
  ax_w :: axi_w_channel
  ax_b :: axi_b_channel
  ax_ar :: axi_ar_channel
  ax_r :: axi_r_channel

text \<open>The ports \<open>io_memAXI_0_*\<close> of the design.\<close>

record dut_axi =
  dut_aw_ready :: u8
  dut_aw_valid :: u8
  dut_aw_bits_addr :: axi_addr_t
  dut_aw_bits_prot :: u8
  dut_aw_bits_id :: u8
  dut_aw_bits_len :: u8
  dut_aw_bits_size :: u8
  dut_aw_bits_burst :: u8
  dut_aw_bits_lock :: u8
  dut_aw_bits_cache :: u8
  dut_aw_bits_qos :: u8
  dut_w_ready :: u8
  dut_w_valid :: u8
  dut_w_bits_data :: axi_data_t
  dut_w_bits_strb :: u8
  dut_w_bits_last :: u8
  dut_b_ready :: u8
  dut_b_valid :: u8
  dut_b_bits_resp :: u8
  dut_b_bits_id :: u8
  dut_ar_ready :: u8
  dut_ar_valid :: u8
  dut_ar_bits_addr :: axi_addr_t
  dut_ar_bits_prot :: u8
  dut_ar_bits_id :: u8
  dut_ar_bits_len :: u8
  dut_ar_bits_size :: u8
  dut_ar_bits_burst :: u8
  dut_ar_bits_lock :: u8
  dut_ar_bits_cache :: u8
  dut_ar_bits_qos :: u8
  dut_r_ready :: u8
  dut_r_valid :: u8
  dut_r_bits_resp :: u8
  dut_r_bits_data :: axi_data_t
  dut_r_bits_last :: u8
  dut_r_bits_id :: u8

section \<open>Copying between channels and ports\<close>

text \<open>\<open>axi_copy_data\<close> copies the four words of a data array. The \<open>user\<close> signals are not copied.\<close>

definition axi_aw_copy_from_dut_ptr :: "dut_axi \<Rightarrow> axi_aw_channel \<Rightarrow> axi_aw_channel" where
  "axi_aw_copy_from_dut_ptr p c =
     c\<lparr>aw_ready := dut_aw_ready p,
       aw_valid := dut_aw_valid p,
       aw_addr := dut_aw_bits_addr p,
       aw_prot := dut_aw_bits_prot p,
       aw_id := dut_aw_bits_id p,
       aw_len := dut_aw_bits_len p,
       aw_size := dut_aw_bits_size p,
       aw_burst := dut_aw_bits_burst p,
       aw_lock := dut_aw_bits_lock p,
       aw_cache := dut_aw_bits_cache p,
       aw_qos := dut_aw_bits_qos p\<rparr>"

definition axi_w_copy_from_dut_ptr :: "dut_axi \<Rightarrow> axi_w_channel \<Rightarrow> axi_w_channel" where
  "axi_w_copy_from_dut_ptr p c =
     c\<lparr>w_ready := dut_w_ready p,
       w_valid := dut_w_valid p,
       w_data := dut_w_bits_data p,
       w_strb := dut_w_bits_strb p,
       w_last := dut_w_bits_last p\<rparr>"

definition axi_b_copy_from_dut_ptr :: "dut_axi \<Rightarrow> axi_b_channel \<Rightarrow> axi_b_channel" where
  "axi_b_copy_from_dut_ptr p c =
     c\<lparr>b_ready := dut_b_ready p,
       b_valid := dut_b_valid p,
       b_resp := dut_b_bits_resp p,
       b_id := dut_b_bits_id p\<rparr>"

definition axi_ar_copy_from_dut_ptr :: "dut_axi \<Rightarrow> axi_ar_channel \<Rightarrow> axi_ar_channel" where
  "axi_ar_copy_from_dut_ptr p c =
     c\<lparr>ar_ready := dut_ar_ready p,
       ar_valid := dut_ar_valid p,
       ar_addr := dut_ar_bits_addr p,
       ar_prot := dut_ar_bits_prot p,
       ar_id := dut_ar_bits_id p,
       ar_len := dut_ar_bits_len p,
       ar_size := dut_ar_bits_size p,
       ar_burst := dut_ar_bits_burst p,
       ar_lock := dut_ar_bits_lock p,
       ar_cache := dut_ar_bits_cache p,
       ar_qos := dut_ar_bits_qos p\<rparr>"

definition axi_r_copy_from_dut_ptr :: "dut_axi \<Rightarrow> axi_r_channel \<Rightarrow> axi_r_channel" where
  "axi_r_copy_from_dut_ptr p c =
     c\<lparr>r_ready := dut_r_ready p,
       r_valid := dut_r_valid p,
       r_resp := dut_r_bits_resp p,
       r_data := dut_r_bits_data p,
       r_last := dut_r_bits_last p,
       r_id := dut_r_bits_id p\<rparr>"

definition axi_aw_set_dut_ptr :: "axi_aw_channel \<Rightarrow> dut_axi \<Rightarrow> dut_axi" where
  "axi_aw_set_dut_ptr c p = p\<lparr>dut_aw_ready := aw_ready c\<rparr>"

definition axi_w_set_dut_ptr :: "axi_w_channel \<Rightarrow> dut_axi \<Rightarrow> dut_axi" where
  "axi_w_set_dut_ptr c p = p\<lparr>dut_w_ready := w_ready c\<rparr>"

definition axi_b_set_dut_ptr :: "axi_b_channel \<Rightarrow> dut_axi \<Rightarrow> dut_axi" where
  "axi_b_set_dut_ptr c p = p\<lparr>dut_b_valid := b_valid c, dut_b_bits_resp := b_resp c, dut_b_bits_id := b_id c\<rparr>"

definition axi_ar_set_dut_ptr :: "axi_ar_channel \<Rightarrow> dut_axi \<Rightarrow> dut_axi" where
  "axi_ar_set_dut_ptr c p = p\<lparr>dut_ar_ready := ar_ready c\<rparr>"

definition axi_r_set_dut_ptr :: "axi_r_channel \<Rightarrow> dut_axi \<Rightarrow> dut_axi" where
  "axi_r_set_dut_ptr c p = p\<lparr>dut_r_valid := r_valid c, dut_r_bits_resp := r_resp c, dut_r_bits_data := r_data c, dut_r_bits_last := r_last c, dut_r_bits_id := r_id c\<rparr>"

definition axi_copy_from_dut_ptr :: "dut_axi \<Rightarrow> axi_channel \<Rightarrow> axi_channel" where
  "axi_copy_from_dut_ptr p axi =
     axi\<lparr>ax_aw := axi_aw_copy_from_dut_ptr p (ax_aw axi),
       ax_w := axi_w_copy_from_dut_ptr p (ax_w axi),
       ax_b := axi_b_copy_from_dut_ptr p (ax_b axi),
       ax_ar := axi_ar_copy_from_dut_ptr p (ax_ar axi),
       ax_r := axi_r_copy_from_dut_ptr p (ax_r axi)\<rparr>"

definition axi_set_dut_ptr :: "axi_channel \<Rightarrow> dut_axi \<Rightarrow> dut_axi" where
  "axi_set_dut_ptr axi p =
     axi_r_set_dut_ptr (ax_r axi) (axi_ar_set_dut_ptr (ax_ar axi) (axi_b_set_dut_ptr (ax_b axi)
       (axi_w_set_dut_ptr (ax_w axi) (axi_aw_set_dut_ptr (ax_aw axi) p))))"

section \<open>Handshakes\<close>

text \<open>\<open>axi_get_raddr\<close> and \<open>axi_get_waddr\<close> assign \<open>addr\<close> only when they return true.\<close>

definition axi_get_raddr :: "axi_channel \<Rightarrow> axi_addr_t option" where
  "axi_get_raddr axi = (if ar_valid (ax_ar axi) \<noteq> 0 then Some (ar_addr (ax_ar axi)) else None)"

definition axi_accept_raddr :: "axi_channel \<Rightarrow> axi_channel" where
  "axi_accept_raddr axi = axi\<lparr>ax_ar := (ax_ar axi)\<lparr>ar_ready := 1\<rparr>\<rparr>"

definition axi_check_raddr_fire :: "axi_channel \<Rightarrow> bool" where
  "axi_check_raddr_fire axi \<longleftrightarrow> ar_valid (ax_ar axi) \<noteq> 0 \<and> ar_ready (ax_ar axi) \<noteq> 0"

text \<open>\<open>n\<close> is overwritten by 8, so exactly one word of the source is copied; \<open>src0\<close> is that word.\<close>

definition axi_put_rdata :: "u64 \<Rightarrow> bool \<Rightarrow> u8 \<Rightarrow> axi_channel \<Rightarrow> axi_channel" where
  "axi_put_rdata src0 last_beat bid axi =
     axi\<lparr>ax_r := (ax_r axi)\<lparr>r_data := (r_data (ax_r axi))[0 := src0], r_valid := 1,
       r_last := if last_beat then 1 else 0, r_id := bid\<rparr>\<rparr>"

definition axi_check_rdata_fire :: "axi_channel \<Rightarrow> bool" where
  "axi_check_rdata_fire axi \<longleftrightarrow> r_ready (ax_r axi) \<noteq> 0 \<and> r_valid (ax_r axi) \<noteq> 0"

definition axi_get_waddr :: "axi_channel \<Rightarrow> axi_addr_t option" where
  "axi_get_waddr axi = (if aw_valid (ax_aw axi) \<noteq> 0 then Some (aw_addr (ax_aw axi)) else None)"

definition axi_accept_waddr :: "axi_channel \<Rightarrow> axi_channel" where
  "axi_accept_waddr axi = axi\<lparr>ax_aw := (ax_aw axi)\<lparr>aw_ready := 1\<rparr>\<rparr>"

definition axi_check_waddr_fire :: "axi_channel \<Rightarrow> halt + bool" where
  "axi_check_waddr_fire axi =
     (if aw_valid (ax_aw axi) \<noteq> 0 \<and> aw_ready (ax_aw axi) \<noteq> 0
      then assertE (aw_burst (ax_aw axi) = 1 \<or> aw_burst (ax_aw axi) = 2 \<and> aw_addr (ax_aw axi) AND 0x3f = 0) (Inr True)
      else Inr False)"

definition axi_accept_wdata :: "axi_channel \<Rightarrow> axi_channel" where
  "axi_accept_wdata axi = axi\<lparr>ax_w := (ax_w axi)\<lparr>w_ready := 1\<rparr>\<rparr>"

definition axi_check_wdata_fire :: "axi_channel \<Rightarrow> bool" where
  "axi_check_wdata_fire axi \<longleftrightarrow> w_valid (ax_w axi) \<noteq> 0 \<and> w_ready (ax_w axi) \<noteq> 0"

text \<open>
  The bytes of a data array in memory, little endian. \<open>src\<close> and the result are the \<open>n\<close> bytes at the two pointers, which may be the
  same: byte \<open>i\<close> of the source is read before byte \<open>i\<close> of the destination is written and not used again.
\<close>

definition word_bytes :: "u64 \<Rightarrow> u8 list" where
  "word_bytes w = map (\<lambda>k. byte_of k w) [0..<8]"

definition axi_data_bytes :: "axi_data_t \<Rightarrow> u8 list" where
  "axi_data_bytes d = concat (map word_bytes d)"

definition axi_get_wdata :: "axi_channel \<Rightarrow> u8 list \<Rightarrow> nat \<Rightarrow> halt + u8 list" where
  "axi_get_wdata axi src n =
     (let data = axi_data_bytes (w_data (ax_w axi)) in
      if w_strb (ax_w axi) = 0xff
      then if n \<le> length data then Inr (take n data) else Inl Undefined
      else assertE (n \<le> 8)
        (if n \<le> length src \<and> n \<le> length data
         then Inr (map (\<lambda>i. if w_strb (ax_w axi) AND push_bit i 1 \<noteq> 0 then data ! i else src ! i) [0..<n])
         else Inl Undefined))"

definition axi_put_wack :: "u8 \<Rightarrow> axi_channel \<Rightarrow> axi_channel" where
  "axi_put_wack bid axi = axi\<lparr>ax_b := (ax_b axi)\<lparr>b_valid := 1, b_id := bid\<rparr>\<rparr>"

definition axi_check_wack_fire :: "axi_channel \<Rightarrow> bool" where
  "axi_check_wack_fire axi \<longleftrightarrow> b_valid (ax_b axi) \<noteq> 0 \<and> b_ready (ax_b axi) \<noteq> 0"

section \<open>The byte-lane merge\<close>

definition bytes_word :: "u8 list \<Rightarrow> u64" where
  "bytes_word bs = push_bit 56 (ucast (bs ! 7)) OR push_bit 48 (ucast (bs ! 6)) OR push_bit 40 (ucast (bs ! 5)) OR
     push_bit 32 (ucast (bs ! 4)) OR push_bit 24 (ucast (bs ! 3)) OR push_bit 16 (ucast (bs ! 2)) OR
     push_bit 8 (ucast (bs ! 1)) OR ucast (bs ! 0)"

lemma word_bytes_nth: "length (word_bytes w) = 8" "k < 8 \<Longrightarrow> word_bytes w ! k = byte_of k w"
  by (simp_all add: word_bytes_def)

lemma bytes_word_bytes: "bytes_word (word_bytes w) = w"
  by (simp add: bytes_word_def word_bytes_nth bytes_word64 del: One_nat_def)

lemma byte_of_bytes_word: "k < 8 \<Longrightarrow> byte_of k (bytes_word bs) = bs ! k"
proof -
  assume "k < 8"
  then have "k \<in> {0, 1, 2, 3, 4, 5, 6, 7}" by auto
  then show ?thesis
    by (elim insertE emptyE; hypsubst; intro bit_eqI)
      (auto simp: byte_of_def bytes_word_def bit_simps dest: bit_imp_le_length)
qed

lemma strb_bit: "strb AND 2 ^ i = 0 \<longleftrightarrow> \<not> bit strb i" for strb :: u8
  using word_nonzero_iff [of "strb AND 2 ^ i"] by (auto simp: bit_simps dest: bit_imp_le_length)

lemma strb_full: "strb = 0xff \<longleftrightarrow> (\<forall>i < 8. bit strb i)" for strb :: u8
proof -
  have "(0xff :: u8) = mask 8" by (simp add: mask_eq_exp_minus_1)
  then show ?thesis by (auto simp: bit_eq_iff bit_simps)
qed

lemma axi_get_wdata_merge:
  assumes "length src = 8" and "w_data (ax_w axi) = w # ws"
  shows "axi_get_wdata axi src 8 =
    Inr (map (\<lambda>i. if bit (w_strb (ax_w axi)) i then byte_of i w else src ! i) [0..<8])"
proof -
  have d: "axi_data_bytes (w_data (ax_w axi)) ! i = byte_of i w" if "i < 8" for i
    using that by (simp add: assms(2) axi_data_bytes_def nth_append word_bytes_nth)
  have l: "8 \<le> length (axi_data_bytes (w_data (ax_w axi)))"
    by (simp add: assms(2) axi_data_bytes_def word_bytes_nth)
  show ?thesis
  proof (cases "w_strb (ax_w axi) = 0xff")
    case True
    then have "\<forall>i < 8. bit (w_strb (ax_w axi)) i" using strb_full by blast
    then have "take 8 (axi_data_bytes (w_data (ax_w axi))) =
        map (\<lambda>i. if bit (w_strb (ax_w axi)) i then byte_of i w else src ! i) [0..<8]"
      using l d by (intro nth_equalityI) simp_all
    then show ?thesis using True l by (simp add: axi_get_wdata_def)
  next
    case False
    then show ?thesis using l d assms(1) by (simp add: axi_get_wdata_def strb_bit)
  qed
qed

end
