(* ===== verification/Axi4Crossbar.thy ===== *)
theory Axi4Crossbar
  imports Axi4 DeviceTree
begin

text \<open>
  The AXI4 crossbar of \<open>em/csrc/peripheral/axi4-crossbar.hh\<close> and \<open>axi4-crossbar.cc\<close>, which serves the memory requests of
  the simulated design: at most one read and one write transaction in flight, their beats, and the two clock edges. Requests are objects that
  are allocated, shared between pointers and deleted, so they live in a store \<open>xb_heap\<close>; a pointer is the number of an object, and using one that
  has been deleted is undefined. The timing model DRAMsim3 is a parameter: the record of the operations the crossbar calls. It only decides when requests are
  accepted and answered; data always comes from the memory.
\<close>

section \<open>State\<close>

abbreviation (input) MAX_AXI_DATA_LEN :: nat where "MAX_AXI_DATA_LEN \<equiv> 64"

record CoDRAMRequest =
  dr_address :: u64
  dr_is_write :: bool

record ('ds, 'rsp) CoDRAMsim3 =
  ds_tick :: "'ds \<Rightarrow> 'ds"
  ds_will_accept :: "u64 \<Rightarrow> bool \<Rightarrow> 'ds \<Rightarrow> bool"
  ds_add_request :: "CoDRAMRequest \<Rightarrow> 'ds \<Rightarrow> 'ds"
  ds_check_read_response :: "'ds \<Rightarrow> 'rsp option \<times> 'ds"
  ds_check_write_response :: "'ds \<Rightarrow> 'rsp option \<times> 'ds"

record Axi4CrossbarRequest =
  rq_address :: u64
  rq_is_write :: bool
  rq_is_mmio :: bool
  rq_len :: u8
  rq_size :: u8
  rq_offset :: u8
  rq_id :: u8
  rq_data :: "u64 list"
  rq_dram_req :: "CoDRAMRequest option"
  rq_resp_inflight :: bool
  rq_max_burst_len :: u32
  rq_max_size :: u32

record 'rsp Axi4CrossbarResponse =
  rs_req :: nat
  rs_dram_resp :: "'rsp option"

record ('cb, 'd, 'ds, 'rsp) Axi4Crossbar =
  xb_mem :: "('cb, 'd) bus"
  xb_dramsim :: 'ds
  wait_resp_r :: "'rsp Axi4CrossbarResponse option"
  wait_resp_b :: "'rsp Axi4CrossbarResponse option"
  wait_req_w :: "nat option"
  wait_req_r :: "nat option"
  xb_heap :: "nat \<rightharpoonup> Axi4CrossbarRequest"
  xb_next :: nat

definition Axi4Crossbar_new :: "('cb, 'd) bus \<Rightarrow> 'ds \<Rightarrow> ('cb, 'd, 'ds, 'rsp) Axi4Crossbar" where
  "Axi4Crossbar_new mem ds = \<lparr>xb_mem = mem, xb_dramsim = ds, wait_resp_r = None, wait_resp_b = None,
     wait_req_w = None, wait_req_r = None, xb_heap = Map.empty, xb_next = 0\<rparr>"

text \<open>\<open>p->...\<close>, and an assignment to a field of \<open>*p\<close>\<close>

definition deref :: "nat \<Rightarrow> ('cb, 'd, 'ds, 'rsp) Axi4Crossbar \<Rightarrow> halt + Axi4CrossbarRequest" where
  "deref p xb = (case xb_heap xb p of None \<Rightarrow> Inl Undefined | Some rq \<Rightarrow> Inr rq)"

definition store_req :: "nat \<Rightarrow> Axi4CrossbarRequest \<Rightarrow> ('cb, 'd, 'ds, 'rsp) Axi4Crossbar \<Rightarrow> ('cb, 'd, 'ds, 'rsp) Axi4Crossbar" where
  "store_req p rq xb = xb\<lparr>xb_heap := (xb_heap xb)(p \<mapsto> rq)\<rparr>"

definition delete_req :: "nat \<Rightarrow> ('cb, 'd, 'ds, 'rsp) Axi4Crossbar \<Rightarrow> halt + ('cb, 'd, 'ds, 'rsp) Axi4Crossbar" where
  "delete_req p xb = bnd (deref p xb) (\<lambda>_. Inr (xb\<lparr>xb_heap := (xb_heap xb)(p := None)\<rparr>))"

section \<open>Beats\<close>

definition is_mmio :: "'cb Memory \<Rightarrow> u64 \<Rightarrow> bool" where
  "is_mmio M address \<longleftrightarrow> address \<ge> ucast (mmio_phy_base M) \<and> address \<le> ucast (mmio_phy_end_addr M)"

text \<open>The limits of the flash window are computed in 32 bits.\<close>

definition get_constraint :: "'cb Memory \<Rightarrow> u64 \<Rightarrow> Axi4CrossbarRequest \<Rightarrow> Axi4CrossbarRequest" where
  "get_constraint M address rq =
     (if address \<ge> ucast (mmio_phy_base M + 0x30000000) \<and> address \<le> ucast (mmio_phy_base M + 0x3fffffff)
      then rq\<lparr>rq_max_burst_len := 1, rq_max_size := 4\<rparr>
      else rq\<lparr>rq_max_burst_len := 256, rq_max_size := 8\<rparr>)"

definition bytelane :: "u64 \<Rightarrow> nat" where
  "bytelane address = unat (address AND 7)"

text \<open>The address is narrowed to \<open>phy_addr_t\<close> in the calls.\<close>

definition pread :: "('cb, 'd) MMIOCallback \<Rightarrow> u64 \<Rightarrow> u8 \<Rightarrow> ('cb, 'd) bus \<Rightarrow> halt + u64 \<times> ('cb, 'd) bus" where
  "pread vt address beatsize s =
     bnd (if beatsize = 8 then phy_readm64 vt (ucast address) s
          else if beatsize = 4 then bnd (phy_readm32 vt (ucast address) s) (\<lambda>(v, s'). Inr (ucast v, s'))
          else if beatsize = 2 then bnd (phy_readm16 vt (ucast address) s) (\<lambda>(v, s'). Inr (ucast v, s'))
          else if beatsize = 1 then bnd (phy_readm8 vt (ucast address) s) (\<lambda>(v, s'). Inr (ucast v, s'))
          else Inl AssertFail) (\<lambda>(dat, s').
     Inr (push_bit (8 * bytelane address) dat, s'))"

definition pwrite :: "('cb, 'd) MMIOCallback \<Rightarrow> u64 \<Rightarrow> u64 \<Rightarrow> u8 \<Rightarrow> ('cb, 'd) bus \<Rightarrow> halt + ('cb, 'd) bus" where
  "pwrite vt address dat beatsize s =
     (let v = drop_bit (8 * bytelane address) dat in
      if beatsize = 8 then phy_writem64 vt (ucast address) v s
      else if beatsize = 4 then phy_writem32 vt (ucast address) (ucast v) s
      else if beatsize = 2 then phy_writem16 vt (ucast address) (ucast v) s
      else if beatsize = 1 then phy_writem8 vt (ucast address) (ucast v) s
      else Inl AssertFail)"

definition excp_wstrb :: "u64 \<Rightarrow> u8 \<Rightarrow> u8 option" where
  "excp_wstrb address beatsize =
     (let l = bytelane address; m = drop_bit l (0xff :: u32) in
      if beatsize = 8 then Some (ucast (push_bit l m))
      else if beatsize = 4 then Some (ucast (push_bit l (m AND 0xf)))
      else if beatsize = 2 then Some (ucast (push_bit l (m AND 0x3)))
      else if beatsize = 1 then Some (ucast (push_bit l (m AND 0x1)))
      else None)"

definition check_wstrb :: "u64 \<Rightarrow> u8 \<Rightarrow> u8 \<Rightarrow> halt + unit" where
  "check_wstrb address wstrb beatsize = assertE (excp_wstrb address beatsize = Some wstrb) (Inr ())"

section \<open>Requests\<close>

fun read_incr ::
  "('cb, 'd) MMIOCallback \<Rightarrow> u64 \<Rightarrow> nat \<Rightarrow> nat \<Rightarrow> u64 \<Rightarrow> u64 list \<Rightarrow> ('cb, 'd) bus \<Rightarrow> halt + u64 list \<times> ('cb, 'd) bus" where
  "read_incr vt beatsize 0 i address data s = Inr (data, s)"
| "read_incr vt beatsize (Suc n) i address data s =
     bnd (pread vt address (ucast beatsize) s) (\<lambda>(v, s').
     bnd (updE data i v) (\<lambda>data'.
     read_incr vt beatsize n (Suc i) (address + beatsize) data' s'))"

fun read_wrap ::
  "('cb, 'd) MMIOCallback \<Rightarrow> u64 \<Rightarrow> u64 \<Rightarrow> u64 \<Rightarrow> nat \<Rightarrow> nat \<Rightarrow> u64 \<Rightarrow> u64 list \<Rightarrow> ('cb, 'd) bus \<Rightarrow> halt + u64 list \<times> ('cb, 'd) bus" where
  "read_wrap vt beatsize low high 0 i address data s = Inr (data, s)"
| "read_wrap vt beatsize low high (Suc n) i address data s =
     (let a = (if address = high then low else address) in
      bnd (pread vt a (ucast beatsize) s) (\<lambda>(v, s').
      bnd (updE data i v) (\<lambda>data'.
      read_wrap vt beatsize low high n (Suc i) (a + beatsize) data' s')))"

text \<open>\<open>1 << size\<close> in \<open>int\<close>\<close>

definition shl1 :: "u8 \<Rightarrow> halt + u32" where
  "shl1 n = (if n < 32 then Inr (push_bit (unat n) 1) else Inl Undefined)"

definition axi_read_data ::
  "('cb, 'd) MMIOCallback \<Rightarrow> axi_ar_channel \<Rightarrow> Axi4CrossbarRequest \<Rightarrow> ('cb, 'd) bus \<Rightarrow> halt + Axi4CrossbarRequest \<times> ('cb, 'd) bus" where
  "axi_read_data vt ar rq s =
     bnd (shl1 (ar_size ar)) (\<lambda>bs.
     let address = ar_addr ar; beatsize = scast bs :: u64; beatlen = ar_len ar + 1;
         transaction_size = beatsize * ucast beatlen in
     assertE (beatsize \<le> 8) (
     assertE (unat beatlen \<le> MAX_AXI_DATA_LEN) (
     if beatsize = 0 then Inl Undefined else
     assertE (transaction_size mod beatsize = 0) (
     if ucast beatlen > rq_max_burst_len rq \<or> beatsize > ucast (rq_max_size rq) then Inl AssertFail else
     bnd (if ar_burst ar = 0 then Inl AssertFail
          else if ar_burst ar = 1 then read_incr vt beatsize (unat beatlen) 0 address (rq_data rq) s
          else if ar_burst ar = 2 then
            if transaction_size = 0 then Inl Undefined else
            let low = (address div transaction_size) * transaction_size; high = low + transaction_size in
            read_wrap vt beatsize low high (unat beatlen) 0 address (rq_data rq) s
          else Inl AssertFail) (\<lambda>(data, s').
     Inr (rq\<lparr>rq_data := data, rq_len := beatlen, rq_size := ucast beatsize, rq_offset := 0, rq_id := ar_id ar\<rparr>, s'))))))"

text \<open>\<open>new Axi4CrossbarRequest()\<close> sets every field to zero.\<close>

definition new_request :: Axi4CrossbarRequest where
  "new_request = \<lparr>rq_address = 0, rq_is_write = False, rq_is_mmio = False, rq_len = 0, rq_size = 0, rq_offset = 0, rq_id = 0,
     rq_data = replicate MAX_AXI_DATA_LEN 0, rq_dram_req = None, rq_resp_inflight = False, rq_max_burst_len = 0, rq_max_size = 0\<rparr>"

definition axi_request ::
  "('cb, 'd) MMIOCallback \<Rightarrow> axi_channel \<Rightarrow> bool \<Rightarrow> ('cb, 'd) bus \<Rightarrow> halt + Axi4CrossbarRequest \<times> ('cb, 'd) bus" where
  "axi_request vt axi is_write s =
     (let M = fst s; address = (if is_write then aw_addr (ax_aw axi) else ar_addr (ax_ar axi));
          rq0 = get_constraint M address
            (new_request\<lparr>rq_address := address, rq_is_write := is_write, rq_is_mmio := is_mmio M address\<rparr>) in
      bnd (if is_write then
             bnd (shl1 (aw_size (ax_aw axi))) (\<lambda>bs.
             let rq = rq0\<lparr>rq_len := aw_len (ax_aw axi) + 1, rq_size := ucast bs, rq_offset := 0, rq_id := aw_id (ax_aw axi)\<rparr> in
             if ucast (rq_len rq) > rq_max_burst_len rq \<or> ucast (rq_size rq) > rq_max_size rq
             then Inl AssertFail else Inr (rq, s))
           else axi_read_data vt (ax_ar axi) rq0 s) (\<lambda>(rq, s').
      if rq_is_mmio rq then Inr (rq, s')
      else if memory_size (fst s') = 0 then Inl Undefined
      else Inr (rq\<lparr>rq_dram_req := Some \<lparr>dr_address = rq_address rq mod memory_size (fst s'), dr_is_write = is_write\<rparr>\<rparr>, s')))"

section \<open>The rising edge\<close>

text \<open>One definition per block of \<open>clk_rising\<close>, in the order of the code.\<close>

definition rising_rdata :: "axi_channel \<Rightarrow> ('cb, 'd, 'ds, 'rsp) Axi4Crossbar \<Rightarrow> halt + ('cb, 'd, 'ds, 'rsp) Axi4Crossbar" where
  "rising_rdata axi xb =
     (if axi_check_rdata_fire axi then
        case wait_resp_r xb of
          None \<Rightarrow> Inl AssertFail
        | Some resp \<Rightarrow>
            bnd (deref (rs_req resp) xb) (\<lambda>rq.
            let rq' = rq\<lparr>rq_offset := rq_offset rq + 1\<rparr>; xb1 = store_req (rs_req resp) rq' xb in
            if rq_offset rq' = rq_len rq'
            then bnd (delete_req (rs_req resp) xb1) (\<lambda>xb2. Inr (xb2\<lparr>wait_resp_r := None, wait_req_r := None\<rparr>))
            else Inr xb1)
      else Inr xb)"

definition new_req ::
  "('cb, 'd) MMIOCallback \<Rightarrow> axi_channel \<Rightarrow> bool \<Rightarrow> ('cb, 'd, 'ds, 'rsp) Axi4Crossbar \<Rightarrow>
   halt + nat \<times> Axi4CrossbarRequest \<times> ('cb, 'd, 'ds, 'rsp) Axi4Crossbar" where
  "new_req vt axi is_write xb =
     bnd (axi_request vt axi is_write (xb_mem xb)) (\<lambda>(rq, s).
     Inr (xb_next xb, rq, xb\<lparr>xb_mem := s, xb_heap := (xb_heap xb)(xb_next xb \<mapsto> rq), xb_next := Suc (xb_next xb)\<rparr>))"

definition dram_add :: "('ds, 'rsp) CoDRAMsim3 \<Rightarrow> CoDRAMRequest option \<Rightarrow> ('cb, 'd, 'ds, 'rsp) Axi4Crossbar \<Rightarrow>
   halt + ('cb, 'd, 'ds, 'rsp) Axi4Crossbar" where
  "dram_add D dr xb = (case dr of None \<Rightarrow> Inl Undefined | Some r \<Rightarrow> Inr (xb\<lparr>xb_dramsim := ds_add_request D r (xb_dramsim xb)\<rparr>))"

definition rising_raddr ::
  "('cb, 'd) MMIOCallback \<Rightarrow> ('ds, 'rsp) CoDRAMsim3 \<Rightarrow> axi_channel \<Rightarrow> ('cb, 'd, 'ds, 'rsp) Axi4Crossbar \<Rightarrow>
   halt + ('cb, 'd, 'ds, 'rsp) Axi4Crossbar" where
  "rising_raddr vt D axi xb =
     (if axi_check_raddr_fire axi then
        bnd (new_req vt axi False xb) (\<lambda>(p, rq, xb1).
        let xb2 = xb1\<lparr>wait_req_r := Some p\<rparr> in
        if \<not> rq_is_mmio rq then dram_add D (rq_dram_req rq) xb2 else Inr xb2)
      else Inr xb)"

definition rising_wack :: "axi_channel \<Rightarrow> ('cb, 'd, 'ds, 'rsp) Axi4Crossbar \<Rightarrow> halt + ('cb, 'd, 'ds, 'rsp) Axi4Crossbar" where
  "rising_wack axi xb =
     (if axi_check_wack_fire axi then
        case wait_resp_b xb of
          None \<Rightarrow> Inl AssertFail
        | Some resp \<Rightarrow> bnd (delete_req (rs_req resp) xb) (\<lambda>xb1. Inr (xb1\<lparr>wait_resp_b := None, wait_req_w := None\<rparr>))
      else Inr xb)"

definition rising_waddr ::
  "('cb, 'd) MMIOCallback \<Rightarrow> axi_channel \<Rightarrow> ('cb, 'd, 'ds, 'rsp) Axi4Crossbar \<Rightarrow> halt + ('cb, 'd, 'ds, 'rsp) Axi4Crossbar" where
  "rising_waddr vt axi xb =
     bnd (axi_check_waddr_fire axi) (\<lambda>fire.
     if fire then
       if wait_req_w xb \<noteq> None then Inl AssertFail
       else bnd (new_req vt axi True xb) (\<lambda>(p, rq, xb1). Inr (xb1\<lparr>wait_req_w := Some p\<rparr>))
     else Inr xb)"

definition rising_wdata ::
  "('cb, 'd) MMIOCallback \<Rightarrow> axi_channel \<Rightarrow> ('cb, 'd, 'ds, 'rsp) Axi4Crossbar \<Rightarrow> halt + ('cb, 'd, 'ds, 'rsp) Axi4Crossbar" where
  "rising_wdata vt axi xb =
     (if axi_check_wdata_fire axi then
        case wait_req_w xb of
          None \<Rightarrow> Inl AssertFail
        | Some p \<Rightarrow>
            bnd (deref p xb) (\<lambda>rq.
            assertE (rq_size rq \<le> 8) (
            let waddr = rq_address rq + ucast (rq_offset rq) * ucast (rq_size rq) in
            bnd (pread vt waddr (rq_size rq) (xb_mem xb)) (\<lambda>(wdat, s1).
            bnd (axi_get_wdata axi (word_bytes wdat) 8) (\<lambda>bytes.
            bnd (check_wstrb waddr (w_strb (ax_w axi)) (rq_size rq)) (\<lambda>_.
            bnd (pwrite vt waddr (bytes_word bytes) (rq_size rq) s1) (\<lambda>s2.
            let rq' = rq\<lparr>rq_offset := rq_offset rq + 1\<rparr> in
            assertE (rq_offset rq' \<le> rq_len rq') (Inr (store_req p rq' (xb\<lparr>xb_mem := s2\<rparr>)))))))))
      else Inr xb)"

definition rising_last :: "('ds, 'rsp) CoDRAMsim3 \<Rightarrow> ('cb, 'd, 'ds, 'rsp) Axi4Crossbar \<Rightarrow> halt + ('cb, 'd, 'ds, 'rsp) Axi4Crossbar" where
  "rising_last D xb =
     (case wait_req_w xb of
        None \<Rightarrow> Inr xb
      | Some p \<Rightarrow>
          bnd (deref p xb) (\<lambda>rq.
          if \<not> rq_resp_inflight rq \<and> rq_offset rq = rq_len rq then
            if rq_is_mmio rq then Inr (store_req p (rq\<lparr>rq_resp_inflight := True\<rparr>) xb)
            else if ds_will_accept D (rq_address rq) True (xb_dramsim xb)
            then bnd (dram_add D (rq_dram_req rq) xb) (\<lambda>xb1. Inr (store_req p (rq\<lparr>rq_resp_inflight := True\<rparr>) xb1))
            else Inr xb
          else Inr xb))"

definition clk_rising ::
  "('cb, 'd) MMIOCallback \<Rightarrow> ('ds, 'rsp) CoDRAMsim3 \<Rightarrow> axi_channel \<Rightarrow> ('cb, 'd, 'ds, 'rsp) Axi4Crossbar \<Rightarrow>
   halt + ('cb, 'd, 'ds, 'rsp) Axi4Crossbar" where
  "clk_rising vt D axi xb =
     bnd (rising_rdata axi (xb\<lparr>xb_dramsim := ds_tick D (xb_dramsim xb)\<rparr>)) (\<lambda>xb1.
     bnd (rising_raddr vt D axi xb1) (\<lambda>xb2.
     bnd (rising_wack axi xb2) (\<lambda>xb3.
     bnd (rising_waddr vt axi xb3) (\<lambda>xb4.
     bnd (rising_wdata vt axi xb4) (rising_last D)))))"

section \<open>The falling edge\<close>

definition falling_default :: "axi_channel \<Rightarrow> axi_channel" where
  "falling_default axi =
     axi\<lparr>ax_aw := (ax_aw axi)\<lparr>aw_ready := 0\<rparr>, ax_w := (ax_w axi)\<lparr>w_ready := 0\<rparr>, ax_b := (ax_b axi)\<lparr>b_valid := 0\<rparr>,
       ax_ar := (ax_ar axi)\<lparr>ar_ready := 0\<rparr>, ax_r := (ax_r axi)\<lparr>r_valid := 0\<rparr>\<rparr>"

definition falling_rdata ::
  "('ds, 'rsp) CoDRAMsim3 \<Rightarrow> axi_channel \<times> ('cb, 'd, 'ds, 'rsp) Axi4Crossbar \<Rightarrow>
   halt + axi_channel \<times> ('cb, 'd, 'ds, 'rsp) Axi4Crossbar" where
  "falling_rdata D = (\<lambda>(axi, xb).
     bnd (case (wait_resp_r xb, wait_req_r xb) of
            (None, Some p) \<Rightarrow>
              bnd (deref p xb) (\<lambda>rq.
              if rq_is_mmio rq then Inr (xb\<lparr>wait_resp_r := Some \<lparr>rs_req = p, rs_dram_resp = None\<rparr>\<rparr>)
              else case ds_check_read_response D (xb_dramsim xb) of
                (None, ds) \<Rightarrow> Inr (xb\<lparr>xb_dramsim := ds\<rparr>)
              | (Some r, ds) \<Rightarrow> Inr (xb\<lparr>xb_dramsim := ds, wait_resp_r := Some \<lparr>rs_req = p, rs_dram_resp = Some r\<rparr>\<rparr>))
          | _ \<Rightarrow> Inr xb) (\<lambda>xb1.
     case wait_resp_r xb1 of
       None \<Rightarrow> Inr (axi, xb1)
     | Some resp \<Rightarrow>
         bnd (deref (rs_req resp) xb1) (\<lambda>rq.
         bnd (nthE (rq_data rq) (unat (rq_offset rq))) (\<lambda>v.
         Inr (axi_put_rdata v (uint (rq_offset rq) = uint (rq_len rq) - 1) (rq_id rq) axi, xb1)))))"

definition falling_raddr ::
  "('ds, 'rsp) CoDRAMsim3 \<Rightarrow> axi_channel \<times> ('cb, 'd, 'ds, 'rsp) Axi4Crossbar \<Rightarrow> axi_channel \<times> ('cb, 'd, 'ds, 'rsp) Axi4Crossbar" where
  "falling_raddr D = (\<lambda>(axi, xb).
     case axi_get_raddr axi of
       Some raddr \<Rightarrow>
         if wait_req_r xb = None \<and>
            (is_mmio (fst (xb_mem xb)) (ar_addr (ax_ar axi)) \<or> ds_will_accept D raddr False (xb_dramsim xb))
         then (axi_accept_raddr axi, xb) else (axi, xb)
     | None \<Rightarrow> (axi, xb))"

definition falling_waddr ::
  "('ds, 'rsp) CoDRAMsim3 \<Rightarrow> axi_channel \<times> ('cb, 'd, 'ds, 'rsp) Axi4Crossbar \<Rightarrow> axi_channel \<times> ('cb, 'd, 'ds, 'rsp) Axi4Crossbar" where
  "falling_waddr D = (\<lambda>(axi, xb).
     case axi_get_waddr axi of
       Some waddr \<Rightarrow>
         if wait_req_w xb = None \<and>
            (is_mmio (fst (xb_mem xb)) (aw_addr (ax_aw axi)) \<or> ds_will_accept D waddr True (xb_dramsim xb))
         then (axi_accept_wdata (axi_accept_waddr axi), xb) else (axi, xb)
     | None \<Rightarrow> (axi, xb))"

definition falling_wdata ::
  "('ds, 'rsp) CoDRAMsim3 \<Rightarrow> axi_channel \<times> ('cb, 'd, 'ds, 'rsp) Axi4Crossbar \<Rightarrow>
   halt + axi_channel \<times> ('cb, 'd, 'ds, 'rsp) Axi4Crossbar" where
  "falling_wdata D = (\<lambda>(axi, xb).
     case wait_req_w xb of
       None \<Rightarrow> Inr (axi, xb)
     | Some p \<Rightarrow>
         bnd (deref p xb) (\<lambda>rq.
         if (rq_is_mmio rq \<or> ds_will_accept D (rq_address rq) True (xb_dramsim xb)) \<and> rq_offset rq \<noteq> rq_len rq
         then Inr (axi_accept_wdata axi, xb) else Inr (axi, xb)))"

definition falling_wresp ::
  "('ds, 'rsp) CoDRAMsim3 \<Rightarrow> axi_channel \<times> ('cb, 'd, 'ds, 'rsp) Axi4Crossbar \<Rightarrow>
   halt + axi_channel \<times> ('cb, 'd, 'ds, 'rsp) Axi4Crossbar" where
  "falling_wresp D = (\<lambda>(axi, xb).
     bnd (case (wait_resp_b xb, wait_req_w xb) of
            (None, Some p) \<Rightarrow>
              bnd (deref p xb) (\<lambda>rq.
              if rq_is_mmio rq then Inr (xb\<lparr>wait_resp_b := Some \<lparr>rs_req = p, rs_dram_resp = None\<rparr>\<rparr>)
              else case ds_check_write_response D (xb_dramsim xb) of
                (None, ds) \<Rightarrow> Inr (xb\<lparr>xb_dramsim := ds\<rparr>)
              | (Some r, ds) \<Rightarrow> Inr (xb\<lparr>xb_dramsim := ds, wait_resp_b := Some \<lparr>rs_req = p, rs_dram_resp = Some r\<rparr>\<rparr>))
          | _ \<Rightarrow> Inr xb) (\<lambda>xb1.
     case wait_resp_b xb1 of
       None \<Rightarrow> Inr (axi, xb1)
     | Some resp \<Rightarrow> bnd (deref (rs_req resp) xb1) (\<lambda>rq. Inr (axi_put_wack (rq_id rq) axi, xb1))))"

definition clk_falling ::
  "('ds, 'rsp) CoDRAMsim3 \<Rightarrow> axi_channel \<Rightarrow> ('cb, 'd, 'ds, 'rsp) Axi4Crossbar \<Rightarrow>
   halt + axi_channel \<times> ('cb, 'd, 'ds, 'rsp) Axi4Crossbar" where
  "clk_falling D axi xb =
     bnd (falling_rdata D (falling_default axi, xb)) (\<lambda>s1.
     bnd (falling_wdata D (falling_waddr D (falling_raddr D s1))) (falling_wresp D))"

end
