(* ===== verification/Emu.thy ===== *)
theory Emu
  imports Difftest DeviceTree Axi4Crossbar
begin

text \<open>
  The driver of the simulated design, \<open>em/csrc/emu.cc\<close>: reset, one clock with the memory port served between the edges, the wave file. The design, class \<open>Vsimtop\<close>, is generated
  from the hardware description. It is the record of functions \<open>Vsimtop\<close> over a state \<open>'v\<close>: its ports, and
  its evaluation, which yields the calls it makes into \<open>dpi-c.cc\<close>, each with the state of the design at that moment. All of those functions return nothing,
  so what an evaluation calls depends on the design only. The design can also finish the simulation (\<open>$finish\<close>).

  A running harness is the pair of the driver and the file-scope variables of \<open>dpi-c.cc\<close>. The main results are that in differential
  testing the registers of design and interpreter agree at the end of every clock that returns, whatever the design is, and that a
  design that hangs is stopped.
\<close>

section \<open>The design\<close>

datatype dpi_call =
    Dpi_sync_irqc u32
  | Dpi_commit_inst u32 u8 u32 u32 u8 u8 u32 u8 u32
  | Dpi_step

record 'v Vsimtop =
  v_set_clock :: "u8 \<Rightarrow> 'v \<Rightarrow> 'v"
  v_set_reset :: "u8 \<Rightarrow> 'v \<Rightarrow> 'v"
  v_eval :: "'v \<Rightarrow> (dpi_call \<times> 'v) list \<times> 'v"
  v_ports :: "'v \<Rightarrow> dut_axi"
  v_set_ports :: "dut_axi \<Rightarrow> 'v \<Rightarrow> 'v"
  v_gotFinish :: "'v \<Rightarrow> bool"

section \<open>State\<close>

text \<open>\<open>trace_fp\<close> is the list of the cycles written to the wave file, when there is one. The build has \<open>VM_TRACE\<close> set.\<close>

record ('v, 'ds, 'rsp) Emu =
  dut_ptr :: 'v
  vcdfile :: string
  wave_begin :: u64
  wave_end :: u64
  num_inst_commit :: u64
  emu_cycles :: u64
  axi_crossbar :: "(dev_cb, dev_world, 'ds, 'rsp) Axi4Crossbar"
  trace_fp :: "u64 list option"

type_synonym ('v, 'ds, 'rsp) harness = "('v, 'ds, 'rsp) Emu \<times> (dev_cb, DeviceTree) difftest"

type_synonym ('v, 'ds, 'rsp) dpi_handler = "dpi_call \<Rightarrow> ('v, 'ds, 'rsp) harness \<Rightarrow> halt + (dev_cb, DeviceTree) difftest"

definition get_cycle :: "('v, 'ds, 'rsp) Emu \<Rightarrow> u64" where
  "get_cycle E = emu_cycles E"

definition on_dut :: "('v \<Rightarrow> 'v) \<Rightarrow> ('v, 'ds, 'rsp) harness \<Rightarrow> ('v, 'ds, 'rsp) harness" where
  "on_dut f = (\<lambda>(E, df). (E\<lparr>dut_ptr := f (dut_ptr E)\<rparr>, df))"

text \<open>
  The devices of the interpreter and those of the crossbar share the file-scope variables of \<open>virt-uart.cc\<close>: an operation of the
  crossbar starts with those of the interpreter's tree and hands them back.
\<close>

definition xb_virt :: "(dev_cb, dev_world, 'ds, 'rsp) Axi4Crossbar \<Rightarrow> virt_uart" where
  "xb_virt xb = dt_virt (snd (snd (xb_mem xb)))"

definition xb_set_virt :: "virt_uart \<Rightarrow> (dev_cb, dev_world, 'ds, 'rsp) Axi4Crossbar \<Rightarrow> (dev_cb, dev_world, 'ds, 'rsp) Axi4Crossbar" where
  "xb_set_virt v xb = (case xb_mem xb of (M, m, dt) \<Rightarrow> xb\<lparr>xb_mem := (M, m, dt\<lparr>dt_virt := v\<rparr>)\<rparr>)"

definition df_set_virt :: "virt_uart \<Rightarrow> (dev_cb, DeviceTree) difftest \<Rightarrow> (dev_cb, DeviceTree) difftest" where
  "df_set_virt v df = (let cpu = dpic_emu_CPU df in df\<lparr>dpic_emu_CPU := cpu\<lparr>cpu_dev := (cpu_dev cpu)\<lparr>dt_virt := v\<rparr>\<rparr>\<rparr>)"

definition on_xbar ::
  "((dev_cb, dev_world, 'ds, 'rsp) Axi4Crossbar \<Rightarrow> halt + 'x \<times> (dev_cb, dev_world, 'ds, 'rsp) Axi4Crossbar) \<Rightarrow>
   ('v, 'ds, 'rsp) harness \<Rightarrow> halt + 'x \<times> ('v, 'ds, 'rsp) harness" where
  "on_xbar f = (\<lambda>(E, df).
     bnd (f (xb_set_virt (dt_virt (cpu_dev (dpic_emu_CPU df))) (axi_crossbar E))) (\<lambda>(x, xb).
     Inr (x, E\<lparr>axi_crossbar := xb\<rparr>, df_set_virt (xb_virt xb) df)))"

section \<open>Evaluation\<close>

fun run_dpi ::
  "('v, 'ds, 'rsp) dpi_handler \<Rightarrow> (dpi_call \<times> 'v) list \<Rightarrow> ('v, 'ds, 'rsp) harness \<Rightarrow> halt + ('v, 'ds, 'rsp) harness" where
  "run_dpi h [] s = Inr s"
| "run_dpi h ((c, v) # cs) (E, df) = bnd (h c (E\<lparr>dut_ptr := v\<rparr>, df)) (\<lambda>df'. run_dpi h cs (E, df'))"

definition emu_eval ::
  "'v Vsimtop \<Rightarrow> ('v, 'ds, 'rsp) dpi_handler \<Rightarrow> ('v, 'ds, 'rsp) harness \<Rightarrow> halt + ('v, 'ds, 'rsp) harness" where
  "emu_eval V h s =
     (case v_eval V (dut_ptr (fst s)) of (calls, v') \<Rightarrow>
      bnd (run_dpi h calls s) (\<lambda>s'. Inr (on_dut (\<lambda>_. v') s')))"

section \<open>Construction, reset and clock\<close>

fun reset_clks ::
  "'v Vsimtop \<Rightarrow> ('v, 'ds, 'rsp) dpi_handler \<Rightarrow> nat \<Rightarrow> ('v, 'ds, 'rsp) harness \<Rightarrow> halt + ('v, 'ds, 'rsp) harness" where
  "reset_clks V h 0 s = Inr s"
| "reset_clks V h (Suc n) s =
     bnd (emu_eval V h (on_dut (v_set_clock V 0) s)) (\<lambda>s1.
     bnd (emu_eval V h (on_dut (v_set_clock V 1) s1)) (reset_clks V h n))"

definition emu_reset ::
  "'v Vsimtop \<Rightarrow> ('v, 'ds, 'rsp) dpi_handler \<Rightarrow> int \<Rightarrow> ('v, 'ds, 'rsp) harness \<Rightarrow> halt + ('v, 'ds, 'rsp) harness" where
  "emu_reset V h cycles s =
     bnd (reset_clks V h (nat cycles) (on_dut (v_set_reset V 1) s)) (\<lambda>s'. Inr (on_dut (v_set_reset V 0) s'))"

text \<open>\<open>v0\<close> and \<open>ds\<close> are the new design and the new DRAM simulator.\<close>

definition Emu_new ::
  "'v Vsimtop \<Rightarrow> ('v, 'ds, 'rsp) dpi_handler \<Rightarrow> 'v \<Rightarrow> 'ds \<Rightarrow> string \<Rightarrow> u64 \<Rightarrow> u64 \<Rightarrow> (dev_cb, dev_world) bus \<Rightarrow>
   (dev_cb, DeviceTree) difftest \<Rightarrow> halt + ('v, 'ds, 'rsp) harness" where
  "Emu_new V h v0 ds vcdfile' wave_start wave_end' mem df =
     bnd (emu_reset V h 10 (\<lparr>dut_ptr = v0, vcdfile = vcdfile', wave_begin = wave_start, wave_end = wave_end', num_inst_commit = 0,
       emu_cycles = 0, axi_crossbar = Axi4Crossbar_new mem ds, trace_fp = None\<rparr>, df)) (\<lambda>(E, df').
     Inr (E\<lparr>trace_fp := if vcdfile E = [] then None else Some []\<rparr>, df'))"

definition trace_dump :: "('v, 'ds, 'rsp) Emu \<Rightarrow> ('v, 'ds, 'rsp) Emu" where
  "trace_dump E =
     (case trace_fp E of
        None \<Rightarrow> E
      | Some dumps \<Rightarrow>
          if wave_begin E \<le> emu_cycles E \<and> emu_cycles E \<le> wave_end E then E\<lparr>trace_fp := Some (dumps @ [emu_cycles E])\<rparr> else E)"

text \<open>\<open>axi\<close> is a local variable without initialiser: \<open>raw\<close> is what it holds before the ports are copied.\<close>

definition emu_clk ::
  "'v Vsimtop \<Rightarrow> ('ds, 'rsp) CoDRAMsim3 \<Rightarrow> axi_channel \<Rightarrow> ('v, 'ds, 'rsp) dpi_handler \<Rightarrow>
   ('v, 'ds, 'rsp) harness \<Rightarrow> halt + bool \<times> ('v, 'ds, 'rsp) harness" where
  "emu_clk V D raw h s =
     (if v_gotFinish V (dut_ptr (fst s)) then Inr (True, s)
      else
        bnd (emu_eval V h (on_dut (v_set_clock V 0) s)) (\<lambda>s1.
        let axi = axi_copy_from_dut_ptr (v_ports V (dut_ptr (fst s1))) raw in
        bnd (on_xbar (\<lambda>xb. bnd (clk_rising dev_vt D axi xb) (\<lambda>xb'. Inr ((), xb'))) s1) (\<lambda>(_, s2).
        bnd (emu_eval V h (on_dut (v_set_clock V 1) s2)) (\<lambda>s3.
        bnd (on_xbar (clk_falling D (axi_copy_from_dut_ptr (v_ports V (dut_ptr (fst s3))) axi)) s3) (\<lambda>(axi', s4).
        bnd (emu_eval V h (on_dut (\<lambda>v. v_set_ports V (axi_set_dut_ptr axi' (v_ports V v)) v) s4)) (\<lambda>(E, df).
        let E1 = trace_dump E in Inr (False, E1\<lparr>emu_cycles := emu_cycles E1 + 1\<rparr>, df)))))))"

section \<open>The calls of the design\<close>

text \<open>
  While the process is being ended \<open>dpic_enable\<close> is false: \<open>dpic_commit_inst\<close> and \<open>dpic_step\<close> return at once.
\<close>

fun dpi_off :: "('v, 'ds, 'rsp) dpi_handler" where
  "dpi_off (Dpi_sync_irqc irqc_irr) (E, df) = Inr (dpic_sync_irqc irqc_irr df)"
| "dpi_off (Dpi_commit_inst cmt_index valid pc insn wen wnum wdata excp excp_vect) (E, df) = Inr df"
| "dpi_off Dpi_step (E, df) = Inr df"

fun dpi_on :: "'v Vsimtop \<Rightarrow> ('ds, 'rsp) CoDRAMsim3 \<Rightarrow> axi_channel \<Rightarrow> ('v, 'ds, 'rsp) dpi_handler" where
  "dpi_on V D raw (Dpi_sync_irqc irqc_irr) (E, df) = Inr (dpic_sync_irqc irqc_irr df)"
| "dpi_on V D raw (Dpi_commit_inst cmt_index valid pc insn wen wnum wdata excp excp_vect) (E, df) =
     dpic_commit_inst cmt_index valid pc insn wen wnum wdata excp excp_vect df"
| "dpi_on V D raw Dpi_step (E, df) = dpic_step dev_vt (emu_clk V D raw dpi_off) (E, df) (get_cycle E) df"

lemma dpi_off_on: "\<not> dpic_enable df \<Longrightarrow> dpi_on V D raw c (E, df) = dpi_off c (E, df)"
  by (cases c) (simp_all add: dpic_commit_inst_def dpic_step_def)

section \<open>Invariants of the clock\<close>

text \<open>
  What a clock keeps of the design and of \<open>dpi-c.cc\<close>: a relation that the ports and the shared serial port do not touch and that every evaluation, with the
  calls it makes, keeps.
\<close>

lemma emu_clk_steps:
  assumes "\<not> v_gotFinish V (dut_ptr (fst s))" "emu_clk V D raw h s = Inr (fin, s')"
  obtains s1 u s2 s3 axi s4 E df where
    "emu_eval V h (on_dut (v_set_clock V 0) s) = Inr s1"
    "on_xbar (\<lambda>xb. bnd (clk_rising dev_vt D (axi_copy_from_dut_ptr (v_ports V (dut_ptr (fst s1))) raw) xb) (\<lambda>xb'. Inr ((), xb'))) s1 = Inr (u, s2)"
    "emu_eval V h (on_dut (v_set_clock V 1) s2) = Inr s3"
    "on_xbar (clk_falling D (axi_copy_from_dut_ptr (v_ports V (dut_ptr (fst s3)))
        (axi_copy_from_dut_ptr (v_ports V (dut_ptr (fst s1))) raw))) s3 = Inr (axi, s4)"
    "emu_eval V h (on_dut (\<lambda>v. v_set_ports V (axi_set_dut_ptr axi (v_ports V v)) v) s4) = Inr (E, df)"
    "s' = ((trace_dump E)\<lparr>emu_cycles := emu_cycles (trace_dump E) + 1\<rparr>, df)"
proof -
  let ?a = "\<lambda>s. axi_copy_from_dut_ptr (v_ports V (dut_ptr (fst s)))"
  obtain s1 x2 s3 x4 x5 where
    "emu_eval V h (on_dut (v_set_clock V 0) s) = Inr s1"
    "on_xbar (\<lambda>xb. bnd (clk_rising dev_vt D (?a s1 raw) xb) (\<lambda>xb'. Inr ((), xb'))) s1 = Inr x2"
    "emu_eval V h (on_dut (v_set_clock V 1) (snd x2)) = Inr s3"
    "on_xbar (clk_falling D (?a s3 (?a s1 raw))) s3 = Inr x4"
    "emu_eval V h (on_dut (\<lambda>v. v_set_ports V (axi_set_dut_ptr (fst x4) (v_ports V v)) v) (snd x4)) = Inr x5"
    "Inr (False, (trace_dump (fst x5))\<lparr>emu_cycles := emu_cycles (trace_dump (fst x5)) + 1\<rparr>, snd x5) = (Inr (fin, s') :: halt + _)"
    using assms(2) [unfolded emu_clk_def if_not_P [OF assms(1)] Let_def bnd_eq_Inr split_beta] by (elim exE conjE) assumption
  then show thesis by (intro that [of s1 "fst x2" "snd x2" s3 "fst x4" "snd x4" "fst x5" "snd x5"]) (simp_all add: prod_eq_iff)
qed

locale clocked_invariant =
  fixes V :: "'v Vsimtop"
    and h :: "('v, 'ds, 'rsp) dpi_handler"
    and P :: "'v \<Rightarrow> (dev_cb, DeviceTree) difftest \<Rightarrow> bool"
  assumes clock: "P v df \<Longrightarrow> P (v_set_clock V b v) df"
    and reset: "P v df \<Longrightarrow> P (v_set_reset V b v) df"
    and ports: "P v df \<Longrightarrow> P (v_set_ports V p v) df"
    and virt: "P v df \<Longrightarrow> P v (df_set_virt u df)"
    and eval: "P (dut_ptr E) df \<Longrightarrow> v_eval V (dut_ptr E) = (calls, v') \<Longrightarrow> run_dpi h calls (E, df) = Inr (E', df') \<Longrightarrow> P v' df'"
begin

definition holds :: "('v, 'ds, 'rsp) harness \<Rightarrow> bool" where
  "holds s \<longleftrightarrow> P (dut_ptr (fst s)) (snd s)"

lemma eval_holds: "holds s \<Longrightarrow> emu_eval V h s = Inr s' \<Longrightarrow> holds s'"
  using eval by (cases s; cases s') (auto simp: emu_eval_def on_dut_def holds_def split: prod.splits)

lemma on_dut_holds:
  "holds s \<Longrightarrow> holds (on_dut (v_set_clock V b) s)" "holds s \<Longrightarrow> holds (on_dut (v_set_reset V b) s)"
  "holds s \<Longrightarrow> holds (on_dut (\<lambda>v. v_set_ports V (p v) v) s)"
  by (auto simp: on_dut_def holds_def clock reset ports split: prod.splits)

lemma on_xbar_holds: "holds s \<Longrightarrow> on_xbar f s = Inr (x, s') \<Longrightarrow> holds s'"
  by (auto simp: on_xbar_def holds_def virt split: prod.splits)

lemma trace_dump_dut [simp]: "dut_ptr (trace_dump E) = dut_ptr E"
  by (simp add: trace_dump_def split: option.splits)

lemma clk_holds:
  assumes "holds s" "emu_clk V D raw h s = Inr (fin, s')"
  shows "holds s'"
proof (cases "v_gotFinish V (dut_ptr (fst s))")
  case False
  from False assms(2) obtain s1 u s2 s3 axi s4 E df where
    s: "emu_eval V h (on_dut (v_set_clock V 0) s) = Inr s1"
      "on_xbar (\<lambda>xb. bnd (clk_rising dev_vt D (axi_copy_from_dut_ptr (v_ports V (dut_ptr (fst s1))) raw) xb) (\<lambda>xb'. Inr ((), xb'))) s1 = Inr (u, s2)"
      "emu_eval V h (on_dut (v_set_clock V 1) s2) = Inr s3"
      "on_xbar (clk_falling D (axi_copy_from_dut_ptr (v_ports V (dut_ptr (fst s3)))
          (axi_copy_from_dut_ptr (v_ports V (dut_ptr (fst s1))) raw))) s3 = Inr (axi, s4)"
      "emu_eval V h (on_dut (\<lambda>v. v_set_ports V (axi_set_dut_ptr axi (v_ports V v)) v) s4) = Inr (E, df)"
      "s' = ((trace_dump E)\<lparr>emu_cycles := emu_cycles (trace_dump E) + 1\<rparr>, df)"
    by (rule emu_clk_steps)
  have "holds s1" by (rule eval_holds [OF on_dut_holds(1) [OF assms(1)] s(1)])
  then have "holds s2" by (rule on_xbar_holds [OF _ s(2)])
  then have "holds s3" by (rule eval_holds [OF on_dut_holds(1) s(3)])
  then have "holds s4" by (rule on_xbar_holds [OF _ s(4)])
  then have "holds (E, df)" by (rule eval_holds [OF on_dut_holds(3) s(5)])
  then show ?thesis by (simp add: holds_def s(6))
qed (use assms in \<open>simp add: emu_clk_def\<close>)

lemma reset_clks_holds: "holds s \<Longrightarrow> reset_clks V h n s = Inr s' \<Longrightarrow> holds s'"
proof (induction n arbitrary: s)
  case (Suc n)
  from Suc.prems(2) obtain s1 s2 where "emu_eval V h (on_dut (v_set_clock V 0) s) = Inr s1"
    "emu_eval V h (on_dut (v_set_clock V 1) s1) = Inr s2" "reset_clks V h n s2 = Inr s'" by auto
  then show ?case using Suc.IH [of s2] eval_holds [OF on_dut_holds(1)] Suc.prems(1) by metis
qed simp

lemma reset_holds: "holds s \<Longrightarrow> emu_reset V h c s = Inr s' \<Longrightarrow> holds s'"
  unfolding emu_reset_def bnd_eq_Inr using reset_clks_holds on_dut_holds(2) by blast

end

text \<open>An invariant of \<open>dpi-c.cc\<close> alone is kept whatever the design is.\<close>

lemma run_dpi_keeps:
  assumes "\<And>c E df df'. P df \<Longrightarrow> h c (E, df) = Inr df' \<Longrightarrow> P df'" "P df" "run_dpi h calls (E, df) = Inr (E', df')"
  shows "P df'"
  using assms(2,3)
proof (induction calls arbitrary: df)
  case (Cons c calls)
  then show ?case using assms(1) by (cases c) (auto; blast)
qed simp

section \<open>Registers agree\<close>

definition regs_agree :: "(dev_cb, DeviceTree) difftest \<Rightarrow> bool" where
  "regs_agree df \<longleftrightarrow> length (rtl_regfile df) = 32 \<and> (\<forall>i < 32. get_reg (of_nat i) (dpic_emu_CPU df) = Inr (rtl_regfile df ! i))"

lemma regs_agree_frame:
  "regs_agree df \<Longrightarrow> rtl_regfile df' = rtl_regfile df \<Longrightarrow> regfile (dpic_emu_CPU df') = regfile (dpic_emu_CPU df) \<Longrightarrow> regs_agree df'"
  unfolding regs_agree_def using get_reg_frame by metis

lemma dpic_step_agree:
  assumes "regs_agree df" "dpic_step vt clk e cycle df = Inr df'"
  shows "regs_agree df'"
proof (cases "dpic_enable df \<and> num_valid df \<noteq> 0 \<and> cycle - rtl_last_commit_cycle df \<le> rtl_commit_timeout_max df")
  case True
  let ?st = "df\<lparr>rtl_num_commit := rtl_num_commit df + of_nat (num_valid df), rtl_last_commit_cycle := cycle\<rparr>"
  have len: "length (rtl_regfile df) = 32" using assms(1) by (simp add: regs_agree_def)
  with True assms(2) obtain st1 where
    l: "lock_step vt 0 ?st st1" "lock_step vt 1 st1 df'" "\<forall>i < 32. get_reg (of_nat i) (dpic_emu_CPU df') = Inr (rtl_regfile df' ! i)"
    using dpic_step_lock_step [of df cycle vt clk e df'] by blast
  have "length (rtl_regfile df') = 32"
    using lock_step_report [OF l(1)] lock_step_report [OF l(2)] len by (simp add: same_report_def)
  then show ?thesis using l(3) by (simp add: regs_agree_def)
next
  case False
  have "df' = df \<or> df' = df\<lparr>rtl_num_commit := rtl_num_commit df + of_nat (num_valid df)\<rparr>"
    using False assms(2) by (auto simp: dpic_step_def Let_def not_le split: if_splits)
  then show ?thesis using assms(1) by (auto intro: regs_agree_frame)
qed

lemma dpi_on_agree: "regs_agree df \<Longrightarrow> dpi_on V D raw c (E, df) = Inr df' \<Longrightarrow> regs_agree df'"
  by (cases c) (auto simp: dpic_sync_irqc_def dpic_commit_inst_def Let_def dpic_step_agree intro: regs_agree_frame split: if_splits)

interpretation agree: clocked_invariant V "dpi_on V D raw" "\<lambda>v. regs_agree" for V :: "'v Vsimtop" and D :: "('ds, 'rsp) CoDRAMsim3" and raw
proof unfold_locales
  show "regs_agree df \<Longrightarrow> regs_agree (df_set_virt u df)" for df u
    by (erule regs_agree_frame) (simp_all add: df_set_virt_def Let_def)
  show "regs_agree df \<Longrightarrow> run_dpi (dpi_on V D raw) calls (E, df) = Inr (E', df') \<Longrightarrow> regs_agree df'" for df calls E E' df'
    by (rule run_dpi_keeps [where P = regs_agree, OF dpi_on_agree])
qed

section \<open>A design that hangs\<close>

text \<open>
  The module \<open>difftest_commit_inst\<close> of the design reports both channels and calls \<open>dpic_step\<close> at every rising edge. A set \<open>hung\<close> of states of the design is one it does not
  leave and in which it reports no instruction.
\<close>

definition idle_call :: "dpi_call \<Rightarrow> bool" where
  "idle_call c \<longleftrightarrow> (case c of Dpi_commit_inst cmt_index valid pc insn wen wnum wdata excp excp_vect \<Rightarrow> valid = 0 | _ \<Rightarrow> True)"

definition hangs :: "'v Vsimtop \<Rightarrow> ('v \<Rightarrow> bool) \<Rightarrow> bool" where
  "hangs V hung \<longleftrightarrow> (\<forall>v. hung v \<longrightarrow>
     (\<forall>b. hung (v_set_clock V b v)) \<and> (\<forall>b. hung (v_set_reset V b v)) \<and> (\<forall>p. hung (v_set_ports V p v)) \<and> hung (snd (v_eval V v)) \<and>
     (\<forall>c \<in> set (fst (v_eval V v)). idle_call (fst c)) \<and>
     Dpi_step \<in> fst ` set (fst (v_eval V (v_set_clock V 1 (snd (v_eval V (v_set_clock V 0 v)))))))"

text \<open>Differential testing is on, no report is pending, the last commit was at \<open>L\<close> and the timeout is \<open>T\<close>.\<close>

definition waiting :: "u64 \<Rightarrow> u64 \<Rightarrow> (dev_cb, DeviceTree) difftest \<Rightarrow> bool" where
  "waiting L T df \<longleftrightarrow> dpic_enable df \<and> rtl_valid df = replicate 2 0 \<and> rtl_last_commit_cycle df = L \<and> rtl_commit_timeout_max df = T"

lemma waiting_num_valid: "waiting L T df \<Longrightarrow> num_valid df = 0"
  by (simp add: waiting_def num_valid_def upt_rec)

lemma dpic_step_waiting:
  assumes "waiting L T df" "dpic_step vt clk e cycle df = Inr df'"
  shows "waiting L T df' \<and> cycle - L \<le> T"
proof -
  have "dpic_enable df" "rtl_last_commit_cycle df = L" "rtl_commit_timeout_max df = T" using assms(1) by (simp_all add: waiting_def)
  then have "df' = df\<lparr>rtl_num_commit := rtl_num_commit df\<rparr> \<and> cycle - L \<le> T"
    using assms(2) waiting_num_valid [OF assms(1)] by (auto simp: dpic_step_def Let_def not_less split: if_splits)
  then show ?thesis using assms(1) by (simp add: waiting_def)
qed

lemma idle_commit: "(replicate n x)[i := x] = replicate n x"
  by (induction n arbitrary: i) (auto split: nat.split)

lemma dpi_on_waiting:
  assumes "waiting L T df" "idle_call c" "dpi_on V D raw c (E, df) = Inr df'"
  shows "waiting L T df' \<and> (c = Dpi_step \<longrightarrow> get_cycle E - L \<le> T)"
proof (cases "c = Dpi_step")
  case True
  then show ?thesis using assms(3) dpic_step_waiting [OF assms(1), of dev_vt "emu_clk V D raw dpi_off" "(E, df)" "get_cycle E" df'] by simp
next
  case False
  then show ?thesis
    using assms by (cases c) (auto simp: waiting_def idle_call_def dpic_sync_irqc_def dpic_commit_inst_def Let_def idle_commit)
qed

lemma run_dpi_waiting:
  assumes "waiting L T df" "\<forall>c \<in> set calls. idle_call (fst c)" "run_dpi (dpi_on V D raw) calls (E, df) = Inr (E', df')"
  shows "waiting L T df' \<and> E' = E \<and> (Dpi_step \<in> fst ` set calls \<longrightarrow> get_cycle E - L \<le> T)"
  using assms
proof (induction calls arbitrary: df)
  case (Cons c calls)
  obtain k v where c: "c = (k, v)" by (rule prod.exhaust)
  from Cons.prems(3) obtain df1 where s: "dpi_on V D raw k (E\<lparr>dut_ptr := v\<rparr>, df) = Inr df1" "run_dpi (dpi_on V D raw) calls (E, df1) = Inr (E', df')"
    by (auto simp: c)
  then show ?case
    using dpi_on_waiting [OF Cons.prems(1) _ s(1)] Cons.IH [OF _ _ s(2)] Cons.prems(2) by (auto simp: c get_cycle_def)
qed auto

lemma hung_invariant:
  fixes V :: "'v Vsimtop" and D :: "('ds, 'rsp) CoDRAMsim3"
  assumes "hangs V hung"
  shows "clocked_invariant V (dpi_on V D raw) (\<lambda>v df. hung v \<and> waiting L T df)"
proof unfold_locales
  fix E E' :: "('v, 'ds, 'rsp) Emu" and df calls v' df'
  assume "hung (dut_ptr E) \<and> waiting L T df" "v_eval V (dut_ptr E) = (calls, v')" "run_dpi (dpi_on V D raw) calls (E, df) = Inr (E', df')"
  with assms show "hung v' \<and> waiting L T df'"
    using run_dpi_waiting [of L T df calls V D raw E E' df'] unfolding hangs_def by fastforce
qed (use assms in \<open>auto simp: hangs_def waiting_def df_set_virt_def Let_def\<close>)

lemma emu_eval_cycles: "emu_eval V (dpi_on V D raw) s = Inr s' \<Longrightarrow> emu_cycles (fst s') = emu_cycles (fst s)"
proof -
  have "emu_cycles E' = emu_cycles E" if "run_dpi (dpi_on V D raw) calls (E, df) = Inr (E', df')" for calls E E' df df'
    using that by (induction calls arbitrary: df) auto
  then show "emu_eval V (dpi_on V D raw) s = Inr s' \<Longrightarrow> emu_cycles (fst s') = emu_cycles (fst s)"
    by (cases s; cases s') (auto simp: emu_eval_def on_dut_def split: prod.splits)
qed

lemma on_xbar_cycles: "on_xbar f s = Inr (x, s') \<Longrightarrow> emu_cycles (fst s') = emu_cycles (fst s) \<and> dut_ptr (fst s') = dut_ptr (fst s)"
  by (auto simp: on_xbar_def split: prod.splits)

lemma on_dut_cycles [simp]: "emu_cycles (fst (on_dut f s)) = emu_cycles (fst s)" "dut_ptr (fst (on_dut f s)) = f (dut_ptr (fst s))"
  "snd (on_dut f s) = snd s"
  by (simp_all add: on_dut_def split: prod.splits)

lemma emu_eval_dut: "emu_eval V h s = Inr s' \<Longrightarrow> dut_ptr (fst s') = snd (v_eval V (dut_ptr (fst s)))"
  by (auto simp: emu_eval_def on_dut_def split: prod.splits)

lemma emu_eval_tick:
  assumes "hangs V hung" "hung (dut_ptr (fst s))" "waiting L T (snd s)" "emu_eval V (dpi_on V D raw) s = Inr s'"
    "Dpi_step \<in> fst ` set (fst (v_eval V (dut_ptr (fst s))))"
  shows "emu_cycles (fst s) - L \<le> T"
proof -
  obtain E df where s: "s = (E, df)" by (rule prod.exhaust)
  obtain calls v' where e: "v_eval V (dut_ptr E) = (calls, v')" by (rule prod.exhaust)
  from assms(1,2) have "\<forall>c \<in> set calls. idle_call (fst c)" using e by (auto simp: hangs_def s dest!: spec [of _ "dut_ptr E"])
  moreover obtain E' df' where "run_dpi (dpi_on V D raw) calls (E, df) = Inr (E', df')" using assms(4) e by (auto simp: emu_eval_def s)
  ultimately show ?thesis using run_dpi_waiting [of L T df calls V D raw E E' df'] assms(3,5) e by (simp add: s get_cycle_def)
qed

text \<open>A clock of a hung design that returns is one of the clocks that the timeout allows.\<close>

lemma emu_clk_hung:
  assumes "hangs V hung" "hung (dut_ptr (fst s))" "waiting L T (snd s)" "emu_clk V D raw (dpi_on V D raw) s = Inr (False, s')"
  shows "hung (dut_ptr (fst s')) \<and> waiting L T (snd s') \<and> emu_cycles (fst s') = emu_cycles (fst s) + 1 \<and> emu_cycles (fst s) - L \<le> T"
proof -
  note inv = hung_invariant [OF assms(1), of D raw L T]
  let ?h = "dpi_on V D raw" and ?P = "\<lambda>s. hung (dut_ptr (fst s)) \<and> waiting L T (snd s)"
  note P = clocked_invariant.holds_def [OF inv] and E = clocked_invariant.eval_holds [OF inv, unfolded clocked_invariant.holds_def [OF inv]]
  have fin: "\<not> v_gotFinish V (dut_ptr (fst s))" using assms(4) by (auto simp: emu_clk_def)
  from fin assms(4) obtain s1 u s2 s3 axi s4 E df where
    s: "emu_eval V ?h (on_dut (v_set_clock V 0) s) = Inr s1"
      "on_xbar (\<lambda>xb. bnd (clk_rising dev_vt D (axi_copy_from_dut_ptr (v_ports V (dut_ptr (fst s1))) raw) xb) (\<lambda>xb'. Inr ((), xb'))) s1 = Inr (u, s2)"
      "emu_eval V ?h (on_dut (v_set_clock V 1) s2) = Inr s3"
      "on_xbar (clk_falling D (axi_copy_from_dut_ptr (v_ports V (dut_ptr (fst s3)))
          (axi_copy_from_dut_ptr (v_ports V (dut_ptr (fst s1))) raw))) s3 = Inr (axi, s4)"
      "emu_eval V ?h (on_dut (\<lambda>v. v_set_ports V (axi_set_dut_ptr axi (v_ports V v)) v) s4) = Inr (E, df)"
      "s' = ((trace_dump E)\<lparr>emu_cycles := emu_cycles (trace_dump E) + 1\<rparr>, df)"
    by (rule emu_clk_steps)
  have keep: "?P s'" using clocked_invariant.clk_holds [OF inv _ assms(4)] assms(2,3) by (simp add: P)
  have "emu_cycles (trace_dump E) = emu_cycles E" by (simp add: trace_dump_def split: option.splits)
  then have cyc: "emu_cycles (fst s') = emu_cycles (fst s) + 1" "emu_cycles (fst s2) = emu_cycles (fst s)"
    using emu_eval_cycles [OF s(1)] on_xbar_cycles [OF s(2)] emu_eval_cycles [OF s(3)] on_xbar_cycles [OF s(4)] emu_eval_cycles [OF s(5)]
    by (simp_all add: s(6))
  have "?P s1" using E [OF _ s(1)] clocked_invariant.clock [OF inv, of "dut_ptr (fst s)" "snd s" 0] assms(2,3) by simp
  then have 2: "?P s2" using clocked_invariant.on_xbar_holds [OF inv _ s(2)] by (simp add: P)
  then have 3: "?P (on_dut (v_set_clock V 1) s2)" using clocked_invariant.clock [OF inv, of "dut_ptr (fst s2)" "snd s2" 1] by simp
  have "dut_ptr (fst s2) = snd (v_eval V (v_set_clock V 0 (dut_ptr (fst s))))"
    using on_xbar_cycles [OF s(2)] emu_eval_dut [OF s(1)] by simp
  then have "Dpi_step \<in> fst ` set (fst (v_eval V (dut_ptr (fst (on_dut (v_set_clock V 1) s2)))))"
    using assms(1,2) by (simp add: hangs_def)
  with emu_eval_tick [OF assms(1) _ _ s(3)] 3 have "emu_cycles (fst s) - L \<le> T" by (simp add: cyc(2))
  then show ?thesis using keep cyc(1) by simp
qed

end
