(* ===== verification/CacheSafe.thy ===== *)
theory CacheSafe
  imports CachePort
begin

text \<open>
  Caches in front of a memory that may stop with a diagnosis: lines can be cached from any address, mapped or not, and
  two caches can disagree about a line. Coherence is then lost, but not memory safety: on a well-formed cache no
  operation leaves its arrays or fails an assertion, and the cache stays well-formed. The memory is an interface of
  which only safety is assumed, so that the result holds for the bus with its devices.
\<close>

section \<open>Bytes of a line\<close>

lemma set_line_byte_safe:
  assumes "cache_wf c" "w < n_ways c" "s < n_sets c"
  shows "\<exists>c'. set_line_byte w s a b c = Inr c' \<and> cache_wf c' \<and> same_geometry c' c"
proof -
  have g: "geometry c" by (rule wfD(2) [OF assms(1)])
  have "tag_of c 0 = 0" by (simp add: tag_of_def)
  then have t: "tag_ok c 0" using tag_of_ok [OF g, of 0] by simp
  let ?a = "line_paddr c 0 s + of_nat (block_offset c a)"
  note A = addr_compose [OF g t assms(3) block_offset_less [of c a]]
  have "set_line_byte w s a b c = set_line_byte w s ?a b c" by (simp add: set_line_byte_def A(4))
  then show ?thesis
    using set_line_byte_eq [OF wfD(1) [OF assms(1)] assms(2) A(2)] put_byte_wf [OF assms(1,2)] put_byte_same by simp
qed

lemma line_byte_safe:
  assumes "cache_wf c" "w < n_ways c" "s < n_sets c"
  shows "\<exists>b. line_byte c w s a = Inr b"
  using assms dimsD(7) [OF wfD(1) [OF assms(1)] assms(2,3)]
  by (simp add: line_byte_def nth2_rect [OF dimsD(6) [OF wfD(1) [OF assms(1)]]])

lemma same_geometry_trans: "same_geometry c2 c1 \<Longrightarrow> same_geometry c1 c \<Longrightarrow> same_geometry c2 c"
  by (simp add: same_geometry_def)

lemma same_geometry_refl: "same_geometry c c"
  by (simp add: same_geometry_def)

section \<open>The interface\<close>

locale safe_port =
  fixes ops :: "'m mem_ops" and inv :: "'m \<Rightarrow> bool"
  assumes r8: "inv m \<Longrightarrow> safeE (\<lambda>(v, m'). inv m') (op_readm8 ops a m)"
    and r16: "inv m \<Longrightarrow> safeE (\<lambda>(v, m'). inv m') (op_readm16 ops a m)"
    and r32: "inv m \<Longrightarrow> safeE (\<lambda>(v, m'). inv m') (op_readm32 ops a m)"
    and w8: "inv m \<Longrightarrow> safeE inv (op_writem8 ops a v8 m)"
    and w16: "inv m \<Longrightarrow> safeE inv (op_writem16 ops a v16 m)"
    and w32: "inv m \<Longrightarrow> safeE inv (op_writem32 ops a v32 m)"
begin

lemma write_line_safe:
  "inv m \<Longrightarrow> set offs \<subseteq> {..<length ln} \<Longrightarrow> safeE inv (write_line ops pa offs ln m)"
  by (induction offs arbitrary: m) (auto intro!: safeE_bnd [OF w8])

lemma read_line_safe:
  "inv m \<Longrightarrow> set offs \<subseteq> {..<length ln} \<Longrightarrow>
   safeE (\<lambda>(ln', m'). length ln' = length ln \<and> inv m') (read_line ops pa offs ln m)"
proof (induction offs arbitrary: m ln)
  case (Cons off offs)
  show ?case
    unfolding read_line.simps
  proof (rule safeE_bnd [OF r8 [OF Cons.prems(1)]], clarify)
    fix b m' assume "inv m'"
    then show "safeE (\<lambda>(ln', m'). length ln' = length ln \<and> inv m') (bnd (updE ln off b) (\<lambda>ln'. read_line ops pa offs ln' m'))"
      using Cons.IH [of m' "ln[off := b]"] Cons.prems(2) by simp
  qed
qed simp

lemma miss_writeback_safe:
  assumes "cache_dims c" "s < n_sets c" "v < n_ways c" "inv m"
  shows "safeE (\<lambda>(c', m'). same_core c' c \<and> inv m') (miss_writeback ops v s d (c, m))"
proof (cases d)
  case True
  have "safeE inv (write_line ops (line_paddr c (ctag c v s) s) [0..<line_size c] (cline c v s) m)"
    by (rule write_line_safe [OF assms(4)]) (use dimsD(7) [OF assms(1,3,2)] in auto)
  then show ?thesis
    unfolding miss_writeback_def prod.case using True assms
    by (simp add: nth2_rect [OF dimsD(5)] nth2_rect [OF dimsD(6)])
      (erule safeE_bnd, simp add: same_core_def same_geometry_def)
qed (use assms in \<open>simp add: miss_writeback_def same_core_def same_geometry_def\<close>)

lemma miss_refill_safe:
  assumes "cache_dims c" "s < n_sets c" "v < n_ways c" "inv m"
  shows "safeE (\<lambda>(c', m'). inv m' \<and> (\<exists>ln. length ln = line_size c \<and> c' = replaced v s t ln c)) (miss_refill ops v s t (c, m))"
proof -
  have l: "length (cline c v s) = line_size c" by (rule dimsD(7) [OF assms(1,3,2)])
  have "safeE (\<lambda>(ln', m'). length ln' = length (cline c v s) \<and> inv m')
      (read_line ops (line_paddr c t s) [0..<line_size c] (cline c v s) m)"
    by (rule read_line_safe [OF assms(4)]) (auto simp: l)
  then show ?thesis
    unfolding miss_refill_def prod.case using assms
    by (simp add: upd2_rect [OF dimsD(2)] upd2_rect [OF dimsD(5)] nth2_rect [OF dimsD(6)])
      (erule safeE_bnd, auto simp: l upd2_rect [OF dimsD(6)] replaced_def)
qed

definition access_post :: "Cache \<Rightarrow> phy_addr_t \<Rightarrow> (nat \<times> nat) \<times> Cache \<times> 'm \<Rightarrow> bool" where
  "access_post c pa = (\<lambda>((w, s), c', m'). w < n_ways c \<and> s = entry_of c pa \<and> cache_wf c' \<and> same_geometry c' c \<and> inv m')"

lemma access_safe:
  assumes wf: "cache_wf c" and m: "inv m"
  shows "safeE (access_post c pa) (access ops pa st (c, m))"
proof (cases "\<exists>h < n_ways c. match_way c (entry_of c pa) (tag_of c pa) h")
  case True
  then obtain h where h: "h < n_ways c" "match_way c (entry_of c pa) (tag_of c pa) h" by blast
  let ?c = "c\<lparr>freq_hit := freq_hit c + 1\<rparr>"
  have sc: "same_core ?c c" by simp
  have c: "cache_wf ?c" "h < n_ways ?c" "entry_of c pa < n_sets ?c"
    using wf h by (simp_all add: same_core_eqs [OF sc] same_geometry_eqs [OF same_coreD [OF sc]])
  show ?thesis
    using touched_wf [OF c(1,3,2), of st] touched_same(1) [OF wfD(1) [OF c(1)] c(3,2), of st] same_coreD [OF sc] h(1) m
    by (simp add: access_hit [OF wf h] access_post_def) (blast intro: same_geometry_trans)
next
  case False
  let ?s = "entry_of c pa" and ?t = "tag_of c pa" and ?c = "c\<lparr>freq_miss := freq_miss c + 1\<rparr>"
  obtain v where v: "v < n_ways c"
      "scan_ways c ?s ?t [0..<n_ways c] (False, None, False) = Inr (False, Some v, cdirty c ?s v)"
    by (rule scan_wf [OF wf entry_of_less, where t = ?t and a1 = pa]) (simp add: False)
  have sc: "same_core ?c c" by simp
  note e = same_core_eqs [OF sc] same_geometry_eqs [OF same_coreD [OF sc]]
  have D: "cache_dims ?c" "?s < n_sets ?c" "v < n_ways ?c" using wfD(1) [OF wf] v(1) by (simp_all add: e)
  let ?tail = "\<lambda>(c1, m1). bnd (lru_threshold c1 ?s ?t [0..<n_ways c] ([], 0)) (\<lambda>(match, lru_thresh).
     bnd (touch_ways ?s True st [] match lru_thresh [0..<n_ways c] (c1, None)) (\<lambda>(c2, hit_way).
     case hit_way of None \<Rightarrow> Inl AssertFail | Some w \<Rightarrow> Inr ((w, ?s), c2, m1)))"
  have "safeE (access_post c pa) (bnd (bnd (miss_writeback ops v ?s (cdirty c ?s v) (?c, m)) (miss_refill ops v ?s ?t)) ?tail)"
    unfolding bnd_assoc
  proof (rule safeE_bnd [OF miss_writeback_safe [OF D m]], clarify)
    fix c1 m1 assume c1: "same_core c1 ?c" and m1: "inv m1"
    note e1 = same_core_eqs [OF c1] same_geometry_eqs [OF same_coreD [OF c1]]
    have D1: "cache_dims c1" "?s < n_sets c1" "v < n_ways c1" "cache_wf c1" "tag_ok c1 ?t" "\<forall>w < n_ways c1. \<not> match_way c1 ?s ?t w"
      using D wf False tag_of_ok [OF wfD(2) [OF wf]] by (simp_all add: e1 e)
    show "safeE (access_post c pa) (bnd (miss_refill ops v ?s ?t (c1, m1)) ?tail)"
    proof (rule safeE_bnd [OF miss_refill_safe [OF D1(1-3) m1]])
      fix x assume "case x of (c', m') \<Rightarrow> inv m' \<and> (\<exists>ln. length ln = line_size c1 \<and> c' = replaced v ?s ?t ln c1)"
      then obtain ln m2 where x: "x = (replaced v ?s ?t ln c1, m2)" and ln: "length ln = line_size c1" and m2: "inv m2" by blast
      let ?c2 = "replaced v ?s ?t ln c1"
      note g2 = same_geometry_eqs [OF replaced_same, of v ?s ?t ln c1]
      have wf2: "cache_wf ?c2" by (rule replaced_wf [OF D1(4,2,3) ln D1(5,6)])
      have v2: "v < n_ways ?c2" "?s < n_sets ?c2" "match_way ?c2 ?s ?t v"
        using D1 replaced_match [OF D1(1-3) ln] by (simp_all add: g2)
      have sg: "same_geometry (touched ?s st v ?c2) c"
        using touched_same(1) [OF wfD(1) [OF wf2] v2(2,1), of st] same_coreD [OF c1]
        by (simp add: same_geometry_def replaced_def)
      have n: "n_ways ?c2 = n_ways c" by (simp add: g2 e1 e)
      have "?tail (?c2, m2) = Inr ((v, ?s), touched ?s st v ?c2, m2)"
        using access_tail [OF wf2 v2(2,1,3), of st m2] unfolding n prod.case .
      then show "safeE (access_post c pa) (?tail x)"
        unfolding x using touched_wf [OF wf2 v2(2,1), of st] sg v(1) m2 by (simp only: safeE_simps access_post_def prod.case simp_thms)
    qed
  qed
  then show ?thesis by (simp add: access_def Let_def v(2))
qed

definition post :: "Cache \<Rightarrow> Cache \<times> 'm \<Rightarrow> bool" where
  "post c = (\<lambda>(c', m'). cache_wf c' \<and> same_geometry c' c \<and> inv m')"

text \<open>Every byte transfer after the access, in any number.\<close>

lemma set_byte_bnd:
  assumes "cache_wf c1" "same_geometry c1 c" "w < n_ways c" "s < n_sets c"
    and "\<And>c2. cache_wf c2 \<Longrightarrow> same_geometry c2 c \<Longrightarrow> safeE Q (f c2)"
  shows "safeE Q (bnd (set_line_byte w s a b c1) f)"
proof -
  have "w < n_ways c1" "s < n_sets c1" using assms(3,4) by (simp_all add: same_geometry_eqs [OF assms(2)])
  from set_line_byte_safe [OF assms(1) this, of a b]
  obtain c2 where c2: "set_line_byte w s a b c1 = Inr c2" "cache_wf c2" "same_geometry c2 c1" by blast
  then show ?thesis using assms(5) [OF c2(2) same_geometry_trans [OF c2(3) assms(2)]] by simp
qed

lemma get_byte_bnd:
  assumes "cache_wf c1" "same_geometry c1 c" "w < n_ways c" "s < n_sets c" and "\<And>b. safeE Q (f b)"
  shows "safeE Q (bnd (line_byte c1 w s a) f)"
proof -
  have "w < n_ways c1" "s < n_sets c1" using assms(3,4) by (simp_all add: same_geometry_eqs [OF assms(2)])
  from line_byte_safe [OF assms(1) this, of a] show ?thesis using assms(5) by auto
qed

lemma access_bnd:
  assumes "cache_wf c" "inv m"
    and "\<And>w c1 m1. w < n_ways c \<Longrightarrow> cache_wf c1 \<Longrightarrow> same_geometry c1 c \<Longrightarrow> inv m1 \<Longrightarrow> safeE Q (f ((w, entry_of c a), c1, m1))"
  shows "safeE Q (bnd (access ops a st (c, m)) f)"
  by (rule safeE_bnd [OF access_safe [OF assms(1,2)]]) (auto simp: access_post_def intro: assms(3))

lemmas byte_steps = access_bnd set_byte_bnd get_byte_bnd

lemma writem8_safe:
  assumes "cache_wf c" "inv m"
  shows "safeE (post c) (cache_writem8 ops a v (c, m))"
proof (cases "cache_enabled c")
  case True
  then show ?thesis
    unfolding cache_writem8_def prod.case using assms
    by (auto intro!: byte_steps [where c = c] simp: post_def)
next
  case False
  then show ?thesis
    unfolding cache_writem8_def prod.case using assms
    by (auto intro!: safeE_bnd [OF w8] simp: post_def same_geometry_refl)
qed

lemma writem16_safe:
  assumes "cache_wf c" "inv m" "a AND 1 = 0"
  shows "safeE (post c) (cache_writem16 ops a v (c, m))"
proof (cases "cache_enabled c")
  case True
  then show ?thesis
    unfolding cache_writem16_def prod.case using assms
    by (auto intro!: byte_steps [where c = c] simp: post_def)
next
  case False
  then show ?thesis
    unfolding cache_writem16_def prod.case using assms
    by (auto intro!: safeE_bnd [OF w16] simp: post_def same_geometry_refl)
qed

lemma writem32_safe:
  assumes "cache_wf c" "inv m" "a AND 3 = 0"
  shows "safeE (post c) (cache_writem32 ops a v (c, m))"
proof (cases "cache_enabled c")
  case True
  then show ?thesis
    unfolding cache_writem32_def prod.case using assms
    by (auto intro!: byte_steps [where c = c] simp: post_def)
next
  case False
  then show ?thesis
    unfolding cache_writem32_def prod.case using assms
    by (auto intro!: safeE_bnd [OF w32] simp: post_def same_geometry_refl)
qed

lemma readm8_safe:
  assumes "cache_wf c" "inv m"
  shows "safeE (\<lambda>(v, cm). post c cm) (cache_readm8 ops a (c, m))"
proof (cases "cache_enabled c")
  case True
  then show ?thesis
    unfolding cache_readm8_def prod.case using assms
    by (auto intro!: byte_steps [where c = c] simp: post_def)
next
  case False
  then show ?thesis
    unfolding cache_readm8_def prod.case using assms
    by (auto intro!: safeE_bnd [OF r8] simp: post_def same_geometry_refl)
qed

lemma readm16_safe:
  assumes "cache_wf c" "inv m" "a AND 1 = 0"
  shows "safeE (\<lambda>(v, cm). post c cm) (cache_readm16 ops a (c, m))"
proof (cases "cache_enabled c")
  case True
  then show ?thesis
    unfolding cache_readm16_def prod.case using assms
    by (auto intro!: byte_steps [where c = c] simp: post_def)
next
  case False
  then show ?thesis
    unfolding cache_readm16_def prod.case using assms
    by (auto intro!: safeE_bnd [OF r16] simp: post_def same_geometry_refl)
qed

lemma readm32_safe:
  assumes "cache_wf c" "inv m" "a AND 3 = 0"
  shows "safeE (\<lambda>(v, cm). post c cm) (cache_readm32 ops a (c, m))"
proof (cases "cache_enabled c")
  case True
  then show ?thesis
    unfolding cache_readm32_def prod.case using assms
    by (auto intro!: byte_steps [where c = c] simp: post_def)
next
  case False
  then show ?thesis
    unfolding cache_readm32_def prod.case using assms
    by (auto intro!: safeE_bnd [OF r32] simp: post_def same_geometry_refl)
qed

lemma flush_ways_safe:
  "cache_wf c \<Longrightarrow> inv m \<Longrightarrow> s < n_sets c \<Longrightarrow> set ws \<subseteq> {..<n_ways c} \<Longrightarrow> safeE (post c) (flush_ways ops s t ws (c, m))"
proof (induction ws arbitrary: c m)
  case Nil
  then show ?case by (simp add: post_def same_geometry_refl)
next
  case (Cons i ws)
  note D = dimsD [OF wfD(1) [OF Cons.prems(1)]]
  have i: "i < n_ways c" using Cons.prems(4) by simp
  note r = nth2_rect [OF D(2) i Cons.prems(3)] nth2_rect [OF D(5) i Cons.prems(3)] nth2_rect [OF D(3) Cons.prems(3) i]
    nth2_rect [OF D(6) i Cons.prems(3)] upd2_rect [OF D(3) Cons.prems(3) i]
  show ?case
  proof (cases "cvalid c i s \<and> ctag c i s = t \<and> cdirty c s i")
    case False
    then show ?thesis using Cons r by auto
  next
    case True
    let ?c = "cleaned s i c"
    note e = same_geometry_eqs [OF cleaned_same, of s i c]
    have wf: "cache_wf ?c" by (rule cleaned_wf [OF Cons.prems(1,3) i])
    have "safeE inv (write_line ops (line_paddr c t s) [0..<line_size c] (cline c i s) m)"
      by (rule write_line_safe [OF Cons.prems(2)]) (use D(7) [OF i Cons.prems(3)] in auto)
    then have "safeE (post c) (bnd (write_line ops (line_paddr c t s) [0..<line_size c] (cline c i s) m) (\<lambda>m'. flush_ways ops s t ws (?c, m')))"
    proof (rule safeE_bnd)
      fix m' assume "inv m'"
      from Cons.IH [OF wf this] Cons.prems(3,4) show "safeE (post c) (flush_ways ops s t ws (?c, m'))"
        by (auto elim!: safeE_mono simp: e post_def intro: same_geometry_trans [OF _ cleaned_same])
    qed
    then show ?thesis using True r by (simp add: cleaned_def)
  qed
qed

lemma flush_safe:
  assumes "cache_wf c" "inv m"
  shows "safeE (post c) (flush ops a (c, m))"
proof -
  have "set [0..<n_ways c] \<subseteq> {..<n_ways c}" by auto
  from flush_ways_safe [OF assms entry_of_less this, of a "tag_of c a"] show ?thesis
    using assms by (simp add: flush_def) (simp add: post_def same_geometry_refl)
qed

end

end
