(* ===== verification/CpuSafe.thy ===== *)
theory CpuSafe
  imports Cpu DeviceTree CacheSafe
begin

text \<open>
  Memory safety of the interpreter: a well-formed machine stays well-formed, whatever it executes, and the only
  undefined behaviour of the emulator that a program can reach is that of the C++ shift and division operators. The devices are an
  interface, instantiated with the device tree at the end.
\<close>

section \<open>Well-formed machines\<close>

definition cpu_inv ::
  "('cb \<Rightarrow> phy_addr_t \<Rightarrow> bool) \<Rightarrow> ('dv world \<Rightarrow> bool) \<Rightarrow> nat \<Rightarrow> nat \<Rightarrow> int \<Rightarrow> ('cb, 'dv) CPU \<Rightarrow> bool" where
  "cpu_inv window dinv ni nd tsc cpu \<longleftrightarrow> bus_inv window dinv (cpu_bus cpu) \<and> length (regfile cpu) = 32 \<and>
     pcq_wf (pc_queue cpu) \<and> ras_wf (cpu_ras cpu) \<and> cache_wf (icache cpu) \<and> cache_wf (dcache cpu) \<and>
     immu_tlb_count cpu = int ni \<and> dmmu_tlb_count cpu = int nd \<and> IRQ_TSC cpu = tsc"

text \<open>The operands for which a C++ operator of the interpreter has no defined result.\<close>

definition arith_undefined :: "decoded \<Rightarrow> ('cb, 'dv) CPU \<Rightarrow> bool" where
  "arith_undefined d cpu \<longleftrightarrow>
     (\<exists>a b. get_reg (rs1 d) cpu = Inr a \<and> get_reg (rs2 d) cpu = Inr b \<and>
        (opcode d \<in> {INS32_OP_LSL, INS32_OP_LSR, INS32_OP_ASR} \<and> b \<ge> 32 \<or>
         opcode d \<in> {INS32_OP_DIVU, INS32_OP_MODU} \<and> b = 0 \<or>
         opcode d \<in> {INS32_OP_DIV, INS32_OP_MOD} \<and> (b = 0 \<or> a = 0x80000000 \<and> b = 0xffffffff))) \<or>
     opcode d \<in> {INS32_OP_LSL_I, INS32_OP_LSR_I, INS32_OP_ASR_I} \<and> (ucast (uimm15 d) :: u32) \<ge> 32"

text \<open>A result that is undefined only under the condition \<open>D\<close>.\<close>

definition safeU :: "bool \<Rightarrow> ('a \<Rightarrow> bool) \<Rightarrow> halt + 'a \<Rightarrow> bool" where
  "safeU D Q r \<longleftrightarrow> (case r of Inl e \<Rightarrow> e \<noteq> AssertFail \<and> (e = Undefined \<longrightarrow> D) | Inr x \<Rightarrow> Q x)"

lemma safeU_simps [simp]:
  "safeU D Q (Inr x) = Q x" "safeU D Q (Inl (Panic n))" "safeU D Q (Inl Undefined) = D" "\<not> safeU D Q (Inl AssertFail)"
  by (simp_all add: safeU_def)

lemma safeU_bnd: "safeU D P m \<Longrightarrow> (\<And>x. P x \<Longrightarrow> safeU D Q (f x)) \<Longrightarrow> safeU D Q (bnd m f)"
  by (cases m) (auto simp: safeU_def)

lemma safeE_U: "safeE Q r \<Longrightarrow> safeU D Q r"
  by (auto simp: safeE_def safeU_def split: sum.splits)

lemma safeU_mono: "safeU D P m \<Longrightarrow> (D \<Longrightarrow> D') \<Longrightarrow> (\<And>x. P x \<Longrightarrow> Q x) \<Longrightarrow> safeU D' Q m"
  by (auto simp: safeU_def split: sum.splits)

lemma safeU_E: "safeU False Q r = safeE Q r"
  by (auto simp: safeE_def safeU_def split: sum.splits)

section \<open>Translation\<close>

lemma dmmu_safe:
  assumes "msr_wf ni (2 ^ k) m"
  shows "safeE (\<lambda>(r, pa, u). \<forall>p. pa = Some p \<longrightarrow> unat p mod 2 ^ 13 = unat va mod 2 ^ 13)
    (dmmu_translate_vma (int (2 ^ k)) seg m va st)"
proof -
  have l: "length (DTLBL m) = 2 ^ k" "length (DTLBH m) = 2 ^ k" using assms by (simp_all add: msr_wf_def)
  obtain r pa u where eq: "dmmu_translate_vma (2 ^ k) seg m va st = Inr (r, pa, u)"
    using dmmu_translate_lookup [OF l, of seg va st] by (cases "dtlb_lookup m (2 ^ k) va st") (auto split: if_splits)
  have "unat p mod 2 ^ 13 = unat va mod 2 ^ 13" if "pa = Some p" for p
    using dmmu_pa_cases [OF eq [unfolded that]] by (elim disjE exE) (simp_all only: page_pa_nat(1))
  then show ?thesis by (simp only: of_nat_power of_nat_numeral eq safeE_simps prod.case) blast
qed

lemma immu_safe:
  assumes "msr_wf (2 ^ k) nd m"
  shows "safeE (\<lambda>(r, pa, u). pa = None \<longrightarrow> r = - EM_PAGE_FAULT \<or> r = - EM_TLB_MISS)
    (immu_translate_vma (int (2 ^ k)) seg m va)"
proof -
  have l: "length (ITLBL m) = 2 ^ k" "length (ITLBH m) = 2 ^ k" using assms by (simp_all add: msr_wf_def)
  show ?thesis
    using immu_translate_lookup [OF l, of seg va] by (cases "itlb_lookup m (2 ^ k) va") auto
qed

section \<open>The devices, as the processor sees them\<close>

text \<open>
  Beyond the contract of the bus, the devices rely on little of the processor: its tables have their sizes, and
  it only drives its own line, the timer's, in \<open>IRR\<close>.
\<close>

locale cpu_devices = mmio_device vt window dinv
  for vt :: "('cb, 'dv world) MMIOCallback" and window :: "'cb \<Rightarrow> phy_addr_t \<Rightarrow> bool" and dinv :: "'dv world \<Rightarrow> bool" +
  fixes ni nd :: nat and tsc :: int
  assumes tables: "dinv (m, dv) \<Longrightarrow> msr_wf ni nd m"
    and own_line: "dinv (m, dv) \<Longrightarrow> msr_wf ni nd m' \<Longrightarrow> (\<And>n. n \<noteq> nat tsc \<Longrightarrow> bit (IRR m') n = bit (IRR m) n) \<Longrightarrow> dinv (m', dv)"
    and sizes: "\<exists>k. ni = 2 ^ k" "\<exists>k. nd = 2 ^ k"
    and channel: "0 \<le> tsc" "tsc < 32"
begin

abbreviation good :: "('cb, 'dv) CPU \<Rightarrow> bool" where "good \<equiv> cpu_inv window dinv ni nd tsc"

abbreviation good_out :: "vm_addr_t \<times> bool \<times> ('cb, 'dv) CPU \<Rightarrow> bool" where "good_out \<equiv> \<lambda>(npc, excp, cpu). good cpu"

lemma goodD:
  assumes "good cpu"
  shows "bus_inv window dinv (cpu_bus cpu)" "length (regfile cpu) = 32" "pcq_wf (pc_queue cpu)" "ras_wf (cpu_ras cpu)"
    "cache_wf (icache cpu)" "cache_wf (dcache cpu)" "immu_tlb_count cpu = int ni" "dmmu_tlb_count cpu = int nd"
    "IRQ_TSC cpu = tsc" "msr_wf ni nd (cpu_msr cpu)" "dinv (cpu_msr cpu, cpu_dev cpu)"
proof -
  show "bus_inv window dinv (cpu_bus cpu)" "length (regfile cpu) = 32" "pcq_wf (pc_queue cpu)" "ras_wf (cpu_ras cpu)"
    "cache_wf (icache cpu)" "cache_wf (dcache cpu)" "immu_tlb_count cpu = int ni" "dmmu_tlb_count cpu = int nd"
    "IRQ_TSC cpu = tsc"
    using assms by (simp_all add: cpu_inv_def)
  then show "dinv (cpu_msr cpu, cpu_dev cpu)" by (simp add: cpu_bus_def bus_inv_def)
  then show "msr_wf ni nd (cpu_msr cpu)" by (rule tables)
qed

lemma good_msr:
  assumes "good cpu" "msr_wf ni nd m'" "\<And>n. n \<noteq> nat tsc \<Longrightarrow> bit (IRR m') n = bit (IRR (cpu_msr cpu)) n"
  shows "good (cpu\<lparr>cpu_msr := m'\<rparr>)"
  using goodD [OF assms(1)] own_line [OF goodD(11) [OF assms(1)] assms(2,3)]
  by (simp add: cpu_inv_def cpu_bus_def bus_inv_def)

lemma good_set_bus: "good cpu \<Longrightarrow> bus_inv window dinv b \<Longrightarrow> good (set_bus b cpu)"
  by (simp add: cpu_inv_def)

lemma good_cache:
  "good cpu \<Longrightarrow> cache_wf c \<Longrightarrow> good (cpu\<lparr>dcache := c\<rparr>)" "good cpu \<Longrightarrow> cache_wf c \<Longrightarrow> good (cpu\<lparr>icache := c\<rparr>)"
  by (simp_all add: cpu_inv_def cpu_bus_def)

lemma good_regfile: "good cpu \<Longrightarrow> length r = 32 \<Longrightarrow> good (cpu\<lparr>regfile := r\<rparr>)"
  by (simp add: cpu_inv_def cpu_bus_def)

lemma good_traces:
  "good cpu \<Longrightarrow> pcq_wf q \<Longrightarrow> good (cpu\<lparr>pc_queue := q\<rparr>)" "good cpu \<Longrightarrow> ras_wf r \<Longrightarrow> good (cpu\<lparr>cpu_ras := r\<rparr>)"
  "good (cpu\<lparr>cpu_out := out\<rparr>) = good cpu" "good (cpu\<lparr>cpu_pc := pc\<rparr>) = good cpu"
  by (simp_all add: cpu_inv_def cpu_bus_def)

end

sublocale cpu_devices \<subseteq> port: safe_port "phy_ops vt" "bus_inv window dinv"
  by unfold_locales (simp_all add: phy_ops_def phy_readm8_safe phy_readm16_safe phy_readm32_safe
      phy_writem8_safe phy_writem16_safe phy_writem32_safe)

context cpu_devices
begin

lemmas cache_safe = port.writem8_safe port.writem16_safe port.writem32_safe
  port.readm8_safe port.readm16_safe port.readm32_safe port.flush_safe

lemma on_bus_good: "good cpu \<Longrightarrow> safeE (bus_inv window dinv) (f (cpu_bus cpu)) \<Longrightarrow> safeE good (on_bus f cpu)"
  unfolding on_bus_def by (erule safeE_bnd) (simp add: good_set_bus)

lemma from_bus_good:
  "good cpu \<Longrightarrow> safeE (\<lambda>(v, b). bus_inv window dinv b) (f (cpu_bus cpu)) \<Longrightarrow> safeE (\<lambda>(v, cpu'). good cpu') (from_bus f cpu)"
  unfolding from_bus_def by (erule safeE_bnd) (auto simp: good_set_bus)

lemma on_dcache_good:
  "good cpu \<Longrightarrow> safeE (port.post (dcache cpu)) (f (dcache cpu, cpu_bus cpu)) \<Longrightarrow> safeE good (on_dcache f cpu)"
  unfolding on_dcache_def by (erule safeE_bnd) (auto simp: port.post_def intro!: good_cache good_set_bus)

lemma from_dcache_good:
  "good cpu \<Longrightarrow> safeE (\<lambda>(v, cm). port.post (dcache cpu) cm) (f (dcache cpu, cpu_bus cpu)) \<Longrightarrow>
   safeE (\<lambda>(v, cpu'). good cpu') (from_dcache f cpu)"
  unfolding from_dcache_def by (erule safeE_bnd) (auto simp: port.post_def intro!: good_cache good_set_bus)

lemma from_icache_good:
  "good cpu \<Longrightarrow> safeE (\<lambda>(v, cm). port.post (icache cpu) cm) (f (icache cpu, cpu_bus cpu)) \<Longrightarrow>
   safeE (\<lambda>(v, cpu'). good cpu') (from_icache f cpu)"
  unfolding from_icache_def by (erule safeE_bnd) (auto simp: port.post_def intro!: good_cache good_set_bus)

text \<open>Data accesses at a suitably aligned address.\<close>

lemma data_access_good:
  assumes "good cpu"
  shows "safeE (\<lambda>(v, cpu'). good cpu') (data_read8 vt pa u cpu)" "safeE good (data_write8 vt pa u v8 cpu)"
    "pa AND 1 = 0 \<Longrightarrow> safeE (\<lambda>(v, cpu'). good cpu') (data_read16 vt pa u cpu)"
    "pa AND 1 = 0 \<Longrightarrow> safeE good (data_write16 vt pa u v16 cpu)"
    "pa AND 3 = 0 \<Longrightarrow> safeE (\<lambda>(v, cpu'). good cpu') (data_read32 vt pa u cpu)"
    "pa AND 3 = 0 \<Longrightarrow> safeE good (data_write32 vt pa u v32 cpu)"
  using assms goodD(1,6) [OF assms]
  by (auto simp: data_read8_def data_write8_def data_read16_def data_write16_def data_read32_def data_write32_def
      intro!: from_bus_good on_bus_good from_dcache_good on_dcache_good cache_safe
        phy_readm8_safe phy_readm16_safe phy_readm32_safe phy_writem8_safe phy_writem16_safe phy_writem32_safe)

end

section \<open>Registers and exceptions\<close>

context cpu_devices
begin

lemma get_reg_safe: "good cpu \<Longrightarrow> safeE (\<lambda>v. get_reg a cpu = Inr v) (get_reg a cpu)"
  using goodD(2) [of cpu] by (auto simp: get_reg_def word_le_nat_alt)

lemma set_reg_good: "good cpu \<Longrightarrow> safeE good (set_reg a v cpu)"
  using goodD(2) [of cpu] by (auto simp: set_reg_def word_le_nat_alt intro: good_regfile)

lemma fetch_next_good [simp]: "safeU D good_out (fetch_next pc cpu) = good cpu"
  by (simp add: fetch_next_def)

lemma write_back: "good cpu \<Longrightarrow> safeU D good_out (bnd (set_reg a v cpu) (fetch_next pc))"
  by (rule safeU_bnd [OF safeE_U [OF set_reg_good]]) simp_all

lemma raise_good: "good cpu \<Longrightarrow> good (snd (raise_exception pc vector lsa sc cpu))"
  using goodD(10) [of cpu] unfolding raise_exception_def Let_def snd_conv by (intro good_msr) auto

lemma exception_good: "good cpu \<Longrightarrow> safeU D good_out (exception pc vector lsa sc cpu)"
  using raise_good [of cpu pc vector lsa sc] by (auto simp: exception_def split: prod.splits)

lemma on_msr_good:
  assumes "good cpu"
    and "safeE (\<lambda>m'. msr_wf ni nd m' \<and> (\<forall>n. n \<noteq> nat tsc \<longrightarrow> bit (IRR m') n = bit (IRR (cpu_msr cpu)) n)) (f (cpu_msr cpu))"
  shows "safeE good (on_msr f cpu)"
  unfolding on_msr_def by (rule safeE_bnd [OF assms(2)]) (auto intro: good_msr [OF assms(1)])

lemma set_msr_good:
  "good cpu \<Longrightarrow> msr_wf ni nd (f (cpu_msr cpu)) \<Longrightarrow> IRR (f (cpu_msr cpu)) = IRR (cpu_msr cpu) \<Longrightarrow> safeE good (set_msr f cpu)"
  by (simp add: set_msr_def good_msr)

lemma set_interrupt_good:
  assumes "msr_wf ni nd m"
  shows "safeE (\<lambda>m'. msr_wf ni nd m' \<and> (\<forall>n. n \<noteq> nat tsc \<longrightarrow> bit (IRR m') n = bit (IRR m) n)) (irqc_set_interrupt tsc l m)"
proof -
  obtain irr where "irqc_set_interrupt tsc l m = Inr (m\<lparr>IRR := irr\<rparr>)"
      "\<And>n. bit irr n = (if n = nat tsc then l else bit (IRR m) n)"
    by (rule irqc_set_interrupt_lines [OF channel]) blast
  then show ?thesis using assms by simp
qed

lemma tsc_clk_good:
  assumes "good cpu"
  shows "safeE good (on_msr (tsc_clk (IRQ_TSC cpu)) cpu)"
proof (rule on_msr_good [OF assms])
  let ?m = "cpu_msr cpu"
  have wf: "msr_wf ni nd (?m\<lparr>TCR := x\<rparr>)" for x using goodD(10) [OF assms] by simp
  show "safeE (\<lambda>m'. msr_wf ni nd m' \<and> (\<forall>n. n \<noteq> nat tsc \<longrightarrow> bit (IRR m') n = bit (IRR ?m) n)) (tsc_clk (IRQ_TSC cpu) ?m)"
    unfolding goodD(9) [OF assms] tsc_clk_def tsc_update_tcr_def
    using goodD(10) [OF assms]
    by (auto intro!: safeE_bnd [OF set_interrupt_good [OF wf]])
qed

section \<open>Instructions\<close>

lemma alu_reg_safe:
  assumes "alu_reg (opcode d) = Some f" "get_reg (rs1 d) cpu = Inr a" "get_reg (rs2 d) cpu = Inr b"
  shows "safeU (arith_undefined d cpu) (\<lambda>v. True) (f a b)"
  using assms unfolding alu_reg_def arith_undefined_def
  by (auto simp: shift_count_def sdivE_def smodE_def not_less split: if_splits)

lemma exec_alu_reg_good:
  assumes "good cpu" "alu_reg (opcode d) = Some f"
  shows "safeU (arith_undefined d cpu) good_out (exec_alu_reg f pc d cpu)"
  unfolding exec_alu_reg_def
  by (rule safeU_bnd [OF safeE_U [OF get_reg_safe [OF assms(1)]]], rule safeU_bnd [OF safeE_U [OF get_reg_safe [OF assms(1)]]],
      rule safeU_bnd [OF alu_reg_safe [OF assms(2)]], assumption, assumption, rule write_back [OF assms(1)])

lemma alu_imm_safe:
  assumes "alu_imm d = Some f"
  shows "safeU (arith_undefined d cpu) (\<lambda>v. True) (f a)"
  using assms unfolding alu_imm_def arith_undefined_def
  by (auto simp: shift_count_def not_less Let_def split: if_splits)

lemma exec_alu_imm_good:
  assumes "good cpu" "alu_imm d = Some f"
  shows "safeU (arith_undefined d cpu) good_out (exec_alu_imm f pc d cpu)"
  unfolding exec_alu_imm_def
  by (rule safeU_bnd [OF safeE_U [OF get_reg_safe [OF assms(1)]]], rule safeU_bnd [OF alu_imm_safe [OF assms(2)]],
      rule write_back [OF assms(1)])

lemma push_ras_good: "good cpu \<Longrightarrow> safeE good (push_ras pc npc cpu)"
  using goodD(4) [of cpu] ras_push_total [of "cpu_ras cpu" pc npc] ras_wf_push [of "cpu_ras cpu" pc npc]
  by (auto simp: push_ras_def intro: good_traces)

lemma exec_JMP_good:
  assumes "good cpu"
  shows "safeU D good_out (exec_JMP pc d cpu)"
  unfolding exec_JMP_def Let_def
proof (rule safeU_bnd [OF safeE_U [OF set_reg_good [OF assms]]], rule safeU_bnd [OF safeE_U [OF get_reg_safe]], assumption)
  fix cpu1 npc assume g: "good cpu1"
  let ?c = "if rs1 d = ADDR_RLNK then cpu1\<lparr>cpu_ras := ras_pop (cpu_ras cpu1)\<rparr> else cpu1"
  have "good ?c" using g goodD(4) [OF g] by (auto intro: good_traces ras_wf_pop)
  then have "safeE good (if rd d = ADDR_RLNK then push_ras pc npc ?c else Inr ?c)" using push_ras_good by simp
  then show "safeU D good_out (bnd (if rd d = ADDR_RLNK then push_ras pc npc ?c else Inr ?c) (\<lambda>cpu3. Inr (npc, False, cpu3)))"
    by (rule safeU_bnd [OF safeE_U]) simp
qed

lemma exec_JMP_I_LNK_good:
  assumes "good cpu"
  shows "safeU D good_out (exec_JMP_I_LNK pc d cpu)"
  unfolding exec_JMP_I_LNK_def Let_def
  by (rule safeU_bnd [OF safeE_U [OF set_reg_good [OF assms]]], rule safeU_bnd [OF safeE_U [OF push_ras_good]]) simp_all

lemma exec_branch_good:
  assumes "good cpu"
  shows "safeU D good_out (exec_branch cc pc d cpu)"
  unfolding exec_branch_def
  by (rule safeU_bnd [OF safeE_U [OF get_reg_safe [OF assms]]], rule safeU_bnd [OF safeE_U [OF get_reg_safe [OF assms]]])
    (use assms in simp)

end

section \<open>Loads and stores\<close>

lemma and_low_mod: "va AND 3 = 0 \<Longrightarrow> unat p mod 2 ^ 13 = unat va mod 2 ^ 13 \<Longrightarrow> p AND 3 = 0"
  "va AND 1 = 0 \<Longrightarrow> unat p mod 2 ^ 13 = unat va mod 2 ^ 13 \<Longrightarrow> p AND 1 = 0" for va p :: u32
proof -
  have m: "unat x mod 4 = unat x mod 2 ^ 13 mod 4" "unat x mod 2 = unat x mod 2 ^ 13 mod 2" for x :: u32
    by (simp_all add: mod_mod_cancel)
  show "va AND 3 = 0 \<Longrightarrow> unat p mod 2 ^ 13 = unat va mod 2 ^ 13 \<Longrightarrow> p AND 3 = 0"
    unfolding and3_mod using m(1) [of va] m(1) [of p] by argo
  show "va AND 1 = 0 \<Longrightarrow> unat p mod 2 ^ 13 = unat va mod 2 ^ 13 \<Longrightarrow> p AND 1 = 0"
    unfolding and1_mod using m(2) [of va] m(2) [of p] by argo
qed

context cpu_devices
begin

lemma translated_good:
  assumes "good cpu" and "\<And>pa u. pa = 0 \<or> unat pa mod 2 ^ 13 = unat va mod 2 ^ 13 \<Longrightarrow> safeU D good_out (k pa u)"
  shows "safeU D good_out (translated pc va st cpu k)"
proof -
  obtain kd where kd: "nd = 2 ^ kd" using sizes(2) by blast
  have "safeE (\<lambda>(r, pa, u). \<forall>p. pa = Some p \<longrightarrow> unat p mod 2 ^ 13 = unat va mod 2 ^ 13)
      (dmmu_translate_vma (dmmu_tlb_count cpu) (dmmu_enable_uncached_seg cpu) (cpu_msr cpu) va st)"
    unfolding goodD(8) [OF assms(1)] kd by (rule dmmu_safe) (use goodD(10) [OF assms(1)] kd in simp)
  then show ?thesis
    unfolding translated_def
    by (rule safeU_bnd [OF safeE_U]) (auto intro!: exception_good [OF assms(1)] assms(2) split: option.splits)
qed

lemma aligned_good:
  assumes "va AND (sz - 1) = 0 \<Longrightarrow> safeU D good_out k"
  shows "safeU D good_out (aligned_va pc va sz cpu k)"
  using assms by (auto simp: aligned_va_def check_vma_align_def)

lemma effective_va_bnd:
  assumes "good cpu" "\<And>va. safeU D good_out (k va)"
  shows "safeU D good_out (bnd (effective_va d cpu) k)"
  unfolding effective_va_def bnd_assoc
  by (rule safeU_bnd [OF safeE_U [OF get_reg_safe [OF assms(1)]]]) (simp add: assms(2))

lemma load_back:
  assumes "safeE (\<lambda>(v, cpu'). good cpu') r"
  shows "safeU D good_out (bnd r (\<lambda>(v, cpu'). bnd (set_reg a (g v) cpu') (fetch_next pc)))"
  by (rule safeU_bnd [OF safeE_U [OF assms]]) (auto intro: write_back)

lemma store_back: "safeE good r \<Longrightarrow> safeU D good_out (bnd r (fetch_next pc))"
  by (rule safeU_bnd [OF safeE_U]) auto

lemma load_good:
  assumes "good cpu"
  shows "safeU D good_out (exec_LDWU vt pc d cpu)" "safeU D good_out (exec_LDHU vt pc d cpu)"
    "safeU D good_out (exec_LDH vt pc d cpu)" "safeU D good_out (exec_LDBU vt pc d cpu)" "safeU D good_out (exec_LDB vt pc d cpu)"
  unfolding exec_LDWU_def exec_LDHU_def exec_LDH_def exec_LDBU_def exec_LDB_def
  using assms
  by (auto intro!: effective_va_bnd aligned_good translated_good load_back [where g = "\<lambda>v. v"] load_back [where g = ucast]
      load_back [where g = "\<lambda>h. (ucast h XOR 0x8000) - 0x8000"] load_back [where g = "\<lambda>b. (ucast b XOR 0x80) - 0x80"]
      data_access_good intro: and_low_mod)

lemma store_good:
  assumes "good cpu"
  shows "safeU D good_out (exec_STW vt pc d cpu)" "safeU D good_out (exec_STH vt pc d cpu)" "safeU D good_out (exec_STB vt pc d cpu)"
  unfolding exec_STW_def exec_STH_def exec_STB_def
  using assms
  by (auto intro!: effective_va_bnd aligned_good translated_good safeU_bnd [OF safeE_U [OF get_reg_safe]] store_back
      data_access_good intro: and_low_mod)

section \<open>System registers\<close>

lemma sr_slot_safe: "x \<le> 15 \<Longrightarrow> sr_slot 0 x = Some k \<Longrightarrow> k < 4"
proof -
  assume x: "x \<le> 15" "sr_slot 0 x = Some k"
  have "\<forall>i < 16. case sr_slot 0 (word_of_nat i) of None \<Rightarrow> True | Some k \<Rightarrow> k < 4" by code_simp
  moreover have "unat x < 16" using x(1) by (simp add: word_le_nat_alt)
  ultimately show "k < 4" using x(2) by fastforce
qed

lemma sr_index: "index \<ge> MSR_BANK_SR \<Longrightarrow> index \<le> MSR_SR_MAX \<Longrightarrow> index - MSR_BANK_SR \<le> 15" for index :: msr_index_t
  by (simp add: word_le_nat_alt unat_sub)

lemma upd_good:
  assumes "good cpu" "i < length (tb (cpu_msr cpu))"
    and "\<And>t. length t = length (tb (cpu_msr cpu)) \<Longrightarrow> msr_wf ni nd (set_tb t (cpu_msr cpu))"
    and "\<And>t. IRR (set_tb t (cpu_msr cpu)) = IRR (cpu_msr cpu)"
  shows "safeE good (on_msr (\<lambda>r. bnd (updE (tb r) i v) (\<lambda>t. Inr (set_tb t r))) cpu)"
  by (rule on_msr_good [OF assms(1)]) (use assms(2-4) in simp)

lemma wmsr_default_good:
  assumes "good cpu"
  shows "safeE good (wmsr_default index val cpu)"
proof -
  have l: "length (ITLBL (cpu_msr cpu)) = ni" "length (ITLBH (cpu_msr cpu)) = ni" "length (DTLBL (cpu_msr cpu)) = nd"
      "length (DTLBH (cpu_msr cpu)) = nd" "length (SR (cpu_msr cpu)) = 4"
    using goodD(10) [OF assms] by (simp_all add: msr_wf_def)
  have wf: "msr_wf ni nd (cpu_msr cpu)" by (rule goodD(10) [OF assms])
  have u1: "safeE good (on_msr (\<lambda>r. bnd (updE (ITLBL r) i w) (\<lambda>t. Inr (r\<lparr>ITLBL := t\<rparr>))) cpu)" if "i < ni" for i w
    by (rule upd_good [where tb = ITLBL and set_tb = "\<lambda>t r. r\<lparr>ITLBL := t\<rparr>", OF assms]) (use that l in \<open>simp_all add: msr_wf_def\<close>)
  have u2: "safeE good (on_msr (\<lambda>r. bnd (updE (ITLBH r) i w) (\<lambda>t. Inr (r\<lparr>ITLBH := t\<rparr>))) cpu)" if "i < ni" for i w
    by (rule upd_good [where tb = ITLBH and set_tb = "\<lambda>t r. r\<lparr>ITLBH := t\<rparr>", OF assms]) (use that l in \<open>simp_all add: msr_wf_def\<close>)
  have u3: "safeE good (on_msr (\<lambda>r. bnd (updE (DTLBL r) i w) (\<lambda>t. Inr (r\<lparr>DTLBL := t\<rparr>))) cpu)" if "i < nd" for i w
    by (rule upd_good [where tb = DTLBL and set_tb = "\<lambda>t r. r\<lparr>DTLBL := t\<rparr>", OF assms]) (use that l in \<open>simp_all add: msr_wf_def\<close>)
  have u4: "safeE good (on_msr (\<lambda>r. bnd (updE (DTLBH r) i w) (\<lambda>t. Inr (r\<lparr>DTLBH := t\<rparr>))) cpu)" if "i < nd" for i w
    by (rule upd_good [where tb = DTLBH and set_tb = "\<lambda>t r. r\<lparr>DTLBH := t\<rparr>", OF assms]) (use that l in \<open>simp_all add: msr_wf_def\<close>)
  have u5: "safeE good (on_msr (\<lambda>r. bnd (updE (SR r) i w) (\<lambda>t. Inr (r\<lparr>SR := t\<rparr>))) cpu)" if "i < 4" for i w
    by (rule upd_good [where tb = SR and set_tb = "\<lambda>t r. r\<lparr>SR := t\<rparr>", OF assms]) (use that l in \<open>simp_all add: msr_wf_def\<close>)
  have sr: "k < 4" if "sr_slot 0 (index - MSR_BANK_SR) = Some k" "index \<ge> MSR_BANK_SR" "index \<le> MSR_SR_MAX" for k
    by (rule sr_slot_safe [OF sr_index that(1)]) (use that in simp_all)
  show ?thesis
    unfolding wmsr_default_def Let_def goodD(7,8) [OF assms]
    by (auto intro!: u1 u2 u3 u4 u5 dest: sr split: option.split)
qed

lemma invalidate_good:
  assumes "cache_wf c"
  shows "\<exists>c'. invalidate pa c = Inr c' \<and> cache_wf c'"
  using assms invalidate_eq [OF wfD(1) [OF assms], of pa] invalidated_wf [of c "entry_of c pa"] by (auto simp: invalidate_def)

lemma wmsr_good:
  assumes "good cpu"
  shows "safeE good (wmsr vt index val cpu)"
proof -
  have tcr: "safeE good (on_msr (\<lambda>r. tsc_update_tcr (IRQ_TSC cpu) (r\<lparr>TCR := tcr_unpack val\<rparr>)) cpu)"
    by (rule on_msr_good [OF assms])
      (use set_interrupt_good [of "cpu_msr cpu\<lparr>TCR := tcr_unpack val\<rparr>"] goodD(9,10) [OF assms] in \<open>simp add: tsc_update_tcr_def\<close>)
  have inval: "safeE good (bnd (invalidate val (icache cpu)) (\<lambda>c. Inr (cpu\<lparr>icache := c\<rparr>)))"
    "safeE good (bnd (invalidate val (dcache cpu)) (\<lambda>c. Inr (cpu\<lparr>dcache := c\<rparr>)))"
    using invalidate_good [OF goodD(5) [OF assms], of val] invalidate_good [OF goodD(6) [OF assms], of val] assms
    by (auto intro: good_cache)
  have "safeE good (on_dcache (flush (phy_ops vt) val) cpu)"
    by (rule on_dcache_good [OF assms]) (rule port.flush_safe [OF goodD(6,1) [OF assms]])
  then show ?thesis
    unfolding wmsr_def
    using assms goodD(10) [OF assms] tcr inval wmsr_default_good [OF assms] by (auto simp: good_traces intro!: set_msr_good)
qed

lemma rmsr_safe: "good cpu \<Longrightarrow> safeE (\<lambda>v. True) (rmsr index cpu)"
  using goodD(10) [of cpu]
  by (auto simp: rmsr_def Let_def msr_wf_def dest: sr_slot_safe [OF sr_index] split: option.splits)

end

section \<open>Steps\<close>

text \<open>The instruction that the step executes, if it gets as far as fetching one.\<close>

definition step_executes :: "('cb, 'dv) vtable \<Rightarrow> vm_addr_t \<Rightarrow> bool \<Rightarrow> ('cb, 'dv) CPU \<Rightarrow> insn_t \<Rightarrow> bool" where
  "step_executes vt pc difftest cpu insn \<longleftrightarrow> (\<exists>cpu1 r pa u cpu2.
     (if difftest then Inr cpu else on_msr (tsc_clk (IRQ_TSC cpu)) cpu) = Inr cpu1 \<and>
     irqc_handle_irqs (cpu_msr cpu1) \<noteq> - EM_IRQ \<and>
     immu_translate_vma (immu_tlb_count cpu1) (immu_enable_uncached_seg cpu1) (cpu_msr cpu1) pc = Inr (r, Some pa, u) \<and>
     fetch_insn vt pa u cpu1 = Inr (insn, cpu2))"

context cpu_devices
begin

lemma exec_RETE_good: "good cpu \<Longrightarrow> safeU D good_out (exec_RETE cpu)"
  using goodD(10) [of cpu] by (auto simp: exec_RETE_def Let_def intro!: good_msr)

lemma exec_SYSCALL_good: "good cpu \<Longrightarrow> safeU D good_out (exec_SYSCALL pc d cpu)"
  by (simp add: exec_SYSCALL_def exception_good)

lemma msr_operand_bnd:
  assumes "good cpu" "\<And>i. safeU D Q (k i)"
  shows "safeU D Q (bnd (msr_operand d cpu) k)"
  unfolding msr_operand_def bnd_assoc
  by (rule safeU_bnd [OF safeE_U [OF get_reg_safe [OF assms(1)]]]) (simp add: assms(2))

lemma exec_WMSR_good:
  assumes "good cpu"
  shows "safeU D good_out (exec_WMSR vt pc d cpu)"
  unfolding exec_WMSR_def
  by (rule msr_operand_bnd [OF assms], rule safeU_bnd [OF safeE_U [OF get_reg_safe [OF assms]]],
      rule safeU_bnd [OF safeE_U [OF wmsr_good [OF assms]]]) simp

lemma exec_RMSR_good:
  assumes "good cpu"
  shows "safeU D good_out (exec_RMSR pc d cpu)"
  unfolding exec_RMSR_def
  by (rule msr_operand_bnd [OF assms], rule safeU_bnd [OF safeE_U [OF rmsr_safe [OF assms]]], rule write_back [OF assms])

lemma exec_MHI_good: "good cpu \<Longrightarrow> safeU D good_out (exec_MHI pc d cpu)"
  unfolding exec_MHI_def by (rule write_back)

lemma exec_JMP_I_good: "good cpu \<Longrightarrow> safeU D good_out (exec_JMP_I pc d cpu)"
  by (simp add: exec_JMP_I_def)

lemmas exec_good = exec_branch_good exec_JMP_good exec_JMP_I_good exec_JMP_I_LNK_good load_good store_good
  exec_SYSCALL_good exec_RETE_good exec_WMSR_good exec_RMSR_good exec_MHI_good exception_good

text \<open>One instruction: only the two groups of arithmetic instructions can be undefined.\<close>

lemma exec_insn_good:
  assumes "good cpu"
  shows "safeU (arith_undefined d cpu) good_out (exec_insn vt pc d cpu)"
proof (cases "alu_reg (opcode d)")
  case (Some f)
  then show ?thesis using exec_alu_reg_good [OF assms Some] by (simp add: exec_insn_def)
next
  case None
  show ?thesis
  proof (cases "alu_imm d")
    case (Some f)
    then show ?thesis using exec_alu_imm_good [OF assms Some] None by (simp add: exec_insn_def)
  next
    case None': None
    show ?thesis
    proof (cases "branch_cc (opcode d)")
      case (Some cc)
      then show ?thesis using exec_branch_good [OF assms] None None' by (simp add: exec_insn_def)
    next
      case None'': None
      show ?thesis
        unfolding exec_insn_def Let_def None None' None'' option.case
        using exec_good [OF assms] assms by (simp only: if_distrib [of "safeU (arith_undefined d cpu) good_out"] fetch_next_good) simp
    qed
  qed
qed

lemma fetch_insn_good:
  assumes "good cpu"
  shows "safeE (\<lambda>(insn, cpu'). good cpu') (fetch_insn vt pa u cpu)"
  using assms goodD(1,5) [OF assms]
  by (auto simp: fetch_insn_def check_vma_align_def intro!: from_bus_good from_icache_good phy_readm32_safe port.readm32_safe)

lemma fetch_insn_regs: "fetch_insn vt' pa u cpu = Inr (insn, cpu') \<Longrightarrow> regfile cpu' = regfile cpu"
  by (auto simp: fetch_insn_def from_bus_def from_icache_def split: if_splits)

lemma arith_undefined_regs: "regfile cpu' = regfile cpu \<Longrightarrow> arith_undefined d cpu' = arith_undefined d cpu"
  by (simp add: arith_undefined_def get_reg_def)

text \<open>The part of a step after the fetch.\<close>

lemma step_out_good:
  "safeU D good_out out \<Longrightarrow> safeU D (\<lambda>(npc, ev, cpu'). good cpu')
     (bnd out (\<lambda>(npc, excp, cpu'). Inr (npc, \<lparr>ev_excp = excp, ev_insn = insn\<rparr>, cpu')))"
  by (rule safeU_bnd [where P = good_out]) auto

lemma fetched_good:
  assumes "good cpu2" and "regfile cpu2 = regfile cpu"
  shows "safeU (arith_undefined (decode insn) cpu) (\<lambda>(npc, ev, cpu'). good cpu')
    (bnd (pcq_push pc insn (pc_queue cpu2)) (\<lambda>q. bnd (exec_insn vt pc (decode insn) (cpu2\<lparr>pc_queue := q\<rparr>))
      (\<lambda>(npc, excp, cpu'). Inr (npc, \<lparr>ev_excp = excp, ev_insn = Some insn\<rparr>, cpu'))))"
proof (rule pcq_push_refines [OF goodD(3) [OF assms(1)], of pc insn])
  fix q assume q: "pcq_push pc insn (pc_queue cpu2) = Inr q" "pcq_wf q"
  have "arith_undefined (decode insn) (cpu2\<lparr>pc_queue := q\<rparr>) = arith_undefined (decode insn) cpu"
    using assms(2) by (intro arith_undefined_regs) simp
  then show ?thesis
    using step_out_good [OF exec_insn_good [OF good_traces(1) [OF assms(1) q(2)], of "decode insn" pc], of "Some insn"] q(1) by simp
qed

lemma cpu_step_good:
  assumes "good cpu"
  shows "safeU (\<exists>insn. step_executes vt pc df cpu insn \<and> arith_undefined (decode insn) cpu)
    (\<lambda>(npc, ev, cpu'). good cpu') (cpu_step vt pc df cpu)" (is "safeU ?D ?Q _")
proof -
  let ?f = "\<lambda>insn out. bnd out (\<lambda>(npc, excp, cpu'). Inr (npc, \<lparr>ev_excp = excp, ev_insn = insn\<rparr>, cpu'))"
  obtain ki where ki: "ni = 2 ^ ki" using sizes(1) by blast
  let ?c1 = "if df then Inr cpu else on_msr (tsc_clk (IRQ_TSC cpu)) cpu"
  have c1: "safeE (\<lambda>cpu1. good cpu1 \<and> ?c1 = Inr cpu1 \<and> regfile cpu1 = regfile cpu) ?c1"
    using assms tsc_clk_good [OF assms] by (auto simp: safeE_def on_msr_def split: sum.splits)
  show ?thesis
    unfolding cpu_step_def Let_def
  proof (rule safeU_bnd [OF safeE_U [OF c1]])
    fix cpu1 assume 1: "good cpu1 \<and> ?c1 = Inr cpu1 \<and> regfile cpu1 = regfile cpu"
    then have g: "good cpu1" by blast
    let ?irq = "irqc_handle_irqs (cpu_msr cpu1) = - EM_IRQ"
    let ?t = "immu_translate_vma (immu_tlb_count cpu1) (immu_enable_uncached_seg cpu1) (cpu_msr cpu1) pc"
    note exc = step_out_good [OF exception_good [OF g]]
    have t: "safeE (\<lambda>(r, pa, u). ?t = Inr (r, pa, u) \<and> (pa = None \<longrightarrow> r = - EM_PAGE_FAULT \<or> r = - EM_TLB_MISS)) ?t"
      using immu_safe [of ki nd "cpu_msr cpu1" "immu_enable_uncached_seg cpu1" pc] goodD(7,10) [OF g]
      by (auto simp: ki safeE_def split: sum.splits)
    have f: "safeE (\<lambda>(insn, cpu2). good cpu2 \<and> fetch_insn vt pa u cpu1 = Inr (insn, cpu2)) (fetch_insn vt pa u cpu1)" for pa u
      using fetch_insn_good [OF g, of pa u] by (auto simp: safeE_def split: sum.splits)
    have exec: "safeU ?D ?Q (bnd (pcq_push pc insn (pc_queue cpu2)) (\<lambda>q. ?f (Some insn) (exec_insn vt pc (decode insn) (cpu2\<lparr>pc_queue := q\<rparr>))))"
      if "good cpu2" "\<not> ?irq" "?t = Inr (r, Some pa, u)" "fetch_insn vt pa u cpu1 = Inr (insn, cpu2)" for cpu2 insn r pa u
    proof (rule safeU_mono [OF fetched_good [OF that(1)]])
      show "regfile cpu2 = regfile cpu" using fetch_insn_regs [OF that(4)] 1 by simp
      have "step_executes vt pc df cpu insn" unfolding step_executes_def using 1 that by blast
      then show "arith_undefined (decode insn) cpu \<Longrightarrow> ?D" by blast
    qed
    show "safeU ?D ?Q (if ?irq then ?f None (exception pc (vect_EIRQ cpu1) 0 False cpu1)
      else bnd ?t (\<lambda>(ret, pa, insn_uncached).
        if ret = - EM_PAGE_FAULT then ?f None (exception pc (vect_EIPF cpu1) pc False cpu1)
        else if ret = - EM_TLB_MISS then ?f None (exception pc (vect_EITM cpu1) pc False cpu1)
        else case pa of None \<Rightarrow> Inl Undefined
        | Some insn_pa \<Rightarrow> bnd (fetch_insn vt insn_pa insn_uncached cpu1) (\<lambda>(insn, cpu2).
            bnd (pcq_push pc insn (pc_queue cpu2)) (\<lambda>q.
            ?f (Some insn) (exec_insn vt pc (decode insn) (cpu2\<lparr>pc_queue := q\<rparr>))))))"
    proof (cases ?irq)
      case False
      show ?thesis
        unfolding if_not_P [OF False]
        by (rule safeU_bnd [OF safeE_U [OF t]])
          (auto intro!: exc safeU_bnd [OF safeE_U [OF f]] exec [OF _ False] split: option.split)
    qed (use exc in simp)
  qed
qed

end

section \<open>The machine with its device tree\<close>

lemma machine_devices:
  assumes "0 \<le> tsc" "tsc < 32" "tsc \<noteq> 1"
  shows "cpu_devices dev_vt (dev_window base) (dev_inv base (2 ^ ki) (2 ^ kd)) (2 ^ ki) (2 ^ kd) tsc"
proof unfold_locales
  fix m m' dv
  assume "dev_inv base (2 ^ ki) (2 ^ kd) (m, dv)" "msr_wf (2 ^ ki) (2 ^ kd) m'" "\<And>n. n \<noteq> nat tsc \<Longrightarrow> bit (IRR m') n = bit (IRR m) n"
  moreover from this(3) [of 1] assms have "bit (IRR m') 1 = bit (IRR m) 1" by (simp add: nat_eq_iff)
  ultimately show "dev_inv base (2 ^ ki) (2 ^ kd) (m', dv)" by (auto simp: dev_inv_def uart_ok_def)
qed (use assms in \<open>auto simp: dev_inv_def\<close>)

text \<open>With the default channel of the timer.\<close>

interpretation machine: cpu_devices dev_vt "dev_window base" "dev_inv base (2 ^ ki) (2 ^ kd)" "2 ^ ki" "2 ^ kd" 0 for base ki kd
  by (rule machine_devices) simp_all

abbreviation machine_ok :: "phy_addr_t \<Rightarrow> nat \<Rightarrow> nat \<Rightarrow> int \<Rightarrow> (dev_cb, DeviceTree) CPU \<Rightarrow> bool" where
  "machine_ok base ki kd \<equiv> cpu_inv (dev_window base) (dev_inv base (2 ^ ki) (2 ^ kd)) (2 ^ ki) (2 ^ kd)"

subsection \<open>Construction\<close>

text \<open>The indeterminate contents have the sizes of what was allocated; the caches have as many ways as sets.\<close>

definition raw_shape :: "nat \<Rightarrow> nat \<Rightarrow> nat \<Rightarrow> nat \<Rightarrow> nat \<Rightarrow> nat \<Rightarrow> raw_init \<Rightarrow> bool" where
  "raw_shape ki kd pi li pd ld raw \<longleftrightarrow> msr_wf (2 ^ ki) (2 ^ kd) (raw_msr raw) \<and> length (raw_mem raw) < 2 ^ 63 \<and>
     rect (raw_idirty raw) (2 ^ pi) (2 ^ pi) \<and> rect (raw_ilines raw) (2 ^ pi) (2 ^ pi) \<and>
     (\<forall>w < 2 ^ pi. \<forall>s < 2 ^ pi. length (raw_ilines raw ! w ! s) = 2 ^ li) \<and> li + pi < 32 \<and>
     rect (raw_ddirty raw) (2 ^ pd) (2 ^ pd) \<and> rect (raw_dlines raw) (2 ^ pd) (2 ^ pd) \<and>
     (\<forall>w < 2 ^ pd. \<forall>s < 2 ^ pd. length (raw_dlines raw ! w ! s) = 2 ^ ld) \<and> ld + pd < 32"

lemma CPU_new_ok:
  assumes "raw_shape ki kd pi li pd ld raw" "mb \<le> me"
  shows "\<exists>cpu. CPU_new raw dv (2 ^ kd) (2 ^ ki) dseg iseg en_i en_d (pi, pi, li) (pd, pd, ld) dram mb me tsc v1 v2 v3 v4 v5 v6 v7 v8 = Inr cpu \<and>
    Memory_new True (raw_mem raw) dram mb me = Inr (cpu_mem cpu) \<and> cache_wf (icache cpu) \<and> cache_wf (dcache cpu) \<and>
    pcq_wf (pc_queue cpu) \<and> ras_wf (cpu_ras cpu) \<and> immu_tlb_count cpu = 2 ^ ki \<and> dmmu_tlb_count cpu = 2 ^ kd \<and> IRQ_TSC cpu = tsc \<and>
    cpu_msr cpu = msr_reset (raw_msr raw)"
proof -
  have s: "rect (raw_idirty raw) (2 ^ pi) (2 ^ pi)" "rect (raw_ilines raw) (2 ^ pi) (2 ^ pi)"
    "\<forall>w < 2 ^ pi. \<forall>s < 2 ^ pi. length (raw_ilines raw ! w ! s) = 2 ^ li" "li + pi < 32"
    "rect (raw_ddirty raw) (2 ^ pd) (2 ^ pd)" "rect (raw_dlines raw) (2 ^ pd) (2 ^ pd)"
    "\<forall>w < 2 ^ pd. \<forall>s < 2 ^ pd. length (raw_dlines raw ! w ! s) = 2 ^ ld" "ld + pd < 32"
    using assms(1) by (auto simp: raw_shape_def)
  obtain ci where ci: "Cache_new (raw_idirty raw) (raw_ilines raw) en_i pi pi li = Inr ci" "cache_wf ci"
    using Cache_new_ok [OF s(1-4), of en_i] by blast
  obtain cd where cd: "Cache_new (raw_ddirty raw) (raw_dlines raw) en_d pd pd ld = Inr cd" "cache_wf cd"
    using Cache_new_ok [OF s(5-8), of en_d] by blast
  show ?thesis
    using assms(2) ci cd pcq_wf_new(1) ras_wf_new by (simp add: CPU_new_def Memory_new_def not_le)
qed

lemma Memory_new_fields:
  "Memory_new c raw dram mb me = Inr M \<Longrightarrow> memory M = raw \<and> dram_phy_start M = dram"
  by (auto simp: Memory_new_def)

lemma machine_boot:
  assumes "raw_shape ki kd pi li pd ld raw" "mb \<le> me" "unat mb \<le> 0xC0000000" "length raw_flash = 0x10000000"
  shows "\<exists>cpu dt M. CPU_new raw dv (2 ^ kd) (2 ^ ki) dseg iseg en_i en_d (pi, pi, li) (pd, pd, ld) dram mb me tsc v1 v2 v3 v4 v5 v6 v7 v8 = Inr cpu \<and>
    DeviceTree_new raw_uart raw_flash True mb (Some bytes) v (cpu_mem cpu) = Inr (dt, M) \<and>
    machine_ok mb ki kd tsc (cpu_reset rv (cpu\<lparr>cpu_mem := M, cpu_dev := dt\<rparr>)) \<and>
    memory M = raw_mem raw \<and> dram_phy_start M = dram"
proof -
  obtain cpu :: "(dev_cb, DeviceTree) CPU" where
      cpu: "CPU_new raw dv (2 ^ kd) (2 ^ ki) dseg iseg en_i en_d (pi, pi, li) (pd, pd, ld) dram mb me tsc v1 v2 v3 v4 v5 v6 v7 v8 = Inr cpu"
      "Memory_new True (raw_mem raw) dram mb me = Inr (cpu_mem cpu)" "cache_wf (icache cpu)" "cache_wf (dcache cpu)"
      "pcq_wf (pc_queue cpu)" "ras_wf (cpu_ras cpu)" "immu_tlb_count cpu = 2 ^ ki" "dmmu_tlb_count cpu = 2 ^ kd" "IRQ_TSC cpu = tsc"
      "cpu_msr cpu = msr_reset (raw_msr raw)"
    using CPU_new_ok [OF assms(1,2), of dv dseg iseg en_i en_d dram tsc v1 v2 v3 v4 v5 v6 v7 v8] by blast
  have len: "length (raw_mem raw) < 2 ^ 63" and wf: "msr_wf (2 ^ ki) (2 ^ kd) (raw_msr raw)"
    using assms(1) by (simp_all add: raw_shape_def)
  let ?m = "msr_reset (cpu_msr cpu)"
  have m: "msr_wf (2 ^ ki) (2 ^ kd) ?m" "\<not> bit (IRR ?m) 1" using wf by (simp_all add: cpu(10)) (simp add: msr_reset_def)
  obtain dt M where dt: "DeviceTree_new raw_uart raw_flash True mb (Some bytes) v (cpu_mem cpu) = Inr (dt, M)"
      "bus_inv (dev_window mb) (dev_inv mb (2 ^ ki) (2 ^ kd)) (M, (?m, dt))"
    using DeviceTree_new_inv [OF cpu(2) len assms(4,3) m] by blast
  have "machine_ok mb ki kd tsc (cpu_reset rv (cpu\<lparr>cpu_mem := M, cpu_dev := dt\<rparr>))"
    using cpu(3-9) dt(2) by (simp add: cpu_inv_def cpu_reset_def cpu_bus_def)
  moreover have "memory M = raw_mem raw" "dram_phy_start M = dram"
    using DeviceTree_new_memory [OF dt(1)] Memory_new_fields [OF cpu(2)] by simp_all
  ultimately show ?thesis using cpu(1) dt(1) by blast
qed

subsection \<open>The interpreter is memory safe\<close>

text \<open>
  Claim C9: every step of a well-formed machine, of whatever instruction, with caches, translation and devices in any well-formed
  state, ends in a well-formed machine, or ends the process with a diagnosis, or has undefined behaviour only
  because the instruction it executes is a shift by 32 or more or a division that C++ does not define. No array is left, no table
  is missed, no assertion of the caches fails.
\<close>

theorem cpu_step_defined:
  assumes "machine_ok base ki kd tsc cpu" "0 \<le> tsc" "tsc < 32" "tsc \<noteq> 1"
  shows "case cpu_step dev_vt pc difftest cpu of
      Inr (npc, ev, cpu') \<Rightarrow> machine_ok base ki kd tsc cpu'
    | Inl e \<Rightarrow> e \<noteq> AssertFail \<and>
        (e = Undefined \<longrightarrow> (\<exists>insn. step_executes dev_vt pc difftest cpu insn \<and> arith_undefined (decode insn) cpu))"
  using cpu_devices.cpu_step_good [OF machine_devices [OF assms(2-4)] assms(1), of pc difftest]
  by (simp add: safeU_def split: sum.splits prod.splits)

definition small_raw :: raw_init where
  "small_raw = \<lparr>raw_pc = 0, raw_msr = msr_zero 1 1, raw_regs = replicate 32 0, raw_mem = replicate 4096 0,
     raw_idirty = [[False]], raw_ilines = [[[0, 0, 0, 0]]], raw_ddirty = [[False]], raw_dlines = [[[0, 0, 0, 0]]]\<rparr>"

lemma small_raw_shape: "raw_shape 0 0 0 2 0 2 small_raw"
  by (simp add: raw_shape_def small_raw_def rect_def)

definition vu0 :: virt_uart where
  "vu0 = \<lparr>vu_inited = False, vu_in_difftest = False, vu_dat = 0, vu_dat_pending_for_difftest = False, vu_stdout = []\<rparr>"

theorem cpu_step_defined_witness:
  "\<exists>cpu dt M. CPU_new small_raw undefined 1 1 True True True True (0, 0, 2) (0, 0, 2) 0x80000000 0 0x7fffffff 0
       0x4 0x8 0xc 0x14 0x18 0x1c 0x20 0x24 = Inr cpu \<and>
     DeviceTree_new (pb_uart_reset undefined) (replicate 0x10000000 0) True 0 (Some [1, 2, 3]) vu0 (cpu_mem cpu) = Inr (dt, M) \<and>
     (case cpu_step dev_vt 0x80000000 False (cpu_reset 0x80000000 (cpu\<lparr>cpu_mem := M, cpu_dev := dt\<rparr>)) of
        Inr (npc, ev, cpu') \<Rightarrow> machine_ok 0 0 0 0 cpu' | Inl e \<Rightarrow> e \<noteq> AssertFail)"
proof -
  obtain cpu dt M where b: "CPU_new small_raw undefined (2 ^ 0) (2 ^ 0) True True True True (0, 0, 2) (0, 0, 2) 0x80000000 0 0x7fffffff 0
       0x4 0x8 0xc 0x14 0x18 0x1c 0x20 0x24 = Inr cpu"
     "DeviceTree_new (pb_uart_reset undefined) (replicate 0x10000000 0) True 0 (Some [1, 2, 3]) vu0 (cpu_mem cpu) = Inr (dt, M)"
     "machine_ok 0 0 0 0 (cpu_reset 0x80000000 (cpu\<lparr>cpu_mem := M, cpu_dev := dt\<rparr>))"
    using machine_boot [OF small_raw_shape, of 0 "0x7fffffff" "replicate 0x10000000 0" undefined True True True True "0x80000000" 0
        "0x4" "0x8" "0xc" "0x14" "0x18" "0x1c" "0x20" "0x24" "pb_uart_reset undefined" "[1, 2, 3]" vu0 "0x80000000"] by auto
  then show ?thesis
    using cpu_step_defined [OF b(3), of "0x80000000" False]
    by (intro exI [of _ cpu] exI [of _ dt] exI [of _ M]) (auto split: sum.splits)
qed

end
