(* ===== verification/Axi4CrossbarProps.thy ===== *)
theory Axi4CrossbarProps
  imports Axi4Crossbar
begin

text \<open>
  What the crossbar guarantees: a write beat changes exactly the bytes of its lanes, a read burst returns the memory at the addresses of its
  beats, and on every sequence of master signals undefined behaviour comes only from the two kinds of bursts the code does not handle: a read
  of 256 beats, and beats of 8 bytes that can reach the device window.
\<close>

section \<open>Single beats\<close>

lemma bytelane_less [simp]: "bytelane a < 8"
  using unat_and_mask_less [of a 3] by (simp add: bytelane_def)

lemma bytelane_mod: "bytelane a = unat a mod 8"
  using unat_and_mask_mod [of a 3] by (simp add: bytelane_def)

lemma byte_of_drop: "byte_of k (drop_bit (8 * l) v) = byte_of (l + k) v"
  by (simp add: byte_of_def distrib_left add.commute)

lemma byte_of_ucast:
  "k < 4 \<Longrightarrow> byte_of k (ucast v :: u32) = byte_of k v" "k < 2 \<Longrightarrow> byte_of k (ucast v :: u16) = byte_of k v"
  "byte_of 0 (ucast v :: u8) = byte_of 0 v" for v :: u64
  by (rule bit_eqI, auto simp: byte_of_def bit_simps)+

definition mem_val :: "'cb Memory \<Rightarrow> phy_addr_t \<Rightarrow> nat \<Rightarrow> u64" where
  "mem_val M a n = (if n = 8 then dword_at M a else if n = 4 then ucast (word_at M a)
     else if n = 2 then ucast (half_at M a) else ucast (cell M a))"

lemma pread_dram:
  assumes "mem_wf M" and "bs \<in> {1, 2, 4, 8}" and "dram_range M (ucast a) (unat bs)"
  shows "pread vt a bs (M, d) = Inr (push_bit (8 * bytelane a) (mem_val M (ucast a) (unat bs)), (M, d))"
  using assms
  by (auto simp: pread_def mem_val_def phy_readm64_dram phy_readm32_dram phy_readm16_dram phy_readm8_dram dram_range_def)

text \<open>What a store of one beat leaves: its bytes in the range, and everything else as it was.\<close>

definition stored :: "'cb Memory \<Rightarrow> phy_addr_t \<Rightarrow> nat \<Rightarrow> (nat \<Rightarrow> u8) \<Rightarrow> 'cb Memory \<Rightarrow> bool" where
  "stored M a n f M' \<longleftrightarrow> (\<forall>k < n. cell M' (a + of_nat k) = f k) \<and> (\<forall>b. n \<le> unat (b - a) \<longrightarrow> cell M' b = cell M b) \<and>
     M'\<lparr>memory := []\<rparr> = M\<lparr>memory := []\<rparr> \<and> mem_wf M'"

lemma beyond_range: "n \<le> unat (b - a) \<Longrightarrow> k < n \<Longrightarrow> n \<le> 8 \<Longrightarrow> b \<noteq> a + of_nat k" for a b :: u32
  by (auto simp: unat_of_nat)

lemma set_cells_stored:
  assumes "mem_wf M"
  shows "dram_range M a 8 \<Longrightarrow> stored M a 8 f (set_cells a [f 0, f 1, f 2, f 3, f 4, f 5, f 6, f 7] M)"
    "dram_range M a 4 \<Longrightarrow> stored M a 4 f (set_cells a [f 0, f 1, f 2, f 3] M)"
    "dram_range M a 2 \<Longrightarrow> stored M a 2 f (set_cells a [f 0, f 1] M)"
    "dram_range M a 1 \<Longrightarrow> stored M a 1 f (set_cell a (f 0) M)"
proof -
  note B = beyond_range [of _ _ a 0] beyond_range [of _ _ a 1] beyond_range [of _ _ a 2] beyond_range [of _ _ a 3]
    beyond_range [of _ _ a 4] beyond_range [of _ _ a 5] beyond_range [of _ _ a 6] beyond_range [of _ _ a 7]
  note S = stored_def all_less set_cells_rest assms
  show "stored M a 8 f (set_cells a [f 0, f 1, f 2, f 3, f 4, f 5, f 6, f 7] M)" if r: "dram_range M a 8"
    using B [of 8] unfolding stored_def cell_set_cells_8 [OF assms r] by (auto simp: S)
  show "stored M a 4 f (set_cells a [f 0, f 1, f 2, f 3] M)" if r: "dram_range M a 4"
    using B [of 4] unfolding stored_def cell_set_cells_4 [OF assms r] by (auto simp: S)
  show "stored M a 2 f (set_cells a [f 0, f 1] M)" if r: "dram_range M a 2"
    using B [of 2] unfolding stored_def cell_set_cells_2 [OF assms r] by (auto simp: S)
  show "stored M a 1 f (set_cell a (f 0) M)" if r: "dram_range M a 1"
  proof -
    have "dram_at M a" using r by (simp add: dram_range_def)
    then show ?thesis using B [of 1] assms by (auto simp: stored_def cell_set_cell) (simp_all add: set_cell_def)
  qed
qed

lemma pwrite_dram:
  assumes "mem_wf M" and "bs \<in> {1, 2, 4, 8}" and "dram_range M (ucast a) (unat bs)"
  shows "\<exists>M'. pwrite vt a dat bs (M, d) = Inr (M', d) \<and>
    stored M (ucast a) (unat bs) (\<lambda>k. byte_of (bytelane a + k) dat) M'"
proof -
  let ?f = "\<lambda>k. byte_of (bytelane a + k) dat"
  note S = set_cells_stored [OF assms(1), of "ucast a" ?f]
  note B = byte_of_ucast byte_of_drop pwrite_def Let_def
  have "bs = 8 \<or> bs = 4 \<or> bs = 2 \<or> bs = 1" using assms(2) by auto
  then show ?thesis
  proof (elim disjE)
    assume b: "bs = 8"
    with assms S(1) show ?thesis by (auto simp: B phy_writem64_dram)
  next
    assume b: "bs = 4"
    with assms S(2) show ?thesis by (auto simp: B phy_writem32_dram)
  next
    assume b: "bs = 2"
    with assms S(3) show ?thesis by (auto simp: B phy_writem16_dram)
  next
    assume b: "bs = 1"
    then have r: "dram_range M (ucast a) 1" "dram_at M (ucast a)" using assms(3) by (simp_all add: dram_range_def)
    have "(ucast (drop_bit (8 * bytelane a) dat) :: u8) = ?f 0" by (simp add: byte_of_def)
    then show ?thesis using b S(4) [OF r(1)] assms(1) r(2) by (auto simp: B phy_writem8_dram)
  qed
qed

lemma excp_wstrb_bits:
  assumes "excp_wstrb a bs = Some w" and "j < 8"
  shows "bit w j \<longleftrightarrow> bytelane a \<le> j \<and> j < bytelane a + unat bs"
proof -
  have m: "(0xff :: u32) = mask 8" "(0xf :: u32) = mask 4" "(3 :: u32) = mask 2" "(1 :: u32) = mask 1"
    by (simp_all add: mask_eq_exp_minus_1)
  have "bytelane a < 8" by simp
  then show ?thesis
    using assms unfolding excp_wstrb_def Let_def m
    by (auto split: if_splits simp: bit_simps)
qed

definition beat_addr :: "Axi4CrossbarRequest \<Rightarrow> u64" where
  "beat_addr rq = rq_address rq + ucast (rq_offset rq) * ucast (rq_size rq)"

text \<open>
  Claim C14: a write beat to DRAM changes exactly the bytes of its lanes. When a data beat fires for an open write request with beats left, at an address of DRAM
  whose bytes lie in one 64-bit word of the bus, the crossbar checks the strobe: with the strobe that address and size imply, byte
  \<open>k\<close> of the beat takes the data of its lane, every other byte of memory keeps its value, no device is touched and the beat is counted;
  with any other strobe the process stops on an assertion.
\<close>

theorem axi_write_beat:
  assumes "axi_check_wdata_fire axi" and "wait_req_w xb = Some p" and "xb_heap xb p = Some rq" and "xb_mem xb = (M, d)"
    and "mem_wf M" and "rq_size rq \<in> {1, 2, 4, 8}" and "dram_range M (ucast (beat_addr rq)) (unat (rq_size rq))"
    and "bytelane (beat_addr rq) + unat (rq_size rq) \<le> 8" and "w_data (ax_w axi) = w # ws" and "rq_offset rq < rq_len rq"
  shows "if excp_wstrb (beat_addr rq) (rq_size rq) = Some (w_strb (ax_w axi))
    then \<exists>M'. rising_wdata vt axi xb = Inr (store_req p (rq\<lparr>rq_offset := rq_offset rq + 1\<rparr>) (xb\<lparr>xb_mem := (M', d)\<rparr>)) \<and>
      stored M (ucast (beat_addr rq)) (unat (rq_size rq)) (\<lambda>k. byte_of (bytelane (beat_addr rq) + k) w) M'
    else rising_wdata vt axi xb = Inl AssertFail"
proof -
  let ?a = "beat_addr rq" and ?n = "unat (rq_size rq)"
  let ?merge = "\<lambda>v. map (\<lambda>i. if bit (w_strb (ax_w axi)) i then byte_of i w else word_bytes v ! i) [0..<8]"
  define v where "v = push_bit (8 * bytelane ?a) (mem_val M (ucast ?a) ?n)"
  have r: "pread vt ?a (rq_size rq) (M, d) = Inr (v, (M, d))"
    unfolding v_def by (rule pread_dram [OF assms(5-7)])
  have g: "axi_get_wdata axi (word_bytes v) 8 = Inr (?merge v)"
    by (rule axi_get_wdata_merge [OF word_bytes_nth(1) assms(9)])
  have sz: "rq_size rq \<le> 8" using assms(6) by auto
  have off: "rq_offset rq + 1 \<le> rq_len rq" using assms(10) by (simp add: inc_le)
  have e: "rising_wdata vt axi xb =
      bnd (check_wstrb ?a (w_strb (ax_w axi)) (rq_size rq)) (\<lambda>_. bnd (pwrite vt ?a (bytes_word (?merge v)) (rq_size rq) (M, d)) (\<lambda>s2.
        Inr (store_req p (rq\<lparr>rq_offset := rq_offset rq + 1\<rparr>) (xb\<lparr>xb_mem := s2\<rparr>))))"
    using assms(1-4) r g sz off
    by (simp add: rising_wdata_def deref_def beat_addr_def [symmetric] Let_def del: upt_Suc)
  show ?thesis
  proof (cases "excp_wstrb ?a (rq_size rq) = Some (w_strb (ax_w axi))")
    case True
    obtain M' where p: "pwrite vt ?a (bytes_word (?merge v)) (rq_size rq) (M, d) = Inr (M', d)"
      "stored M (ucast ?a) ?n (\<lambda>k. byte_of (bytelane ?a + k) (bytes_word (?merge v))) M'"
      using pwrite_dram [OF assms(5-7), of vt "bytes_word (?merge v)" d] by blast
    have "byte_of (bytelane ?a + k) (bytes_word (?merge v)) = byte_of (bytelane ?a + k) w" if "k < ?n" for k
      using that assms(8) excp_wstrb_bits [OF True, of "bytelane ?a + k"] by (subst byte_of_bytes_word) auto
    then have "stored M (ucast ?a) ?n (\<lambda>k. byte_of (bytelane ?a + k) w) M'"
      using p(2) by (simp add: stored_def)
    then show ?thesis using e p(1) True by (auto simp: check_wstrb_def simp del: upt_Suc)
  next
    case False
    then show ?thesis using e by (simp add: check_wstrb_def)
  qed
qed

section \<open>Bursts\<close>

lemma beat_splice:
  "i < length data \<Longrightarrow> take (Suc i) (data[i := f 0]) @ map (\<lambda>j. f (Suc j)) [0..<n] @ drop (Suc i + n) (data[i := f 0]) =
     take i data @ map f [0..<Suc n] @ drop (i + Suc n) data"
  by (simp add: take_Suc_conv_app_nth map_upt_Suc del: upt_Suc)

lemma read_incr_beats:
  assumes "\<And>j. j < n \<Longrightarrow> pread vt (a + of_nat j * bs) (ucast bs) s = Inr (f j, s)" and "i + n \<le> length data"
  shows "read_incr vt bs n i a data s = Inr (take i data @ map f [0..<n] @ drop (i + n) data, s)"
  using assms
proof (induction n arbitrary: i a data f)
  case 0
  then show ?case by simp
next
  case (Suc n)
  have "read_incr vt bs n (Suc i) (a + bs) (data[i := f 0]) s =
      Inr (take (Suc i) (data[i := f 0]) @ map (\<lambda>j. f (Suc j)) [0..<n] @ drop (Suc i + n) (data[i := f 0]), s)"
  proof (rule Suc.IH)
    show "pread vt (a + bs + of_nat j * bs) (ucast bs) s = Inr (f (Suc j), s)" if "j < n" for j
      using Suc.prems(1) [of "Suc j"] that by (simp add: algebra_simps)
    show "Suc i + n \<le> length (data[i := f 0])" using Suc.prems(2) by simp
  qed
  then show ?case
    using Suc.prems(1) [of 0] Suc.prems(2) beat_splice [of i data f n] by (simp del: upt_Suc)
qed

text \<open>The addresses of a wrapping burst as the loop computes them.\<close>

fun wrap_seq :: "u64 \<Rightarrow> u64 \<Rightarrow> u64 \<Rightarrow> nat \<Rightarrow> u64 \<Rightarrow> u64" where
  "wrap_seq low high bs 0 a = (if a = high then low else a)"
| "wrap_seq low high bs (Suc j) a = wrap_seq low high bs j ((if a = high then low else a) + bs)"

lemma read_wrap_beats:
  assumes "\<And>j. j < n \<Longrightarrow> pread vt (wrap_seq low high bs j a) (ucast bs) s = Inr (f j, s)" and "i + n \<le> length data"
  shows "read_wrap vt bs low high n i a data s = Inr (take i data @ map f [0..<n] @ drop (i + n) data, s)"
  using assms
proof (induction n arbitrary: i a data f)
  case 0
  then show ?case by simp
next
  case (Suc n)
  let ?a = "if a = high then low else a"
  have "read_wrap vt bs low high n (Suc i) (?a + bs) (data[i := f 0]) s =
      Inr (take (Suc i) (data[i := f 0]) @ map (\<lambda>j. f (Suc j)) [0..<n] @ drop (Suc i + n) (data[i := f 0]), s)"
  proof (rule Suc.IH)
    show "pread vt (wrap_seq low high bs j (?a + bs)) (ucast bs) s = Inr (f (Suc j), s)" if "j < n" for j
      using Suc.prems(1) [of "Suc j"] that by simp
    show "Suc i + n \<le> length (data[i := f 0])" using Suc.prems(2) by simp
  qed
  then show ?case
    using Suc.prems(1) [of 0] Suc.prems(2) beat_splice [of i data f n] by (simp add: Let_def del: upt_Suc)
qed

lemma wrap_seq_nat:
  assumes "unat a = unat low + off" and "off \<le> T" and "unat high = unat low + T" and "s dvd off" and "s dvd T" and "0 < T"
    and "unat bs = s" and "unat low + T + s < 2 ^ 64"
  shows "unat (wrap_seq low high bs j a) = unat low + (off + j * s) mod T"
  using assms(1,2,4)
proof (induction j arbitrary: a off)
  case (0 a off)
  have "a = high \<longleftrightarrow> off = T" using 0(1) assms(3) by (simp add: word_unat_eq_iff)
  then show ?case using 0 by (cases "off = T") simp_all
next
  case (Suc j a off)
  let ?a = "if a = high then low else a" and ?o = "off mod T"
  have "a = high \<longleftrightarrow> off = T" using Suc.prems(1) assms(3) by (simp add: word_unat_eq_iff)
  then have f: "unat ?a = unat low + ?o" using Suc.prems by (cases "off = T") simp_all
  have o: "?o < T" "s dvd ?o" using Suc.prems assms by (simp_all add: dvd_mod)
  then have "s dvd T - ?o" "0 < T - ?o" using assms(5) by (simp_all add: dvd_diff_nat)
  then have "s \<le> T - ?o" by (rule dvd_imp_le)
  then have le: "?o + s \<le> T" using o(1) by linarith
  then have "unat ?a + unat bs < 2 ^ LENGTH(64)" using f assms(7,8) by (simp del: if_split)
  then have "unat (?a + bs) = unat ?a + unat bs" by (rule unat_add_lem [THEN iffD1])
  then have u: "unat (?a + bs) = unat low + (?o + s)" using f assms(7) by linarith
  have "s dvd ?o + s" using o(2) by simp
  from Suc.IH [OF u le this]
  have "unat (wrap_seq low high bs j (?a + bs)) = unat low + (?o + s + j * s) mod T" .
  also have "(?o + s + j * s) mod T = (off + Suc j * s) mod T"
    by (metis add.assoc mod_add_left_eq mult_Suc)
  finally show ?case by simp
qed

text \<open>The specification: the address of beat \<open>i\<close> of a burst of \<open>n\<close> beats of \<open>s\<close> bytes, incrementing or wrapping.\<close>

definition burst_addr :: "u8 \<Rightarrow> nat \<Rightarrow> nat \<Rightarrow> nat \<Rightarrow> nat \<Rightarrow> nat" where
  "burst_addr burst a s n i =
     (if burst = 1 then a + i * s else (let T = s * n; low = a div T * T in low + (a - low + i * s) mod T))"

definition beat_word :: "'cb Memory \<Rightarrow> nat \<Rightarrow> nat \<Rightarrow> u64" where
  "beat_word M a s = push_bit (8 * (a mod 8)) (mem_val M (of_nat a) s)"

lemma pread_nat:
  assumes "mem_wf M" and "s \<in> {1, 2, 4, 8}" and "dram_range M (of_nat x) s" and "unat (a :: u64) = x"
  shows "pread vt a (of_nat s) (M, d) = Inr (beat_word M x s, (M, d))"
proof -
  have u: "unat (of_nat s :: u8) = s" "(of_nat s :: u8) \<in> {1, 2, 4, 8}" using assms(2) by auto
  have c: "(ucast a :: u32) = of_nat x" using assms(4) by (auto simp: word_unat_eq_iff unat_of_nat unsigned_ucast_eq take_bit_eq_mod)
  show ?thesis
    using pread_dram [of M "of_nat s" a vt d] assms u c by (simp add: beat_word_def bytelane_mod)
qed

lemma pread_beat:
  assumes "mem_wf M" and "s \<in> {1, 2, 4, 8}" and "dram_range M (of_nat x) s" and "unat (a :: u64) = x"
  shows "pread vt a (ucast (of_nat s :: u64)) (M, d) = Inr (beat_word M x s, (M, d))"
proof -
  have "(ucast (of_nat s :: u64) :: u8) = of_nat s" using assms(2) by auto
  then show ?thesis using pread_nat [OF assms] by simp
qed

lemma burst_size: "s \<in> {1, 2, 4, 8} \<Longrightarrow> n \<le> 64 \<Longrightarrow> s * n \<le> 512" "s \<in> {1, 2, 4, 8} \<Longrightarrow> unat (of_nat s :: u64) = s"
  using mult_le_mono [of s 8 n 64] by auto

lemma read_incr_burst:
  assumes "mem_wf M" and s: "s \<in> {1, 2, 4, 8}" and n: "n \<le> 64" and a: "unat a < 2 ^ 32" and data: "length data = 64"
    and ram: "\<forall>i < n. dram_range M (of_nat (burst_addr 1 (unat a) s n i)) s"
  shows "read_incr vt (of_nat s) n 0 a data (M, d) =
    Inr (map (\<lambda>i. beat_word M (burst_addr 1 (unat a) s n i) s) [0..<n] @ drop n data, (M, d))"
proof -
  let ?bs = "of_nat s :: u64" and ?b = "\<lambda>i. burst_addr 1 (unat a) s n i"
  have addr: "unat (a + of_nat j * ?bs) = ?b j" if j: "j < n" for j
  proof -
    have "j * s \<le> n * s" using j by (intro mult_le_mono1) simp
    also have "\<dots> \<le> 512" using burst_size(1) [OF s n] by (simp add: mult.commute)
    finally have "j * s \<le> 512" .
    then have "unat (of_nat j * ?bs) = j * s" by (simp add: unat_of_nat flip: of_nat_mult)
    then show ?thesis using \<open>j * s \<le> 512\<close> a by (simp add: unat_word_ariths burst_addr_def)
  qed
  have "pread vt (a + of_nat j * ?bs) (ucast ?bs) (M, d) = Inr (beat_word M (?b j) s, (M, d))" if "j < n" for j
    by (rule pread_beat [OF assms(1) s ram [rule_format, OF that] addr [OF that]])
  then show ?thesis using read_incr_beats [of n vt a ?bs "(M, d)" "\<lambda>j. beat_word M (?b j) s" 0 data] n data by simp
qed

lemma read_wrap_burst:
  fixes a ts :: u64
  assumes "mem_wf M" and s: "s \<in> {1, 2, 4, 8}" and n: "n \<le> 64" "0 < n" and a: "unat a < 2 ^ 32" and data: "length data = 64"
    and ts: "unat ts = s * n" and al: "s dvd unat a" and ram: "\<forall>i < n. dram_range M (of_nat (burst_addr 2 (unat a) s n i)) s"
  shows "read_wrap vt (of_nat s) (a div ts * ts) (a div ts * ts + ts) n 0 a data (M, d) =
    Inr (map (\<lambda>i. beat_word M (burst_addr 2 (unat a) s n i) s) [0..<n] @ drop n data, (M, d))"
proof -
  let ?low = "a div ts * ts" and ?T = "s * n" and ?bs = "of_nat s :: u64" and ?b = "\<lambda>i. burst_addr 2 (unat a) s n i"
  note sn = burst_size(1) [OF s n(1)]
  have s8: "s \<le> 8" using s by auto
  have T: "0 < ?T" using s n by auto
  have le: "unat a div ?T * ?T \<le> unat a" by simp
  have lt: "unat a div ?T * ?T < 2 ^ 32" using order.strict_trans1 [OF le a] .
  have d: "unat (a div ts) = unat a div ?T" by (simp only: unat_div ts)
  then have "unat (a div ts) * unat ts < 2 ^ LENGTH(64)" using lt by (simp add: ts)
  then have "unat ?low = unat (a div ts) * unat ts" by (rule unat_mult_lem [THEN iffD1])
  then have low: "unat ?low = unat a div ?T * ?T" by (simp only: d ts)
  have "unat (?low + ts) = unat ?low + ?T"
    by (rule trans [OF unat_add_lem [THEN iffD1]]) (use lt sn in \<open>simp_all add: low ts\<close>)
  moreover have "unat a = unat ?low + (unat a - unat ?low)" using low le by simp
  moreover have "unat a - unat ?low \<le> ?T" using low T by (simp add: minus_div_mult_eq_mod less_imp_le)
  moreover have "s dvd unat a - unat ?low" using al low by (simp add: dvd_diff_nat)
  moreover have "unat ?low + ?T + s < 2 ^ 64" using add_strict_mono [of _ _ "s * n + s" 1024] lt sn s8 unfolding low by simp
  ultimately have "unat (wrap_seq ?low (?low + ts) ?bs j a) = unat ?low + (unat a - unat ?low + j * s) mod ?T" for j
    using wrap_seq_nat [of a ?low _ ?T "?low + ts" s ?bs j] burst_size(2) [OF s] T by simp
  then have addr: "unat (wrap_seq ?low (?low + ts) ?bs j a) = ?b j" for j using low by (simp add: burst_addr_def Let_def)
  have "pread vt (wrap_seq ?low (?low + ts) ?bs j a) (ucast ?bs) (M, d) = Inr (beat_word M (?b j) s, (M, d))" if "j < n" for j
    by (rule pread_beat [OF assms(1) s ram [rule_format, OF that] addr])
  then show ?thesis
    using read_wrap_beats [of n vt ?low "?low + ts" ?bs a "(M, d)" "\<lambda>j. beat_word M (?b j) s" 0 data] n(1) data by simp
qed

text \<open>
  Claim C13: a read burst returns the memory at the addresses of its beats. For a burst of up to 64 beats of 1, 2, 4 or 8 bytes,
  within the limits of its address, incrementing or (aligned to its beat size) wrapping at the burst's own size, whose beats all lie in DRAM, word \<open>i\<close> of the reply holds
  the bytes at the address of beat \<open>i\<close> on the lanes of that address; neither memory nor devices change.
\<close>

theorem axi_read_burst:
  assumes "mem_wf M" and "ar_size ar < 4" and "ar_len ar < 64" and "ar_burst ar = 1 \<or> ar_burst ar = 2"
    and "unat (ar_len ar) + 1 \<le> unat (rq_max_burst_len rq)" and "2 ^ unat (ar_size ar) \<le> unat (rq_max_size rq)"
    and "length (rq_data rq) = 64" and "unat (ar_addr ar) < 2 ^ 32" and "ar_burst ar = 2 \<longrightarrow> 2 ^ unat (ar_size ar) dvd unat (ar_addr ar)"
    and "\<forall>i \<le> unat (ar_len ar). dram_range M
      (of_nat (burst_addr (ar_burst ar) (unat (ar_addr ar)) (2 ^ unat (ar_size ar)) (unat (ar_len ar) + 1) i)) (2 ^ unat (ar_size ar))"
  shows "axi_read_data vt ar rq (M, d) = Inr (rq\<lparr>
      rq_data := map (\<lambda>i. beat_word M (burst_addr (ar_burst ar) (unat (ar_addr ar)) (2 ^ unat (ar_size ar)) (unat (ar_len ar) + 1) i)
          (2 ^ unat (ar_size ar))) [0..<unat (ar_len ar) + 1] @ drop (unat (ar_len ar) + 1) (rq_data rq),
      rq_len := ar_len ar + 1, rq_size := 2 ^ unat (ar_size ar), rq_offset := 0, rq_id := ar_id ar\<rparr>, (M, d))"
proof -
  define s where "s = (2 :: nat) ^ unat (ar_size ar)"
  define n where "n = unat (ar_len ar) + 1"
  define a where "a = ar_addr ar"
  let ?bs = "of_nat s :: u64"
  have "unat (ar_size ar) \<in> {0, 1, 2, 3}" using assms(2) by (auto simp: word_less_nat_alt)
  then have s: "s \<in> {1, 2, 4, 8}" by (auto simp: s_def)
  have n: "n \<le> 64" "0 < n" using assms(3) by (simp_all add: n_def word_less_nat_alt)
  have bl: "unat (ar_len ar + 1) = n" using assms(3) by (simp add: n_def unat_word_ariths word_less_nat_alt)
  have sh: "shl1 (ar_size ar) = Inr (of_nat s)" using assms(2) by (simp add: shl1_def s_def word_less_nat_alt)
  have sc: "(scast (of_nat s :: u32) :: u64) = ?bs" "unat ?bs = s" using s by auto
  define ts where "ts = ?bs * ucast (ar_len ar + 1)"
  have ub: "unat (ucast (ar_len ar + 1) :: u64) = n" "unat (ucast (ar_len ar + 1) :: u32) = n" using bl by (simp_all add: unat_ucast_up)
  have ts: "unat ts = s * n" using ub(1) sc(2) burst_size(1) [OF s n(1)] by (simp add: ts_def unat_word_ariths)
  have ram: "\<forall>i < n. dram_range M (of_nat (burst_addr (ar_burst ar) (unat a) s n i)) s" using assms(10) by (simp add: a_def s_def n_def)
  have g: "?bs \<le> 8" "?bs \<noteq> 0" "ts mod ?bs = 0" "ts \<noteq> 0" "\<not> rq_max_burst_len rq < ucast (ar_len ar + 1)"
      "\<not> ucast (rq_max_size rq) < ?bs"
  proof -
    show "?bs \<le> 8" using s by auto
    show "?bs \<noteq> 0" "ts \<noteq> 0" using s sc(2) ts n by (auto simp: word_unat_eq_iff)
    show "ts mod ?bs = 0" using ts sc(2) by (simp add: word_unat_eq_iff unat_mod)
    show "\<not> rq_max_burst_len rq < ucast (ar_len ar + 1)" using assms(5) ub(2) by (simp add: word_less_nat_alt n_def)
    show "\<not> ucast (rq_max_size rq) < ?bs" using assms(6) sc(2) by (simp add: word_less_nat_alt unat_ucast_up s_def)
  qed
  have "(ucast ?bs :: u8) = of_nat s" using s by auto
  then have out: "(ucast ?bs :: u8) = 2 ^ unat (ar_size ar)" unfolding s_def by simp
  note E = axi_read_data_def sh bnd_simps Let_def sc(1) ts_def [symmetric] a_def [symmetric] s_def [symmetric] n_def [symmetric] bl
  note hyps = assms(1) s n(1)
  from assms(4) show ?thesis
  proof
    assume b: "ar_burst ar = 1"
    show ?thesis unfolding E out using g n(1) read_incr_burst [OF hyps assms(8) [folded a_def] assms(7) ram [unfolded b], of vt d] b
      by (simp add: out del: upt_Suc)
  next
    assume b: "ar_burst ar = 2"
    have al: "s dvd unat a" using assms(9) b by (simp add: a_def s_def)
    show ?thesis unfolding E out using g n(1) read_wrap_burst [OF hyps n(2) assms(8) [folded a_def] assms(7) ts al ram [unfolded b], of vt d] b
      by (simp add: out del: upt_Suc)
  qed
qed

section \<open>No use of deleted requests, no access outside the buffers\<close>

text \<open>An outcome without undefined behaviour; a failing assertion is how the crossbar reports a protocol violation.\<close>

definition definedE :: "('a \<Rightarrow> bool) \<Rightarrow> halt + 'a \<Rightarrow> bool" where
  "definedE Q r \<longleftrightarrow> (case r of Inl e \<Rightarrow> e \<noteq> Undefined | Inr x \<Rightarrow> Q x)"

lemma definedE_simps [simp]:
  "definedE Q (Inr x) = Q x" "definedE Q (Inl AssertFail)" "definedE Q (Inl (Panic c))" "definedE Q (Inl Undefined) = False"
  by (simp_all add: definedE_def)

lemma definedE_bnd: "definedE P m \<Longrightarrow> (\<And>x. P x \<Longrightarrow> definedE Q (f x)) \<Longrightarrow> definedE Q (bnd m f)"
  by (cases m) (auto simp: definedE_def)

lemma definedE_assert [simp]: "definedE Q (assertE b m) = (b \<longrightarrow> definedE Q m)"
  by (cases b) simp_all

lemma safeE_defined: "safeE P r \<Longrightarrow> (\<And>x. r = Inr x \<Longrightarrow> P x \<Longrightarrow> Q x) \<Longrightarrow> definedE Q r"
  by (cases r) (auto simp: safeE_def definedE_def)

context mmio_device
begin

lemma pread_defined:
  assumes "bus_ok window dinv W s" and "bs = 8 \<Longrightarrow> \<not> in_mmio W (ucast a)"
  shows "definedE (\<lambda>(v, s'). bus_ok window dinv W s') (pread vt a bs s)"
proof -
  have b: "bus_inv window dinv s" "bus_frame s = W" using assms(1) by (simp_all add: bus_ok_def)
  have m: "bs = 8 \<Longrightarrow> \<not> in_mmio (fst s) (ucast a)" using assms(2) b(2) in_mmio_frame [of s] by simp
  have "bs = 8 \<Longrightarrow> definedE (\<lambda>(v, s'). bus_ok window dinv W s') (phy_readm64 vt (ucast a) s)"
    by (rule safeE_defined [OF phy_readm64_safe [OF b(1) m]]) (auto simp: bus_ok_def b(2) dest: phy_read_frame)
  moreover have "definedE (\<lambda>(v, s'). bus_ok window dinv W s') (phy_readm32 vt (ucast a) s)"
    by (rule safeE_defined [OF phy_readm32_safe [OF b(1)]]) (auto simp: bus_ok_def b(2) dest: phy_read_frame)
  moreover have "definedE (\<lambda>(v, s'). bus_ok window dinv W s') (phy_readm16 vt (ucast a) s)"
    by (rule safeE_defined [OF phy_readm16_safe [OF b(1)]]) (auto simp: bus_ok_def b(2) dest: phy_read_frame)
  moreover have "definedE (\<lambda>(v, s'). bus_ok window dinv W s') (phy_readm8 vt (ucast a) s)"
    by (rule safeE_defined [OF phy_readm8_safe [OF b(1)]]) (auto simp: bus_ok_def b(2) dest: phy_readm8_frame)
  ultimately show ?thesis
    unfolding pread_def
    by (intro definedE_bnd [where P = "\<lambda>(v, s'). bus_ok window dinv W s'"]) (auto intro!: definedE_bnd)
qed

lemma pwrite_defined:
  assumes "bus_ok window dinv W s" and "bs = 8 \<Longrightarrow> \<not> in_mmio W (ucast a)"
  shows "definedE (bus_ok window dinv W) (pwrite vt a dat bs s)"
proof -
  have b: "bus_inv window dinv s" "bus_frame s = W" using assms(1) by (simp_all add: bus_ok_def)
  have m: "bs = 8 \<Longrightarrow> \<not> in_mmio (fst s) (ucast a)" using assms(2) b(2) in_mmio_frame [of s] by simp
  have "bs = 8 \<Longrightarrow> definedE (bus_ok window dinv W) (phy_writem64 vt (ucast a) v s)" for v
    by (rule safeE_defined [OF phy_writem64_safe [OF b(1) m]]) (auto simp: bus_ok_def b(2) dest: phy_write_frame)
  moreover have "definedE (bus_ok window dinv W) (phy_writem32 vt (ucast a) v s)" for v
    by (rule safeE_defined [OF phy_writem32_safe [OF b(1)]]) (auto simp: bus_ok_def b(2) dest: phy_write_frame)
  moreover have "definedE (bus_ok window dinv W) (phy_writem16 vt (ucast a) v s)" for v
    by (rule safeE_defined [OF phy_writem16_safe [OF b(1)]]) (auto simp: bus_ok_def b(2) dest: phy_write_frame)
  moreover have "definedE (bus_ok window dinv W) (phy_writem8 vt (ucast a) v s)" for v
    by (rule safeE_defined [OF phy_writem8_safe [OF b(1)]]) (auto simp: bus_ok_def b(2) dest: phy_writem8_frame)
  ultimately show ?thesis by (simp add: pwrite_def Let_def)
qed

lemma read_incr_defined:
  assumes "bus_ok window dinv W s" and "bs = 8 \<Longrightarrow> \<forall>j < n. \<not> in_mmio W (ucast (a + of_nat j * 8))" and "bs \<le> 8" and "i + n \<le> length data"
  shows "definedE (\<lambda>(data', s'). length data' = length data \<and> bus_ok window dinv W s') (read_incr vt bs n i a data s)"
  using assms
proof (induction n arbitrary: i a data s)
  case 0
  then show ?case by simp
next
  case (Suc n)
  have e: "(ucast bs :: u8) = 8 \<longrightarrow> bs = 8" using Suc.prems(3)
    by (auto simp: word_unat_eq_iff word_le_nat_alt unsigned_ucast_eq take_bit_nat_eq_self)
  have p: "definedE (\<lambda>(v, s'). bus_ok window dinv W s') (pread vt a (ucast bs) s)"
    by (rule pread_defined [OF Suc.prems(1)]) (use Suc.prems(2) e in auto)
  show ?case
  proof (simp, rule definedE_bnd [OF p], clarify)
    fix v M d assume s': "bus_ok window dinv W (M, d)"
    have "definedE (\<lambda>(data', s'). length data' = length (data[i := v]) \<and> bus_ok window dinv W s')
        (read_incr vt bs n (Suc i) (a + bs) (data[i := v]) (M, d))"
    proof (rule Suc.IH [OF s'])
      show "\<forall>j<n. \<not> in_mmio W (ucast (a + bs + of_nat j * 8))" if "bs = 8"
      proof (intro allI impI)
        fix j assume "j < n"
        then show "\<not> in_mmio W (ucast (a + bs + of_nat j * 8))"
          using Suc.prems(2) [OF that] that by (auto simp: algebra_simps dest!: spec [of _ "Suc j"])
      qed
    qed (use Suc.prems in simp_all)
    then show "definedE (\<lambda>(data', s'). length data' = length data \<and> bus_ok window dinv W s')
        (bnd (updE data i v) (\<lambda>data'. read_incr vt bs n (Suc i) (a + bs) data' (M, d)))"
      using Suc.prems(4) by simp
  qed
qed

end

text \<open>
  Addresses within 512 bytes of the start of a burst: all beats of a burst of at most 64 beats of 8 bytes lie there, wrapping or not.
\<close>

definition near :: "u64 \<Rightarrow> u64 \<Rightarrow> bool" where
  "near a x \<longleftrightarrow> x - (a - 512) < 1024"

lemma wrap_seq_near:
  assumes "unat (x - b) \<le> B" and "unat (low - b) \<le> B" and "B + 8 * j < 2 ^ 64"
  shows "unat (wrap_seq low high 8 j x - b) \<le> B + 8 * j"
  using assms
proof (induction j arbitrary: x B)
  case 0
  then show ?case by simp
next
  case (Suc j)
  let ?x = "if x = high then low else x"
  have x: "unat (?x - b) \<le> B" using Suc.prems by simp
  have "unat ((?x - b) + 8) = unat (?x - b) + 8"
    by (rule trans [OF unat_add_lem [THEN iffD1]]) (use x Suc.prems(3) in \<open>simp_all del: if_split\<close>)
  moreover have "?x + 8 - b = (?x - b) + 8" by (simp only: diff_conv_add_uminus ac_simps)
  ultimately have "unat (?x + 8 - b) \<le> B + 8" using x by (simp only: add_le_cancel_right)
  from Suc.IH [OF this] Suc.prems show ?case by simp
qed

lemma wrap_near:
  assumes "j < 64" and "unat ts \<le> 512" and "ts \<noteq> 0"
  shows "near a (wrap_seq (a div ts * ts) high 8 j a)"
proof -
  let ?b = "a - 512" and ?low = "a div ts * ts"
  have m: "unat (a mod ts) < 512" using assms(2,3) by (simp add: unat_mod word_unat_eq_iff) (meson mod_less_divisor order_less_le_trans zero_less_iff_neq_zero)
  have "?low = a - a mod ts" by (simp add: minus_mod_eq_div_mult)
  then have l: "?low - ?b = 512 - a mod ts" by simp
  have "a mod ts \<le> 512" using m by (simp add: word_le_nat_alt)
  then have "unat (?low - ?b) \<le> 512" unfolding l by (simp add: unat_sub)
  from wrap_seq_near [of a ?b 512 ?low j high] this assms(1)
  have "unat (wrap_seq ?low high 8 j a - ?b) \<le> 512 + 8 * j" by simp
  then show ?thesis using assms(1) by (simp add: near_def word_less_nat_alt)
qed

lemma incr_near: "j < 64 \<Longrightarrow> near a (a + of_nat j * 8)"
proof -
  assume j: "j < 64"
  have "a + of_nat j * 8 - (a - 512) = of_nat (512 + j * 8)" by simp
  then have "unat (a + of_nat j * 8 - (a - 512)) = 512 + j * 8" using j by (simp only: unat_of_nat) simp
  then show ?thesis using j by (simp add: near_def word_less_nat_alt)
qed

text \<open>
  The signals have the widths of their ports: the sizes have three bits, the write data four words.
\<close>

definition port_ok :: "axi_channel \<Rightarrow> bool" where
  "port_ok axi \<longleftrightarrow> ar_size (ax_ar axi) < 8 \<and> aw_size (ax_aw axi) < 8 \<and> length (w_data (ax_w axi)) = AXI_DATA_WIDTH_64"

text \<open>
  The bursts the code does not handle: a read of 256 beats, whose length wraps to zero, and a burst with beats of 8 bytes that can reach the MMIO window of \<open>W\<close>, for which
  the memory has no 64-bit handlers.
\<close>

definition bad_read :: "'cb Memory \<Rightarrow> axi_ar_channel \<Rightarrow> bool" where
  "bad_read W ar \<longleftrightarrow> ar_len ar = 255 \<or> ar_size ar = 3 \<and> (\<exists>x. near (ar_addr ar) x \<and> in_mmio W (ucast x))"

definition bad_write :: "'cb Memory \<Rightarrow> axi_aw_channel \<Rightarrow> bool" where
  "bad_write W aw \<longleftrightarrow> aw_size aw = 3 \<and> (\<exists>k :: u8. in_mmio W (ucast (aw_addr aw + ucast k * 8)))"

definition waddr_fire :: "axi_channel \<Rightarrow> bool" where
  "waddr_fire axi \<longleftrightarrow> aw_valid (ax_aw axi) \<noteq> 0 \<and> aw_ready (ax_aw axi) \<noteq> 0"

text \<open>The crossbar takes such a burst at a rising edge with these signals.\<close>

definition bad_burst :: "'cb Memory \<Rightarrow> axi_channel \<Rightarrow> bool" where
  "bad_burst W axi \<longleftrightarrow> axi_check_raddr_fire axi \<and> bad_read W (ax_ar axi) \<or> waddr_fire axi \<and> bad_write W (ax_aw axi)"

definition req_ok :: "'cb Memory \<Rightarrow> Axi4CrossbarRequest \<Rightarrow> bool" where
  "req_ok W rq \<longleftrightarrow> length (rq_data rq) = MAX_AXI_DATA_LEN \<and> (rq_is_mmio rq \<or> rq_dram_req rq \<noteq> None) \<and>
     (if rq_is_write rq then rq_size rq = 8 \<longrightarrow> (\<forall>k :: u8. \<not> in_mmio W (ucast (rq_address rq + ucast k * 8)))
      else rq_offset rq < rq_len rq \<and> rq_len rq \<le> 64)"

context mmio_device
begin

lemma read_wrap_defined:
  assumes "bus_ok window dinv W s" and "bs = 8 \<Longrightarrow> \<forall>j < n. \<not> in_mmio W (ucast (wrap_seq low high 8 j a))" and "bs \<le> 8"
    and "i + n \<le> length data"
  shows "definedE (\<lambda>(data', s'). length data' = length data \<and> bus_ok window dinv W s') (read_wrap vt bs low high n i a data s)"
  using assms
proof (induction n arbitrary: i a data s)
  case 0
  then show ?case by simp
next
  case (Suc n)
  let ?a = "if a = high then low else a"
  have e: "(ucast bs :: u8) = 8 \<longrightarrow> bs = 8" using Suc.prems(3)
    by (auto simp: word_unat_eq_iff word_le_nat_alt unsigned_ucast_eq take_bit_nat_eq_self)
  have p: "definedE (\<lambda>(v, s'). bus_ok window dinv W s') (pread vt ?a (ucast bs) s)"
    by (rule pread_defined [OF Suc.prems(1)]) (use Suc.prems(2) e in \<open>auto dest!: spec [of _ 0]\<close>)
  show ?case
    unfolding read_wrap.simps Let_def
  proof (rule definedE_bnd [OF p], clarify)
    fix v M d assume s': "bus_ok window dinv W (M, d)"
    have "definedE (\<lambda>(data', s'). length data' = length (data[i := v]) \<and> bus_ok window dinv W s')
        (read_wrap vt bs low high n (Suc i) (?a + bs) (data[i := v]) (M, d))"
    proof (rule Suc.IH [OF s'])
      show "\<forall>j<n. \<not> in_mmio W (ucast (wrap_seq low high 8 j (?a + bs)))" if "bs = 8"
      proof (intro allI impI)
        fix j assume "j < n"
        then show "\<not> in_mmio W (ucast (wrap_seq low high 8 j (?a + bs)))"
          using spec [OF Suc.prems(2) [OF that], of "Suc j"] that by simp
      qed
    qed (use Suc.prems in simp_all)
    then show "definedE (\<lambda>(data', s'). length data' = length data \<and> bus_ok window dinv W s')
        (bnd (updE data i v) (\<lambda>data'. read_wrap vt bs low high n (Suc i) (?a + bs) data' (M, d)))"
      using Suc.prems(4) by simp
  qed
qed

end

text \<open>
  The invariant of the crossbar over a memory with the windows of \<open>W\<close>: every pointer refers to an allocated request of its direction, every allocated
  request is consistent, and a pending write response belongs to the pending write request.
\<close>

definition xb_inv :: "('cb \<Rightarrow> phy_addr_t \<Rightarrow> bool) \<Rightarrow> ('d \<Rightarrow> bool) \<Rightarrow> 'cb Memory \<Rightarrow> ('cb, 'd, 'ds, 'rsp) Axi4Crossbar \<Rightarrow> bool" where
  "xb_inv window dinv W xb \<longleftrightarrow> bus_ok window dinv W (xb_mem xb) \<and> memory_size W \<noteq> 0 \<and>
     (\<forall>p. xb_next xb \<le> p \<longrightarrow> xb_heap xb p = None) \<and> (\<forall>p rq. xb_heap xb p = Some rq \<longrightarrow> req_ok W rq) \<and>
     (\<forall>p. wait_req_r xb = Some p \<longrightarrow> (\<exists>rq. xb_heap xb p = Some rq \<and> \<not> rq_is_write rq)) \<and>
     (\<forall>r. wait_resp_r xb = Some r \<longrightarrow> (\<exists>rq. xb_heap xb (rs_req r) = Some rq \<and> \<not> rq_is_write rq)) \<and>
     (\<forall>p. wait_req_w xb = Some p \<longrightarrow> (\<exists>rq. xb_heap xb p = Some rq \<and> rq_is_write rq)) \<and>
     (\<forall>r. wait_resp_b xb = Some r \<longrightarrow> wait_req_w xb = Some (rs_req r))"

lemma Axi4Crossbar_new_inv: "bus_ok window dinv W m \<Longrightarrow> memory_size W \<noteq> 0 \<Longrightarrow> xb_inv window dinv W (Axi4Crossbar_new m ds)"
  by (simp add: xb_inv_def Axi4Crossbar_new_def)

lemma xb_inv_frame:
  assumes "xb_inv window dinv W xb"
  shows "xb_inv window dinv W (xb\<lparr>xb_dramsim := ds\<rparr>)"
    and "bus_ok window dinv W s \<Longrightarrow> xb_inv window dinv W (xb\<lparr>xb_mem := s\<rparr>)"
  using assms by (simp_all add: xb_inv_def)

lemma xb_inv_store:
  assumes "xb_inv window dinv W xb" and "xb_heap xb p = Some rq" and "req_ok W rq'" and "rq_is_write rq' = rq_is_write rq"
  shows "xb_inv window dinv W (store_req p rq' xb)"
proof -
  have "p < xb_next xb" using assms(1,2) by (cases "xb_next xb \<le> p") (auto simp: xb_inv_def)
  then show ?thesis using assms by (auto simp: xb_inv_def store_req_def)
qed

lemma xb_inv_add:
  "xb_inv window dinv W xb \<Longrightarrow> dr \<noteq> None \<Longrightarrow> definedE (\<lambda>xb'. xb_inv window dinv W xb' \<and> xb_heap xb' = xb_heap xb) (dram_add D dr xb)"
  by (auto simp: dram_add_def xb_inv_frame)

lemma rising_rdata_defined:
  assumes "xb_inv window dinv W xb"
  shows "definedE (xb_inv window dinv W) (rising_rdata axi xb)"
proof (cases "axi_check_rdata_fire axi \<and> wait_resp_r xb \<noteq> None")
  case True
  then obtain r where r: "axi_check_rdata_fire axi" "wait_resp_r xb = Some r" by blast
  then obtain rq where q: "xb_heap xb (rs_req r) = Some rq" "\<not> rq_is_write rq" "req_ok W rq"
    using assms by (auto simp: xb_inv_def)
  let ?rq = "rq\<lparr>rq_offset := rq_offset rq + 1\<rparr>"
  let ?xb = "store_req (rs_req r) ?rq xb"
  have o: "rq_offset rq < rq_len rq" "rq_len rq \<le> 64" using q(2,3) by (simp_all add: req_ok_def)
  have "rq_offset rq + 1 \<le> rq_len rq" using o(1) by (simp add: inc_le)
  then have n: "rq_offset rq + 1 \<noteq> rq_len rq \<Longrightarrow> xb_inv window dinv W ?xb"
    using q by (intro xb_inv_store [OF assms q(1)]) (auto simp: req_ok_def)
  have "xb_inv window dinv W (xb\<lparr>xb_heap := (xb_heap xb)(rs_req r := None), wait_resp_r := None, wait_req_r := None\<rparr>)"
    using assms q(1,2) by (auto simp: xb_inv_def)
  then show ?thesis
    using r q n by (auto simp: rising_rdata_def deref_def delete_req_def store_req_def Let_def)
next
  case False
  then show ?thesis using assms by (auto simp: rising_rdata_def)
qed

lemma rising_wack_defined:
  assumes "xb_inv window dinv W xb"
  shows "definedE (xb_inv window dinv W) (rising_wack axi xb)"
proof (cases "axi_check_wack_fire axi \<and> wait_resp_b xb \<noteq> None")
  case True
  then obtain r where r: "axi_check_wack_fire axi" "wait_resp_b xb = Some r" by blast
  then obtain rq where q: "xb_heap xb (rs_req r) = Some rq" "rq_is_write rq"
    using assms by (auto simp: xb_inv_def)
  have "xb_inv window dinv W (xb\<lparr>xb_heap := (xb_heap xb)(rs_req r := None), wait_resp_b := None, wait_req_w := None\<rparr>)"
    using assms q by (auto simp: xb_inv_def)
  then show ?thesis using r q by (simp add: rising_wack_def deref_def delete_req_def)
next
  case False
  then show ?thesis using assms by (auto simp: rising_wack_def)
qed

lemma rising_last_defined:
  assumes "xb_inv window dinv W xb"
  shows "definedE (xb_inv window dinv W) (rising_last D xb)"
proof (cases "wait_req_w xb")
  case None
  then show ?thesis using assms by (simp add: rising_last_def)
next
  case (Some p)
  then obtain rq where q: "xb_heap xb p = Some rq" "rq_is_write rq" "req_ok W rq" using assms by (auto simp: xb_inv_def)
  let ?rq = "rq\<lparr>rq_resp_inflight := True\<rparr>"
  have ok: "req_ok W ?rq" using q(3) by (simp add: req_ok_def)
  have s: "xb_inv window dinv W (store_req p ?rq xb')" if "xb_inv window dinv W xb'" "xb_heap xb' = xb_heap xb" for xb'
    using xb_inv_store [OF that(1), of p rq ?rq] that(2) q ok by simp
  have "rq_is_mmio rq \<or> rq_dram_req rq \<noteq> None" using q(3) by (simp add: req_ok_def)
  then show ?thesis
    using assms q(1) s
    by (auto simp: rising_last_def Some deref_def intro!: definedE_bnd [OF xb_inv_add [OF assms]])
qed

context mmio_device
begin

lemma axi_read_data_defined:
  assumes "bus_ok window dinv W s" and "ar_size ar < 8" "\<not> bad_read W ar" and "length (rq_data rq) = 64"
  shows "definedE (\<lambda>(rq', s'). length (rq_data rq') = 64 \<and> rq_offset rq' < rq_len rq' \<and> rq_len rq' \<le> 64 \<and>
      rq_is_write rq' = rq_is_write rq \<and> rq_is_mmio rq' = rq_is_mmio rq \<and> bus_ok window dinv W s') (axi_read_data vt ar rq s)"
proof -
  define bs where "bs = (scast (push_bit (unat (ar_size ar)) (1 :: u32)) :: u64)"
  define n where "n = unat (ar_len ar + 1)"
  define ts where "ts = bs * ucast (ar_len ar + 1)"
  have sz: "unat (ar_size ar) \<in> {0, 1, 2, 3, 4, 5, 6, 7}" "ar_size ar < 32"
    using assms(2) by (auto simp: word_less_nat_alt)
  have bs: "unat bs = 2 ^ unat (ar_size ar)" using sz(1) by (auto simp: bs_def)
  have len: "ar_len ar + 1 \<noteq> 0"
  proof
    assume "ar_len ar + 1 = 0"
    then have "ar_len ar = - 1" by (simp add: eq_neg_iff_add_eq_0)
    then show False using assms(3) by (simp add: bad_read_def)
  qed
  then have n: "0 < n" "unat (ucast (ar_len ar + 1) :: u64) = n"
    unfolding n_def by (simp_all add: unat_gt_0 unat_ucast_up)
  have ts: "unat ts = unat bs * n" "ts \<noteq> 0" "unat ts \<le> 512" if "bs \<le> 8" "n \<le> 64"
  proof -
    have "unat bs * n \<le> 8 * 64" by (rule mult_le_mono) (use that in \<open>simp_all add: word_le_nat_alt\<close>)
    then show "unat ts = unat bs * n" "unat ts \<le> 512" by (simp_all add: ts_def n(2) unat_word_ariths)
    then show "ts \<noteq> 0" using n(1) bs by (auto simp: word_unat_eq_iff)
  qed
  have wide: "bs = 8 \<Longrightarrow> near (ar_addr ar) x \<Longrightarrow> \<not> in_mmio W (ucast x)" for x
  proof -
    assume "bs = 8"
    then have "(2 :: nat) ^ unat (ar_size ar) = 2 ^ 3" using bs by simp
    then have "ar_size ar = 3" by (simp only: power_inject_exp) (simp add: word_unat_eq_iff)
    then show "near (ar_addr ar) x \<Longrightarrow> \<not> in_mmio W (ucast x)" using assms(3) by (auto simp: bad_read_def)
  qed
  let ?Q = "\<lambda>(data', s'). length data' = length (rq_data rq) \<and> bus_ok window dinv W s'"
  have incr: "definedE ?Q (read_incr vt bs n 0 (ar_addr ar) (rq_data rq) s)" if "bs \<le> 8" "n \<le> 64"
    by (rule read_incr_defined [OF assms(1)]) (use that assms(4) wide incr_near in auto)
  have wrap: "definedE ?Q (read_wrap vt bs (ar_addr ar div ts * ts) h n 0 (ar_addr ar) (rq_data rq) s)" if "bs \<le> 8" "n \<le> 64" for h
    by (rule read_wrap_defined [OF assms(1)]) (use that assms(4) wide wrap_near ts [OF that] in auto)
  have "bs \<noteq> 0" using bs by (auto simp: word_unat_eq_iff)
  moreover have "0 < ar_len ar + 1" using len by (simp add: word_neq_0_conv)
  moreover have "n \<le> 64 \<longleftrightarrow> ar_len ar + 1 \<le> 64" by (simp add: n_def word_le_nat_alt)
  ultimately show ?thesis
    unfolding axi_read_data_def shl1_def if_P [OF sz(2)] bnd_simps Let_def bs_def [symmetric] n_def [symmetric] ts_def [symmetric]
    using incr wrap ts assms(4) by (auto intro!: definedE_bnd [where P = ?Q])
qed

end

lemma xb_inv_alloc:
  assumes "xb_inv window dinv W xb" and "bus_ok window dinv W s" and "req_ok W rq"
  shows "xb_inv window dinv W (xb\<lparr>xb_mem := s, xb_heap := (xb_heap xb)(xb_next xb \<mapsto> rq), xb_next := Suc (xb_next xb)\<rparr>)"
proof -
  have "xb_heap xb (xb_next xb) = None" using assms(1) by (simp add: xb_inv_def)
  then show ?thesis using assms by (auto simp: xb_inv_def)
qed

context mmio_device
begin

lemma axi_request_defined:
  assumes "bus_ok window dinv W s" and "memory_size W \<noteq> 0" and "port_ok axi"
    and bad: "if wr then \<not> bad_write W (ax_aw axi) else \<not> bad_read W (ax_ar axi)"
  shows "definedE (\<lambda>(rq, s'). req_ok W rq \<and> rq_is_write rq = wr \<and> bus_ok window dinv W s') (axi_request vt axi wr s)"
proof -
  let ?a = "if wr then aw_addr (ax_aw axi) else ar_addr (ax_ar axi)"
  let ?rq = "get_constraint (fst s) ?a
      (new_request\<lparr>rq_address := ?a, rq_is_write := wr, rq_is_mmio := is_mmio (fst s) ?a\<rparr>)"
  have g: "length (rq_data ?rq) = 64" "rq_address ?rq = ?a" "rq_is_write ?rq = wr" "rq_dram_req ?rq = None"
    by (simp_all add: get_constraint_def new_request_def)
  have sz: "bus_ok window dinv W s' \<Longrightarrow> memory_size (fst s') \<noteq> 0" for s' :: "('cb, 'd) bus"
    using assms(2) by (auto simp: bus_ok_def bus_frame_def)
  show ?thesis
  proof (cases wr)
    case True
    have w: "aw_size (ax_aw axi) < 32" "\<And>k :: u8. aw_size (ax_aw axi) = 3 \<Longrightarrow> \<not> in_mmio W (ucast (aw_addr (ax_aw axi) + ucast k * 8))"
      using assms(3) bad True by (auto simp: port_ok_def bad_write_def word_less_nat_alt)
    have "unat (aw_size (ax_aw axi)) \<in> {0, 1, 2, 3, 4, 5, 6, 7}"
      using assms(3) bad True by (auto simp: port_ok_def bad_write_def word_less_nat_alt)
    then have e: "(ucast (push_bit (unat (aw_size (ax_aw axi))) (1 :: u32)) :: u8) = 8 \<Longrightarrow> aw_size (ax_aw axi) = 3"
      by (auto simp: word_unat_eq_iff)
    show ?thesis
      using True assms(1) g sz [OF assms(1)] w e
      by (auto simp: axi_request_def shl1_def Let_def req_ok_def)
  next
    case False
    have "definedE (\<lambda>(rq', s'). length (rq_data rq') = 64 \<and> rq_offset rq' < rq_len rq' \<and> rq_len rq' \<le> 64 \<and>
        rq_is_write rq' = rq_is_write ?rq \<and> rq_is_mmio rq' = rq_is_mmio ?rq \<and> bus_ok window dinv W s') (axi_read_data vt (ax_ar axi) ?rq s)"
      by (rule axi_read_data_defined [OF assms(1) _ _ g(1)]) (use assms(3) bad False in \<open>simp_all add: port_ok_def\<close>)
    then show ?thesis
      unfolding axi_request_def Let_def using False g(3) sz
      by (intro definedE_bnd [where P = "\<lambda>(rq', s'). length (rq_data rq') = 64 \<and> rq_offset rq' < rq_len rq' \<and> rq_len rq' \<le> 64 \<and>
        rq_is_write rq' = rq_is_write ?rq \<and> rq_is_mmio rq' = rq_is_mmio ?rq \<and> bus_ok window dinv W s'"]) (auto simp: req_ok_def)
  qed
qed

lemma new_req_defined:
  assumes "xb_inv window dinv W xb" and "port_ok axi" and "if wr then \<not> bad_write W (ax_aw axi) else \<not> bad_read W (ax_ar axi)"
  shows "definedE (\<lambda>(p, rq, xb'). xb_inv window dinv W xb' \<and> xb_heap xb' p = Some rq \<and> req_ok W rq \<and> rq_is_write rq = wr \<and>
      wait_resp_b xb' = wait_resp_b xb) (new_req vt axi wr xb)"
proof -
  have b: "bus_ok window dinv W (xb_mem xb)" "memory_size W \<noteq> 0" using assms(1) by (simp_all add: xb_inv_def)
  show ?thesis
    unfolding new_req_def
    by (rule definedE_bnd [OF axi_request_defined [OF b assms(2,3)]]) (auto simp: xb_inv_alloc [OF assms(1)])
qed

lemma rising_raddr_defined:
  fixes xb :: "('cb, 'd, 'ds, 'rsp) Axi4Crossbar"
  assumes "xb_inv window dinv W xb" and "port_ok axi" and "\<not> bad_burst W axi"
  shows "definedE (xb_inv window dinv W) (rising_raddr vt D axi xb)"
proof (cases "axi_check_raddr_fire axi")
  case True
  then have "rising_raddr vt D axi xb = bnd (new_req vt axi False xb) (\<lambda>(p, rq, xb1).
      let xb2 = xb1\<lparr>wait_req_r := Some p\<rparr> in if \<not> rq_is_mmio rq then dram_add D (rq_dram_req rq) xb2 else Inr xb2)"
    by (simp add: rising_raddr_def)
  also have "definedE (xb_inv window dinv W) \<dots>"
  proof (rule definedE_bnd [OF new_req_defined [OF assms(1,2), of False]], goal_cases)
    case 1
    then show ?case using True assms(3) by (simp add: bad_burst_def)
  next
    case (2 x)
    obtain p rq xb1 where x: "x = (p, rq, xb1)" by (cases x)
    have a: "xb_inv window dinv W xb1" "xb_heap xb1 p = Some rq" "req_ok W rq" "\<not> rq_is_write rq" using 2 by (simp_all add: x)
    have i: "xb_inv window dinv W (xb1\<lparr>wait_req_r := Some p\<rparr>)" using a by (simp add: xb_inv_def)
    have "rq_is_mmio rq \<or> rq_dram_req rq \<noteq> None" using a(3) by (simp add: req_ok_def)
    then show ?case
      using i xb_inv_frame(1) [OF i] by (auto simp: x Let_def dram_add_def split: option.splits)
  qed
  finally show ?thesis .
next
  case False
  then show ?thesis using assms by (simp add: rising_raddr_def)
qed

lemma rising_waddr_defined:
  assumes "xb_inv window dinv W xb" and "port_ok axi" and "\<not> bad_burst W axi"
  shows "definedE (xb_inv window dinv W) (rising_waddr vt axi xb)"
proof -
  have "definedE (\<lambda>b. b \<longrightarrow> waddr_fire axi) (axi_check_waddr_fire axi)" by (simp add: axi_check_waddr_fire_def waddr_fire_def)
  then show ?thesis
    unfolding rising_waddr_def
  proof (rule definedE_bnd)
    fix fire
    assume fire: "fire \<longrightarrow> waddr_fire axi"
    have "definedE (xb_inv window dinv W) (bnd (new_req vt axi True xb) (\<lambda>(p, rq, xb1). Inr (xb1\<lparr>wait_req_w := Some p\<rparr>)))"
      if n: "wait_req_w xb = None" and f: "fire"
    proof -
      have "if True then \<not> bad_write W (ax_aw axi) else \<not> bad_read W (ax_ar axi)" using fire f assms(3) by (simp add: bad_burst_def)
      note R = new_req_defined [OF assms(1,2) this]
      have "wait_resp_b xb = None" using assms(1) n by (auto simp: xb_inv_def)
      then show ?thesis
        by (intro definedE_bnd [OF R]) (auto simp: xb_inv_def)
    qed
    then show "definedE (xb_inv window dinv W) (if fire then if wait_req_w xb \<noteq> None then Inl AssertFail
        else bnd (new_req vt axi True xb) (\<lambda>(p, rq, xb1). Inr (xb1\<lparr>wait_req_w := Some p\<rparr>)) else Inr xb)"
      using assms(1) by auto
  qed
qed

lemma rising_wdata_defined:
  assumes "xb_inv window dinv W xb" and "port_ok axi"
  shows "definedE (xb_inv window dinv W) (rising_wdata vt axi xb)"
proof (cases "axi_check_wdata_fire axi \<and> wait_req_w xb \<noteq> None")
  case True
  then obtain p where p: "axi_check_wdata_fire axi" "wait_req_w xb = Some p" by blast
  then obtain rq where q: "xb_heap xb p = Some rq" "rq_is_write rq" "req_ok W rq" using assms(1) by (auto simp: xb_inv_def)
  let ?a = "rq_address rq + ucast (rq_offset rq) * ucast (rq_size rq)"
  have m: "\<not> in_mmio W (ucast ?a)" if "rq_size rq = 8" using q(2,3) that by (simp add: req_ok_def)
  obtain w ws where d: "w_data (ax_w axi) = w # ws" using assms(2) by (cases "w_data (ax_w axi)") (simp_all add: port_ok_def)
  have b: "bus_ok window dinv W (xb_mem xb)" using assms(1) by (simp add: xb_inv_def)
  have ok: "xb_inv window dinv W (store_req p (rq\<lparr>rq_offset := rq_offset rq + 1\<rparr>) (xb\<lparr>xb_mem := s\<rparr>))"
    if "bus_ok window dinv W s" for s
    using xb_inv_store [OF xb_inv_frame(2) [OF assms(1) that], of p rq "rq\<lparr>rq_offset := rq_offset rq + 1\<rparr>"] q by (simp add: req_ok_def)
  have "definedE (xb_inv window dinv W) (bnd (pread vt ?a (rq_size rq) (xb_mem xb)) (\<lambda>(wdat, s1).
      bnd (axi_get_wdata axi (word_bytes wdat) 8) (\<lambda>bytes. bnd (check_wstrb ?a (w_strb (ax_w axi)) (rq_size rq)) (\<lambda>_.
      bnd (pwrite vt ?a (bytes_word bytes) (rq_size rq) s1) (\<lambda>s2.
      assertE (rq_offset rq + 1 \<le> rq_len rq) (Inr (store_req p (rq\<lparr>rq_offset := rq_offset rq + 1\<rparr>) (xb\<lparr>xb_mem := s2\<rparr>))))))))"
  proof (rule definedE_bnd [OF pread_defined [OF b m]], assumption, clarify)
    fix v M da assume s1: "bus_ok window dinv W (M, da)"
    have "definedE (xb_inv window dinv W) (bnd (check_wstrb ?a (w_strb (ax_w axi)) (rq_size rq)) (\<lambda>_.
      bnd (pwrite vt ?a bytes (rq_size rq) (M, da)) (\<lambda>s2.
      assertE (rq_offset rq + 1 \<le> rq_len rq) (Inr (store_req p (rq\<lparr>rq_offset := rq_offset rq + 1\<rparr>) (xb\<lparr>xb_mem := s2\<rparr>))))))" for bytes
      by (rule definedE_bnd [where P = "\<lambda>_. True"])
        (auto simp: check_wstrb_def ok intro!: definedE_bnd [OF pwrite_defined [OF s1 m]])
    then show "definedE (xb_inv window dinv W) (bnd (axi_get_wdata axi (word_bytes v) 8) (\<lambda>bytes.
      bnd (check_wstrb ?a (w_strb (ax_w axi)) (rq_size rq)) (\<lambda>_. bnd (pwrite vt ?a (bytes_word bytes) (rq_size rq) (M, da)) (\<lambda>s2.
      assertE (rq_offset rq + 1 \<le> rq_len rq) (Inr (store_req p (rq\<lparr>rq_offset := rq_offset rq + 1\<rparr>) (xb\<lparr>xb_mem := s2\<rparr>)))))))"
      unfolding axi_get_wdata_merge [OF word_bytes_nth(1) d] bnd_simps .
  qed
  then show ?thesis using p q(1) by (simp add: rising_wdata_def deref_def Let_def)
next
  case False
  then show ?thesis using assms(1) by (auto simp: rising_wdata_def)
qed

lemma clk_rising_defined:
  assumes "xb_inv window dinv W xb" and "port_ok axi" and "\<not> bad_burst W axi"
  shows "definedE (xb_inv window dinv W) (clk_rising vt D axi xb)"
  unfolding clk_rising_def
  by (intro definedE_bnd [OF rising_rdata_defined] definedE_bnd [OF rising_raddr_defined] definedE_bnd [OF rising_wack_defined]
      definedE_bnd [OF rising_waddr_defined] definedE_bnd [OF rising_wdata_defined] rising_last_defined)
    (use assms in \<open>simp_all add: xb_inv_frame\<close>)

end

lemma falling_rdata_defined:
  assumes "xb_inv window dinv W xb"
  shows "definedE (\<lambda>(axi', xb'). xb_inv window dinv W xb') (falling_rdata D (axi, xb))"
proof -
  have first: "definedE (xb_inv window dinv W) (case (wait_resp_r xb, wait_req_r xb) of
      (None, Some p) \<Rightarrow> bnd (deref p xb) (\<lambda>rq.
         if rq_is_mmio rq then Inr (xb\<lparr>wait_resp_r := Some \<lparr>rs_req = p, rs_dram_resp = None\<rparr>\<rparr>)
         else case ds_check_read_response D (xb_dramsim xb) of
           (None, ds) \<Rightarrow> Inr (xb\<lparr>xb_dramsim := ds\<rparr>)
         | (Some r, ds) \<Rightarrow> Inr (xb\<lparr>xb_dramsim := ds, wait_resp_r := Some \<lparr>rs_req = p, rs_dram_resp = Some r\<rparr>\<rparr>))
    | _ \<Rightarrow> Inr xb)"
    using assms by (auto simp: deref_def xb_inv_def split: option.splits prod.splits)
  show ?thesis
    unfolding falling_rdata_def prod.case
  proof (rule definedE_bnd [OF first [unfolded prod.case]])
    fix xb1 assume i: "xb_inv window dinv W xb1"
    show "definedE (\<lambda>(axi', xb'). xb_inv window dinv W xb') (case wait_resp_r xb1 of None \<Rightarrow> Inr (axi, xb1)
     | Some resp \<Rightarrow> bnd (deref (rs_req resp) xb1) (\<lambda>rq. bnd (nthE (rq_data rq) (unat (rq_offset rq))) (\<lambda>v.
         Inr (axi_put_rdata v (uint (rq_offset rq) = uint (rq_len rq) - 1) (rq_id rq) axi, xb1))))"
    proof (cases "wait_resp_r xb1")
      case (Some r)
      then obtain rq where q: "xb_heap xb1 (rs_req r) = Some rq" "\<not> rq_is_write rq" "req_ok W rq" using i by (auto simp: xb_inv_def)
      then have "unat (rq_offset rq) < length (rq_data rq)" by (auto simp: req_ok_def word_less_nat_alt word_le_nat_alt)
      then show ?thesis using Some q i by (simp add: deref_def)
    qed (simp add: i)
  qed
qed

lemma falling_wdata_defined:
  assumes "xb_inv window dinv W xb"
  shows "definedE (\<lambda>(axi', xb'). xb_inv window dinv W xb') (falling_wdata D (axi, xb))"
  using assms by (auto simp: falling_wdata_def deref_def xb_inv_def split: option.splits)

lemma falling_wresp_defined:
  assumes "xb_inv window dinv W xb"
  shows "definedE (\<lambda>(axi', xb'). xb_inv window dinv W xb') (falling_wresp D (axi, xb))"
proof -
  have first: "definedE (xb_inv window dinv W) (case (wait_resp_b xb, wait_req_w xb) of
      (None, Some p) \<Rightarrow> bnd (deref p xb) (\<lambda>rq.
         if rq_is_mmio rq then Inr (xb\<lparr>wait_resp_b := Some \<lparr>rs_req = p, rs_dram_resp = None\<rparr>\<rparr>)
         else case ds_check_write_response D (xb_dramsim xb) of
           (None, ds) \<Rightarrow> Inr (xb\<lparr>xb_dramsim := ds\<rparr>)
         | (Some r, ds) \<Rightarrow> Inr (xb\<lparr>xb_dramsim := ds, wait_resp_b := Some \<lparr>rs_req = p, rs_dram_resp = Some r\<rparr>\<rparr>))
    | _ \<Rightarrow> Inr xb)"
    using assms by (auto simp: deref_def xb_inv_def split: option.splits prod.splits)
  show ?thesis
    unfolding falling_wresp_def prod.case
    by (rule definedE_bnd [OF first [unfolded prod.case]]) (auto simp: deref_def xb_inv_def split: option.splits)
qed

lemma falling_addr_state: "snd (falling_waddr D (falling_raddr D s)) = snd s"
  by (cases s) (auto simp: falling_waddr_def falling_raddr_def split: option.splits)

lemma clk_falling_defined:
  fixes xb :: "('cb, 'd, 'ds, 'rsp) Axi4Crossbar"
  assumes "xb_inv window dinv W xb"
  shows "definedE (\<lambda>(axi', xb'). xb_inv window dinv W xb') (clk_falling D axi xb)"
  unfolding clk_falling_def
proof (rule definedE_bnd [OF falling_rdata_defined [OF assms]], clarify)
  fix axi1 and xb1 :: "('cb, 'd, 'ds, 'rsp) Axi4Crossbar" assume i: "xb_inv window dinv W xb1"
  obtain axi2 where e: "falling_waddr D (falling_raddr D (axi1, xb1)) = (axi2, xb1)"
    using falling_addr_state [of D "(axi1, xb1)"] by (cases "falling_waddr D (falling_raddr D (axi1, xb1))") simp
  show "definedE (\<lambda>(axi', xb'). xb_inv window dinv W xb')
      (bnd (falling_wdata D (falling_waddr D (falling_raddr D (axi1, xb1)))) (falling_wresp D))"
    unfolding e by (rule definedE_bnd [OF falling_wdata_defined [OF i]]) (auto intro: falling_wresp_defined)
qed

text \<open>A run of the crossbar: per cycle the signals at the rising and at the falling edge.\<close>

fun xbar_run ::
  "('cb, 'd) MMIOCallback \<Rightarrow> ('ds, 'rsp) CoDRAMsim3 \<Rightarrow> (axi_channel \<times> axi_channel) list \<Rightarrow> ('cb, 'd, 'ds, 'rsp) Axi4Crossbar \<Rightarrow>
   halt + ('cb, 'd, 'ds, 'rsp) Axi4Crossbar" where
  "xbar_run vt D [] xb = Inr xb"
| "xbar_run vt D ((r, f) # es) xb =
     bnd (clk_rising vt D r xb) (\<lambda>xb1. bnd (clk_falling D f xb1) (\<lambda>(axi, xb2). xbar_run vt D es xb2))"

context mmio_device
begin

lemma xbar_run_defined:
  assumes "xb_inv window dinv W xb" and "\<forall>(r, f) \<in> set es. port_ok r \<and> \<not> bad_burst W r"
  shows "definedE (xb_inv window dinv W) (xbar_run vt D es xb)"
  using assms
proof (induction es arbitrary: xb)
  case Nil
  then show ?case by simp
next
  case (Cons e es)
  obtain r f where e: "e = (r, f)" by fastforce
  have m: "port_ok r" "\<not> bad_burst W r" "\<forall>(r, f) \<in> set es. port_ok r \<and> \<not> bad_burst W r" using Cons.prems(2) by (simp_all add: e)
  show ?case
    unfolding e xbar_run.simps
    by (rule definedE_bnd [OF clk_rising_defined [OF Cons.prems(1) m(1,2)]], rule definedE_bnd [OF clk_falling_defined])
      (auto intro: Cons.IH [OF _ m(3)])
qed

end

text \<open>
  Claim C12: the undefined behaviour of the crossbar comes from two kinds of bursts only. After construction of the memory of the simulated hardware, its devices and the crossbar, and for every
  sequence of signals of the ports' widths at the clock edges, protocol violations included, with whatever acceptance and answers of the timing model: when an edge uses a deleted or missing request, reads or writes outside the data of a burst or
  reaches a handler list that is not initialised, then the crossbar took, at one of the rising edges, a read burst of 256 beats or a burst with beats of 8 bytes that can reach the MMIO window
  (for a read, a window address within 512 bytes of the start; for a write, one at a multiple of 8 bytes, less than 256 beats, from the start). Without
  such a burst the run ends in a consistent crossbar, on a failed assertion or with the diagnosis of an unmapped address.
\<close>

theorem crossbar_defined:
  assumes "Memory_new False raw start base last_addr = Inr M" "length raw < 2 ^ 63" "raw \<noteq> []"
    and "length raw_flash = 0x10000000" "unat base \<le> 0xC0000000" and "msr_wf ni nd m" "\<not> bit (IRR m) 1"
    and "DeviceTree_new raw_uart raw_flash False base (Some bytes) v M = Inr (dt, M')"
    and "\<forall>(r, f) \<in> set es. port_ok r"
  shows "(\<exists>(r, f) \<in> set es. bad_burst M' r) \<or>
    (case xbar_run dev_vt D es (Axi4Crossbar_new (M', (m, dt)) ds) of
       Inl e \<Rightarrow> e \<noteq> Undefined
     | Inr xb \<Rightarrow> xb_inv (dev_window base) (dev_inv base ni nd) (M'\<lparr>memory := []\<rparr>) xb)"
proof -
  let ?W = "M'\<lparr>memory := []\<rparr>"
  have b: "bus_inv (dev_window base) (dev_inv base ni nd) (M', (m, dt))"
    using DeviceTree_new_inv [OF assms(1,2,4-7), of raw_uart bytes v] assms(8) by simp
  have "memory_size M = of_nat (length raw)" using assms(1) by (auto simp: Memory_new_def)
  moreover have "unat (of_nat (length raw) :: u64) = length raw" using assms(2) by (simp add: unat_of_nat)
  ultimately have "memory_size M' \<noteq> 0" using DeviceTree_new_memory [OF assms(8)] assms(3) by (auto simp: word_unat_eq_iff)
  then have i: "xb_inv (dev_window base) (dev_inv base ni nd) ?W (Axi4Crossbar_new (M', (m, dt)) ds)"
    using b by (intro Axi4Crossbar_new_inv) (simp_all add: bus_ok_def bus_frame_def)
  have "in_mmio ?W = in_mmio M'" by (simp add: in_mmio_def fun_eq_iff)
  then have w: "bad_burst ?W a = bad_burst M' a" for a by (simp add: bad_burst_def bad_read_def bad_write_def)
  show ?thesis
  proof (cases "\<exists>(r, f) \<in> set es. bad_burst M' r")
    case False
    then have "\<forall>(r, f) \<in> set es. port_ok r \<and> \<not> bad_burst ?W r" using assms(9) w by fastforce
    from devs.xbar_run_defined [OF i this, of D] show ?thesis by (simp add: definedE_def)
  qed simp
qed

section \<open>A concrete crossbar\<close>

definition axi_idle :: axi_channel where
  "axi_idle = \<lparr>
     ax_aw = \<lparr>aw_ready = 0, aw_valid = 0, aw_addr = 0, aw_prot = 0, aw_id = 0, aw_user = 0, aw_len = 0, aw_size = 0, aw_burst = 1,
       aw_lock = 0, aw_cache = 0, aw_qos = 0\<rparr>,
     ax_w = \<lparr>w_ready = 0, w_valid = 0, w_data = replicate 4 0, w_strb = 0, w_last = 0\<rparr>,
     ax_b = \<lparr>b_ready = 0, b_valid = 0, b_resp = 0, b_id = 0, b_user = 0\<rparr>,
     ax_ar = \<lparr>ar_ready = 0, ar_valid = 0, ar_addr = 0, ar_prot = 0, ar_id = 0, ar_user = 0, ar_len = 0, ar_size = 0, ar_burst = 1,
       ar_lock = 0, ar_cache = 0, ar_qos = 0\<rparr>,
     ax_r = \<lparr>r_ready = 0, r_valid = 0, r_resp = 0, r_data = replicate 4 0, r_last = 0, r_id = 0, r_user = 0\<rparr>\<rparr>"

text \<open>A timing model that accepts everything and answers at once.\<close>

definition dram_instant :: "(unit, unit) CoDRAMsim3" where
  "dram_instant = \<lparr>ds_tick = id, ds_will_accept = (\<lambda>a w s. True), ds_add_request = (\<lambda>r s. s),
     ds_check_read_response = (\<lambda>s. (Some (), s)), ds_check_write_response = (\<lambda>s. (Some (), s))\<rparr>"

theorem crossbar_defined_witness:
  "\<exists>M dt M'. Memory_new False (replicate 4096 0) 0x80000000 0 0x7fffffff = Inr M \<and>
     DeviceTree_new (pb_uart_reset undefined) (replicate 0x10000000 0) False 0 (Some [1, 2, 3])
       \<lparr>vu_inited = False, vu_in_difftest = False, vu_dat = 0, vu_dat_pending_for_difftest = False, vu_stdout = []\<rparr> M = Inr (dt, M') \<and>
     xbar_run dev_vt dram_instant [(axi_idle\<lparr>ax_ar := (ax_ar axi_idle)\<lparr>ar_ready := 1, ar_valid := 1, ar_addr := 0x80000000, ar_len := 3, ar_size := 2\<rparr>\<rparr>, axi_idle)]
       (Axi4Crossbar_new (M', (msr_zero 16 16, dt)) ()) \<noteq> Inl Undefined"
proof -
  let ?v = "\<lparr>vu_inited = False, vu_in_difftest = False, vu_dat = 0, vu_dat_pending_for_difftest = False, vu_stdout = []\<rparr>"
  let ?r = "axi_idle\<lparr>ax_ar := (ax_ar axi_idle)\<lparr>ar_ready := 1, ar_valid := 1, ar_addr := 0x80000000, ar_len := 3, ar_size := 2\<rparr>\<rparr>"
  obtain M :: "dev_cb Memory" where M: "Memory_new False (replicate 4096 0) 0x80000000 0 0x7fffffff = Inr M"
    by (simp add: Memory_new_def)
  have m: "msr_wf 16 16 (msr_zero 16 16)" "\<not> bit (IRR (msr_zero 16 16)) 1" by (simp, simp add: msr_zero_def)
  obtain dt M' where dt: "DeviceTree_new (pb_uart_reset undefined) (replicate 0x10000000 0) False 0 (Some [1, 2, 3]) ?v M = Inr (dt, M')"
    using DeviceTree_new_inv [OF M _ length_replicate _ m, of "pb_uart_reset undefined" 0 "[1, 2, 3]" ?v] by auto
  have "port_ok ?r" "\<not> bad_burst M' ?r"
    by (simp_all add: port_ok_def bad_burst_def bad_read_def waddr_fire_def axi_idle_def)
  then have p: "\<forall>(r, f) \<in> set [(?r, axi_idle)]. port_ok r" "\<not> (\<exists>(r, f) \<in> set [(?r, axi_idle)]. bad_burst M' r)" by simp_all
  from crossbar_defined [OF M _ _ length_replicate _ m dt p(1), where D = dram_instant and ds = "()"] p(2) M dt show ?thesis
    by (fastforce split: sum.splits)
qed

definition small_xb :: "(unit, unit, unit, unit) Axi4Crossbar" where
  "small_xb = (Axi4Crossbar_new (small_mem, ()) ())\<lparr>wait_req_w := Some 0, xb_next := 1, xb_heap := [0 \<mapsto>
     new_request\<lparr>rq_address := 0x80000004, rq_is_write := True, rq_len := 1, rq_size := 4\<rparr>]\<rparr>"

theorem axi_write_beat_witness:
  "\<exists>M'. rising_wdata undefined (axi_idle\<lparr>ax_w := \<lparr>w_ready = 1, w_valid = 1, w_data = [0xdeadbeef00000000, 0, 0, 0], w_strb = 0xf0, w_last = 1\<rparr>\<rparr>) small_xb =
     Inr (store_req 0 (new_request\<lparr>rq_address := 0x80000004, rq_is_write := True, rq_len := 1, rq_size := 4, rq_offset := 1\<rparr>)
       (small_xb\<lparr>xb_mem := (M', ())\<rparr>)) \<and> cell M' 0x80000004 = 0xef \<and> cell M' 0x80000000 = 0"
proof -
  let ?axi = "axi_idle\<lparr>ax_w := \<lparr>w_ready = 1, w_valid = 1, w_data = [0xdeadbeef00000000, 0, 0, 0], w_strb = 0xf0, w_last = 1\<rparr>\<rparr>"
  let ?rq = "new_request\<lparr>rq_address := 0x80000004, rq_is_write := True, rq_len := 1, rq_size := 4\<rparr>"
  have a: "beat_addr ?rq = 0x80000004" by (simp add: beat_addr_def new_request_def)
  have l: "bytelane 0x80000004 = 4" by (simp add: bytelane_def)
  have e: "excp_wstrb 0x80000004 4 = Some 0xf0" by (simp add: excp_wstrb_def l Let_def)
  have h: "axi_check_wdata_fire ?axi" "wait_req_w small_xb = Some 0" "xb_heap small_xb 0 = Some ?rq" "xb_mem small_xb = (small_mem, ())"
    by (simp_all add: axi_check_wdata_fire_def small_xb_def Axi4Crossbar_new_def)
  have s: "rq_size ?rq \<in> {1, 2, 4, 8}" "dram_range small_mem (ucast (beat_addr ?rq)) (unat (rq_size ?rq))"
    "bytelane (beat_addr ?rq) + unat (rq_size ?rq) \<le> 8" "w_data (ax_w ?axi) = 0xdeadbeef00000000 # [0, 0, 0]" "rq_offset ?rq < rq_len ?rq"
    using small_mem_range by (simp_all add: a l, simp_all add: new_request_def)
  obtain M' where w: "rising_wdata undefined ?axi small_xb = Inr (store_req 0 (?rq\<lparr>rq_offset := rq_offset ?rq + 1\<rparr>) (small_xb\<lparr>xb_mem := (M', ())\<rparr>))"
      "stored small_mem 0x80000004 4 (\<lambda>k. byte_of (4 + k) (0xdeadbeef00000000 :: u64)) M'"
    using axi_write_beat [OF h small_mem_wf s, of undefined] by (auto simp: a l e)
  have "\<forall>k < 4. cell M' (0x80000004 + of_nat k) = byte_of (4 + k) (0xdeadbeef00000000 :: u64)" using w(2) unfolding stored_def by blast
  from spec [OF this, of 0] have "cell M' 0x80000004 = 0xef" by (simp add: byte_of_def)
  moreover have "4 \<le> unat ((0x80000000 :: u32) - 0x80000004)" by simp
  then have "cell M' 0x80000000 = cell small_mem 0x80000000" using w(2) unfolding stored_def by blast
  then have "cell M' 0x80000000 = 0" by (simp add: cell_def small_mem_def)
  moreover have "?rq\<lparr>rq_offset := rq_offset ?rq + 1\<rparr> = ?rq\<lparr>rq_offset := 1\<rparr>" by (simp add: new_request_def)
  ultimately show ?thesis using w(1) by auto
qed

text \<open>A wrapping burst of four words from the third word of the small memory.\<close>

definition small_ar :: axi_ar_channel where
  "small_ar = (ax_ar axi_idle)\<lparr>ar_addr := 0x80000008, ar_len := 3, ar_size := 2, ar_burst := 2\<rparr>"

theorem axi_read_burst_witness:
  "mem_wf small_mem \<and> (\<exists>rq. axi_read_data undefined small_ar (new_request\<lparr>rq_max_burst_len := 256, rq_max_size := 8\<rparr>) (small_mem, ()) =
     Inr (rq, (small_mem, ())) \<and> rq_len rq = 4 \<and> rq_data rq ! 2 = beat_word small_mem 0x80000000 4)"
proof -
  let ?rq = "new_request\<lparr>rq_max_burst_len := 256, rq_max_size := 8\<rparr>"
  have f: "unat (ar_addr small_ar) = 0x80000008" "unat (ar_len small_ar) = 3" "unat (ar_size small_ar) = 2" "ar_burst small_ar = 2"
    "ar_size small_ar < 4" "ar_len small_ar < 64" "length (rq_data ?rq) = 64" "ar_len small_ar = 3"
    by (simp_all add: small_ar_def new_request_def)
  have b: "burst_addr 2 0x80000008 4 4 0 = 0x80000008" "burst_addr 2 0x80000008 4 4 1 = 0x8000000c"
    "burst_addr 2 0x80000008 4 4 2 = 0x80000000" "burst_addr 2 0x80000008 4 4 3 = 0x80000004"
    by (simp_all add: burst_addr_def Let_def)
  have "dram_range small_mem (of_nat (burst_addr 2 0x80000008 4 4 i)) 4" if "i \<le> 3" for i
  proof -
    have "i = 0 \<or> i = 1 \<or> i = 2 \<or> i = 3" using that by auto
    then show ?thesis
      by (elim disjE) (simp_all only: b, simp_all add: dram_range_unfold dram_at_def in_dram_def in_mmio_def small_mem_def)
  qed
  then have r: "\<forall>i \<le> unat (ar_len small_ar). dram_range small_mem (of_nat (burst_addr (ar_burst small_ar) (unat (ar_addr small_ar))
      (2 ^ unat (ar_size small_ar)) (unat (ar_len small_ar) + 1) i)) (2 ^ unat (ar_size small_ar))"
    by (simp add: f)
  have "axi_read_data undefined small_ar ?rq (small_mem, ()) = Inr (?rq\<lparr>
      rq_data := map (\<lambda>i. beat_word small_mem (burst_addr 2 0x80000008 4 4 i) 4) [0..<4] @ drop 4 (rq_data ?rq),
      rq_len := 4, rq_size := 4, rq_offset := 0, rq_id := ar_id small_ar\<rparr>, (small_mem, ()))"
    using axi_read_burst [OF small_mem_wf f(5,6) _ _ _ f(7) _ _ r, of undefined "()"] by (simp add: f)
  then show ?thesis using small_mem_wf b(3) by (simp add: nth_append flip: numeral_2_eq_2)
qed

section \<open>Cases the code does not handle\<close>

text \<open>
  A write request in the MMIO window is acknowledged at the next falling edge even when its data has not arrived: a master that takes the acknowledgement
  and sends the data at the next rising edge runs into the assertion that there is a request.
\<close>

lemma mmio_write_acked_early:
  assumes "wait_req_w xb = Some p" and "xb_heap xb p = Some rq" and "rq_is_mmio rq" and "rq_offset rq \<noteq> rq_len rq"
    and "wait_resp_b xb = None" and "wait_req_r xb = None" and "wait_resp_r xb = None"
  shows "\<exists>axi' xb'. clk_falling D axi xb = Inr (axi', xb') \<and> b_valid (ax_b axi') = 1 \<and> w_ready (ax_w axi') = 1 \<and>
    (ar_valid (ax_ar r) = 0 \<and> aw_valid (ax_aw r) = 0 \<and> b_valid (ax_b r) = 1 \<and> b_ready (ax_b r) = 1 \<and>
     w_ready (ax_w r) = 1 \<and> w_valid (ax_w r) = 1 \<and> r_valid (ax_r r) = 0 \<longrightarrow> clk_rising vt D r xb' = Inl AssertFail)"
proof -
  obtain axi2 where f: "falling_waddr D (falling_raddr D (falling_default axi, xb)) = (axi2, xb)"
    using falling_addr_state [of D "(falling_default axi, xb)"]
    by (cases "falling_waddr D (falling_raddr D (falling_default axi, xb))") simp
  let ?axi = "axi_put_wack (rq_id rq) (axi_accept_wdata axi2)"
  let ?xb = "xb\<lparr>wait_resp_b := Some \<lparr>rs_req = p, rs_dram_resp = None\<rparr>\<rparr>"
  have "clk_falling D axi xb = Inr (?axi, ?xb)"
    using assms f by (simp add: clk_falling_def falling_rdata_def falling_wdata_def falling_wresp_def deref_def)
  moreover have "b_valid (ax_b ?axi) = 1" "w_ready (ax_w ?axi) = 1" by (simp_all add: axi_put_wack_def axi_accept_wdata_def)
  moreover have "clk_rising vt D r ?xb = Inl AssertFail"
    if "ar_valid (ax_ar r) = 0" "aw_valid (ax_aw r) = 0" "b_valid (ax_b r) = 1" "b_ready (ax_b r) = 1"
     "w_ready (ax_w r) = 1" "w_valid (ax_w r) = 1" "r_valid (ax_r r) = 0"
    using that assms
    by (simp add: clk_rising_def rising_rdata_def axi_check_rdata_fire_def rising_raddr_def axi_check_raddr_fire_def rising_wack_def
        axi_check_wack_fire_def delete_req_def deref_def rising_waddr_def axi_check_waddr_fire_def rising_wdata_def axi_check_wdata_fire_def)
  ultimately show ?thesis by blast
qed

text \<open>A read burst of 256 beats has its length stored as 0, passes the length check and reads nothing.\<close>

lemma read_burst_256_empty:
  assumes "ar_len ar = 255" and "ar_size ar < 4" and "ar_burst ar = 1" and "rq_max_size rq = 8"
  shows "axi_read_data vt ar rq s = Inr (rq\<lparr>rq_len := 0, rq_size := 2 ^ unat (ar_size ar), rq_offset := 0, rq_id := ar_id ar\<rparr>, s)"
proof -
  have "unat (ar_size ar) < 4" using assms(2) by (simp add: word_less_nat_alt)
  then have "unat (ar_size ar) \<in> {0, 1, 2, 3}" by auto
  moreover have "shl1 (ar_size ar) = Inr (2 ^ unat (ar_size ar))" using assms(2) by (simp add: shl1_def word_less_nat_alt)
  ultimately show ?thesis
    using assms(1,3,4) by (auto simp: axi_read_data_def)
qed

end
