(* ===== verification/EmuMain.thy ===== *)
theory EmuMain
  imports Emu CpuSafe Axi4CrossbarProps
begin

text \<open>
  The program, \<open>em/csrc/main.cc\<close>: options, construction of the machine, and the endless loops of the three modes. Files are a partial function from names to contents, the records of a symbol file are given as read.
  \<open>exit(1)\<close> is the same stop as \<open>panic(1)\<close>, an uncaught exception the same as a failing assertion. A loop that never ends is the value \<open>None\<close>.
\<close>

section \<open>Options\<close>

datatype Mode = ModeStandalone | ModeSimulateOnly | ModeDifftest

record Args =
  ar_mode :: Mode
  ar_bin_pathname :: string
  ar_pc_rst :: phy_addr_t
  ar_vect_EINSN :: phy_addr_t
  ar_vect_EIRQ :: phy_addr_t
  ar_vect_ESYSCALL :: phy_addr_t
  ar_vect_EIPF :: phy_addr_t
  ar_vect_EDPF :: phy_addr_t
  ar_vect_EITM :: phy_addr_t
  ar_vect_EDTM :: phy_addr_t
  ar_vect_EALIGN :: phy_addr_t
  ar_ram_size :: int
  ar_dmmu_tlb_count :: int
  ar_immu_tlb_count :: int
  ar_dmmu_enable_uncached_seg :: bool
  ar_immu_enable_uncached_seg :: bool
  ar_enable_icache :: bool
  ar_enable_dcache :: bool
  ar_icache_p_ways :: int
  ar_icache_p_sets :: int
  ar_icache_p_line :: int
  ar_dcache_p_ways :: int
  ar_dcache_p_sets :: int
  ar_dcache_p_line :: int
  ar_dram_phy_base :: phy_addr_t
  ar_mmio_phy_base :: phy_addr_t
  ar_mmio_phy_end_addr :: phy_addr_t
  ar_IRQ_TSC :: int
  ar_bin_load_addr :: phy_addr_t
  ar_device_clk_div :: u64
  ar_vcdfile :: string
  ar_wave_begin :: u64
  ar_wave_end :: u64
  ar_commit_timeout_max :: u64
  ar_symbol_file :: string
  ar_virt_uart_file :: string
  ar_flash_image_file :: string

definition Args_new :: Args where
  "Args_new = \<lparr>
     ar_mode = ModeDifftest, ar_bin_pathname = [], ar_pc_rst = 0x80000000, ar_vect_EINSN = 0x04, ar_vect_EIRQ = 0x08,
     ar_vect_ESYSCALL = 0x0c, ar_vect_EIPF = 0x14, ar_vect_EDPF = 0x18, ar_vect_EITM = 0x1c, ar_vect_EDTM = 0x20, ar_vect_EALIGN = 0x24,
     ar_ram_size = 32 * 1024 * 1024, ar_dmmu_tlb_count = 16, ar_immu_tlb_count = 16, ar_dmmu_enable_uncached_seg = True,
     ar_immu_enable_uncached_seg = True, ar_enable_icache = True, ar_enable_dcache = True,
     ar_icache_p_ways = 1, ar_icache_p_sets = 4, ar_icache_p_line = 6, ar_dcache_p_ways = 1, ar_dcache_p_sets = 4, ar_dcache_p_line = 6,
     ar_dram_phy_base = 0x80000000, ar_mmio_phy_base = 0x00000000, ar_mmio_phy_end_addr = 0x7fffffff, ar_IRQ_TSC = 0,
     ar_bin_load_addr = 0x80000000, ar_device_clk_div = 100, ar_vcdfile = [], ar_wave_begin = 0, ar_wave_end = 10000,
     ar_commit_timeout_max = 100000, ar_symbol_file = [], ar_virt_uart_file = ''COM1:'', ar_flash_image_file = []\<rparr>"

definition parse_bool :: "string \<Rightarrow> halt + bool" where
  "parse_bool optarg = (if optarg \<noteq> ''true'' \<and> optarg \<noteq> ''false'' then Inl (Panic 1) else Inr (optarg = ''true''))"

definition parse_mode :: "string \<Rightarrow> halt + Mode" where
  "parse_mode optarg =
     (if optarg = ''standalone'' then Inr ModeStandalone
      else if optarg = ''simulate-only'' then Inr ModeSimulateOnly
      else if optarg = ''difftest'' then Inr ModeDifftest
      else Inl (Panic 1))"

subsection \<open>Numbers\<close>

text \<open>\<open>strtoll\<close> and \<open>atoi\<close> of the C library in the default locale: white space, a sign, digits; \<open>strtoll\<close> saturates and returns where it stopped.\<close>

definition digit_val :: "char \<Rightarrow> nat" where
  "digit_val c =
     (let n = of_char c :: nat in
      if 48 \<le> n \<and> n \<le> 57 then n - 48 else if 97 \<le> n \<and> n \<le> 122 then n - 87 else if 65 \<le> n \<and> n \<le> 90 then n - 55 else 36)"

definition is_digit :: "nat \<Rightarrow> char \<Rightarrow> bool" where
  "is_digit base c \<longleftrightarrow> digit_val c < base"

definition is_space :: "char \<Rightarrow> bool" where
  "is_space c \<longleftrightarrow> (let n = of_char c :: nat in n = 32 \<or> 9 \<le> n \<and> n \<le> 13)"

definition num_of :: "nat \<Rightarrow> string \<Rightarrow> nat" where
  "num_of base ds = foldl (\<lambda>a d. a * base + digit_val d) 0 ds"

definition split_sign :: "string \<Rightarrow> bool \<times> string" where
  "split_sign s = (case s of c # r \<Rightarrow> if c = CHR ''-'' then (True, r) else if c = CHR ''+'' then (False, r) else (False, s) | [] \<Rightarrow> (False, s))"

definition skip_0x :: "nat \<Rightarrow> string \<Rightarrow> string" where
  "skip_0x base s =
     (case s of z # x # d # r \<Rightarrow>
        if base = 16 \<and> z = CHR ''0'' \<and> (x = CHR ''x'' \<or> x = CHR ''X'') \<and> is_digit 16 d then d # r else s
      | _ \<Rightarrow> s)"

definition strtoll :: "string \<Rightarrow> nat \<Rightarrow> int \<times> string" where
  "strtoll s base =
     (case split_sign (dropWhile is_space s) of (neg, s1) \<Rightarrow>
      let s2 = skip_0x base s1; ds = takeWhile (is_digit base) s2; v = (if neg then - int (num_of base ds) else int (num_of base ds)) in
      if ds = [] then (0, s) else (max (- (2 ^ 63)) (min (2 ^ 63 - 1) v), dropWhile (is_digit base) s2))"

definition parse_int :: "string \<Rightarrow> halt + int" where
  "parse_int optarg =
     (let base = (case optarg of z # x # _ \<Rightarrow> if z = CHR ''0'' \<and> (x = CHR ''x'' \<or> x = CHR ''X'') then 16 else 10 | _ \<Rightarrow> 10);
          (ret, last') = strtoll optarg base in
      if last' \<noteq> [] then Inl (Panic 1) else Inr ret)"

definition ato :: "nat \<Rightarrow> string \<Rightarrow> halt + int" where
  "ato w s =
     (case split_sign (dropWhile is_space s) of (neg, s1) \<Rightarrow>
      let n = int (num_of 10 (takeWhile (is_digit 10) s1)); v = (if neg then - n else n) in
      if - (2 ^ (w - 1)) \<le> v \<and> v < 2 ^ (w - 1) then Inr v else Inl Undefined)"

abbreviation (input) atoi :: "string \<Rightarrow> halt + int" where "atoi \<equiv> ato 32"
abbreviation (input) atol :: "string \<Rightarrow> halt + int" where "atol \<equiv> ato 64"

subsection \<open>The command line\<close>

text \<open>The table of long options; a value of 0 makes \<open>getopt_long\<close> return 0 and the index of the option.\<close>

record option_s =
  op_name :: string
  op_has_arg :: bool
  op_val :: char

definition long_options :: "option_s list" where
  "long_options =
    [\<lparr>op_name = ''mode'', op_has_arg = True, op_val = CHR 0x00\<rparr>, \<lparr>op_name = ''ram-size'', op_has_arg = True, op_val = CHR 0x00\<rparr>,
     \<lparr>op_name = ''dmmu-tlb-count'', op_has_arg = True, op_val = CHR 0x00\<rparr>, \<lparr>op_name = ''immu-tlb-count'', op_has_arg = True, op_val = CHR 0x00\<rparr>,
     \<lparr>op_name = ''dmmu-enable-uncached-seg'', op_has_arg = True, op_val = CHR 0x00\<rparr>, \<lparr>op_name = ''icache-p-ways'', op_has_arg = True, op_val = CHR 0x00\<rparr>,
     \<lparr>op_name = ''icache-p-sets'', op_has_arg = True, op_val = CHR 0x00\<rparr>, \<lparr>op_name = ''icache-p-line'', op_has_arg = True, op_val = CHR 0x00\<rparr>,
     \<lparr>op_name = ''dcache-p-ways'', op_has_arg = True, op_val = CHR 0x00\<rparr>, \<lparr>op_name = ''dcache-p-sets'', op_has_arg = True, op_val = CHR 0x00\<rparr>,
     \<lparr>op_name = ''dcache-p-line'', op_has_arg = True, op_val = CHR 0x00\<rparr>, \<lparr>op_name = ''mmio-phy-base'', op_has_arg = True, op_val = CHR 0x00\<rparr>,
     \<lparr>op_name = ''irq-tsc'', op_has_arg = True, op_val = CHR 0x00\<rparr>, \<lparr>op_name = ''device-clk-div'', op_has_arg = True, op_val = CHR 0x00\<rparr>,
     \<lparr>op_name = ''enable-icache'', op_has_arg = True, op_val = CHR 0x00\<rparr>, \<lparr>op_name = ''enable-dcache'', op_has_arg = True, op_val = CHR 0x00\<rparr>,
     \<lparr>op_name = ''wave-begin'', op_has_arg = True, op_val = CHR 0x00\<rparr>, \<lparr>op_name = ''wave-end'', op_has_arg = True, op_val = CHR 0x00\<rparr>,
     \<lparr>op_name = ''commit-timeout-max'', op_has_arg = True, op_val = CHR 0x00\<rparr>, \<lparr>op_name = ''immu-enable-uncached-seg'', op_has_arg = True, op_val = CHR 0x00\<rparr>,
     \<lparr>op_name = ''symbol-file'', op_has_arg = True, op_val = CHR 0x00\<rparr>, \<lparr>op_name = ''virt-uart-file'', op_has_arg = True, op_val = CHR 0x00\<rparr>,
     \<lparr>op_name = ''flash-image-file'', op_has_arg = True, op_val = CHR 0x00\<rparr>, \<lparr>op_name = ''bin-load-addr'', op_has_arg = True, op_val = CHR ''a''\<rparr>,
     \<lparr>op_name = ''bin-pathname'', op_has_arg = True, op_val = CHR ''b''\<rparr>, \<lparr>op_name = ''reset-pc'', op_has_arg = True, op_val = CHR ''r''\<rparr>,
     \<lparr>op_name = ''dump-wave'', op_has_arg = True, op_val = CHR ''d''\<rparr>, \<lparr>op_name = ''help'', op_has_arg = False, op_val = CHR ''h''\<rparr>]"

definition optstirng :: string where
  "optstirng = ''-b:a:r:d:''"

text \<open>A result of \<open>getopt_long\<close>: 0 with \<open>long_index\<close>, or a character, with \<open>optarg\<close>.\<close>

datatype getopt = GLong nat string | GChar char string

definition find_long :: "(string \<rightharpoonup> nat) \<Rightarrow> string \<Rightarrow> nat option" where
  "find_long abbrev name =
     (case find (\<lambda>i. op_name (long_options ! i) = name) [0..<length long_options] of
        Some i \<Rightarrow> Some i
      | None \<Rightarrow> (case abbrev name of Some i \<Rightarrow> if i < length long_options then Some i else None | None \<Rightarrow> None))"

definition long_result :: "nat \<Rightarrow> string \<Rightarrow> getopt" where
  "long_result i optarg =
     (if op_val (long_options ! i) = CHR 0x00 then GLong i optarg else GChar (op_val (long_options ! i)) optarg)"

text \<open>A letter followed by a colon in \<open>optstirng\<close> is a short option with an argument.\<close>

definition short_option :: "char \<Rightarrow> bool" where
  "short_option c \<longleftrightarrow> c \<noteq> CHR '':'' \<and> (\<exists>i < length optstirng - 1. optstirng ! i = c \<and> optstirng ! (i + 1) = CHR '':'')"

text \<open>
  \<open>getopt_long\<close> of the C library on the arguments after the program name, for a string of short options that starts with a dash: arguments are
  handled in order, and one that is not an option is returned with the character 1. Which option an abbreviated name stands for is the parameter \<open>abbrev\<close>. \<open>main\<close> returns at the first
  result that is not an option of its own, so the list ends there.
\<close>

fun getopt_long :: "(string \<rightharpoonup> nat) \<Rightarrow> string list \<Rightarrow> getopt list" where
  "getopt_long abbrev [] = []"
| "getopt_long abbrev (arg # rest) =
     (if arg = ''--'' then []
      else if take 2 arg = ''--'' then
        let name = takeWhile (\<lambda>c. c \<noteq> CHR ''='') (drop 2 arg); eq = dropWhile (\<lambda>c. c \<noteq> CHR ''='') (drop 2 arg) in
        (case find_long abbrev name of
           None \<Rightarrow> [GChar (CHR ''?'') []]
         | Some i \<Rightarrow>
             if op_has_arg (long_options ! i) then
               if eq \<noteq> [] then long_result i (tl eq) # getopt_long abbrev rest
               else (case rest of [] \<Rightarrow> [GChar (CHR ''?'') []] | v # rest' \<Rightarrow> long_result i v # getopt_long abbrev rest')
             else if eq \<noteq> [] then [GChar (CHR ''?'') []]
             else long_result i [] # getopt_long abbrev rest)
      else if length arg > 1 \<and> hd arg = CHR ''-'' then
        if short_option (arg ! 1) then
          if length arg > 2 then GChar (arg ! 1) (drop 2 arg) # getopt_long abbrev rest
          else (case rest of [] \<Rightarrow> [GChar (CHR ''?'') []] | v # rest' \<Rightarrow> GChar (arg ! 1) v # getopt_long abbrev rest')
        else [GChar (CHR ''?'') []]
      else [GChar (CHR 0x01) arg])"

subsection \<open>Parsing\<close>

definition set_opt :: "halt + 'x \<Rightarrow> ('x \<Rightarrow> Args) \<Rightarrow> halt + Args option" where
  "set_opt m f = bnd m (\<lambda>x. Inr (Some (f x)))"

definition parse_long :: "nat \<Rightarrow> string \<Rightarrow> Args \<Rightarrow> halt + Args option" where
  "parse_long long_index optarg args =
     (if long_index = 0 then set_opt (parse_mode optarg) (\<lambda>x. args\<lparr>ar_mode := x\<rparr>)
      else if long_index = 1 then set_opt (atoi optarg) (\<lambda>x. args\<lparr>ar_ram_size := x\<rparr>)
      else if long_index = 2 then set_opt (atoi optarg) (\<lambda>x. args\<lparr>ar_dmmu_tlb_count := x\<rparr>)
      else if long_index = 3 then set_opt (atoi optarg) (\<lambda>x. args\<lparr>ar_immu_tlb_count := x\<rparr>)
      else if long_index = 4 then set_opt (parse_bool optarg) (\<lambda>x. args\<lparr>ar_dmmu_enable_uncached_seg := x\<rparr>)
      else if long_index = 5 then set_opt (atoi optarg) (\<lambda>x. args\<lparr>ar_icache_p_ways := x\<rparr>)
      else if long_index = 6 then set_opt (atoi optarg) (\<lambda>x. args\<lparr>ar_icache_p_sets := x\<rparr>)
      else if long_index = 7 then set_opt (atoi optarg) (\<lambda>x. args\<lparr>ar_icache_p_line := x\<rparr>)
      else if long_index = 8 then set_opt (atoi optarg) (\<lambda>x. args\<lparr>ar_dcache_p_ways := x\<rparr>)
      else if long_index = 9 then set_opt (atoi optarg) (\<lambda>x. args\<lparr>ar_dcache_p_sets := x\<rparr>)
      else if long_index = 10 then set_opt (atoi optarg) (\<lambda>x. args\<lparr>ar_dcache_p_line := x\<rparr>)
      else if long_index = 11 then set_opt (atoi optarg) (\<lambda>x. args\<lparr>ar_mmio_phy_base := word_of_int x\<rparr>)
      else if long_index = 12 then set_opt (atoi optarg) (\<lambda>x. args\<lparr>ar_IRQ_TSC := x\<rparr>)
      else if long_index = 13 then set_opt (atol optarg) (\<lambda>x. args\<lparr>ar_device_clk_div := word_of_int x\<rparr>)
      else if long_index = 14 then set_opt (parse_bool optarg) (\<lambda>x. args\<lparr>ar_enable_icache := x\<rparr>)
      else if long_index = 15 then set_opt (parse_bool optarg) (\<lambda>x. args\<lparr>ar_enable_dcache := x\<rparr>)
      else if long_index = 16 then set_opt (parse_int optarg) (\<lambda>x. args\<lparr>ar_wave_begin := word_of_int x\<rparr>)
      else if long_index = 17 then set_opt (parse_int optarg) (\<lambda>x. args\<lparr>ar_wave_end := word_of_int x\<rparr>)
      else if long_index = 18 then set_opt (atol optarg) (\<lambda>x. args\<lparr>ar_commit_timeout_max := word_of_int x\<rparr>)
      else if long_index = 19 then set_opt (parse_bool optarg) (\<lambda>x. args\<lparr>ar_immu_enable_uncached_seg := x\<rparr>)
      else if long_index = 20 then Inr (Some (args\<lparr>ar_symbol_file := optarg\<rparr>))
      else if long_index = 21 then Inr (Some (args\<lparr>ar_virt_uart_file := optarg\<rparr>))
      else if long_index = 22 then Inr (Some (args\<lparr>ar_flash_image_file := optarg\<rparr>))
      else Inr None)"

definition parse_char :: "char \<Rightarrow> string \<Rightarrow> Args \<Rightarrow> halt + Args option" where
  "parse_char opt optarg args =
     (if opt = CHR ''b'' then Inr (Some (args\<lparr>ar_bin_pathname := optarg\<rparr>))
      else if opt = CHR ''a'' then set_opt (parse_int optarg) (\<lambda>x. args\<lparr>ar_bin_load_addr := word_of_int x\<rparr>)
      else if opt = CHR ''r'' then set_opt (parse_int optarg) (\<lambda>x. args\<lparr>ar_pc_rst := word_of_int x\<rparr>)
      else if opt = CHR ''d'' then Inr (Some (args\<lparr>ar_vcdfile := optarg\<rparr>))
      else Inr None)"

text \<open>\<open>None\<close> is \<open>return usage(...)\<close>, which is 1.\<close>

fun parse_args :: "getopt list \<Rightarrow> Args \<Rightarrow> halt + Args option" where
  "parse_args [] args = Inr (if ar_bin_pathname args = [] then None else Some args)"
| "parse_args (g # gs) args =
     bnd (case g of GLong i optarg \<Rightarrow> parse_long i optarg args | GChar c optarg \<Rightarrow> parse_char c optarg args) (\<lambda>r.
     case r of None \<Rightarrow> Inr None | Some args' \<Rightarrow> parse_args gs args')"

section \<open>Construction of the machine\<close>

text \<open>
  The contents of fresh objects: of the interpreter, the serial port and the flash, and of the memory, serial port and flash
  of the design. Each is a function of the options, which give the sizes.
\<close>

record fresh =
  fr_cpu :: "Args \<Rightarrow> raw_init"
  fr_uart :: DevicePbUart
  fr_flash :: "u8 list"
  fr_rtl_mem :: "Args \<Rightarrow> u8 list"
  fr_rtl_uart :: DevicePbUart
  fr_rtl_flash :: "u8 list"

record files =
  fi_open :: "string \<rightharpoonup> u8 list"
  fi_symbols :: "string \<rightharpoonup> sym_node list"

text \<open>An operand of \<open>1 << \<dots>\<close>\<close>

definition shift_arg :: "int \<Rightarrow> halt + nat" where
  "shift_arg i = (if 0 \<le> i \<and> i < 31 then Inr (nat i) else Inl Undefined)"

definition shift_args :: "int \<Rightarrow> int \<Rightarrow> int \<Rightarrow> halt + nat \<times> nat \<times> nat" where
  "shift_args w s l = bnd (shift_arg w) (\<lambda>w'. bnd (shift_arg s) (\<lambda>s'. bnd (shift_arg l) (\<lambda>l'. Inr (w', s', l'))))"

definition main_CPU :: "fresh \<Rightarrow> 'dv \<Rightarrow> Args \<Rightarrow> halt + (dev_cb, 'dv) CPU" where
  "main_CPU fr dv args =
     (if ar_ram_size args < 0 then Inl AssertFail else
      bnd (shift_args (ar_icache_p_ways args) (ar_icache_p_sets args) (ar_icache_p_line args)) (\<lambda>ic.
      bnd (shift_args (ar_dcache_p_ways args) (ar_dcache_p_sets args) (ar_dcache_p_line args)) (\<lambda>dc.
      CPU_new (fr_cpu fr args) dv (ar_dmmu_tlb_count args) (ar_immu_tlb_count args)
        (ar_dmmu_enable_uncached_seg args) (ar_immu_enable_uncached_seg args) (ar_enable_icache args) (ar_enable_dcache args) ic dc
        (ar_dram_phy_base args) (ar_mmio_phy_base args) (ar_mmio_phy_end_addr args) (ar_IRQ_TSC args)
        (ar_vect_EINSN args) (ar_vect_EIRQ args) (ar_vect_ESYSCALL args) (ar_vect_EIPF args) (ar_vect_EDPF args)
        (ar_vect_EITM args) (ar_vect_EDTM args) (ar_vect_EALIGN args))))"

text \<open>
  From the first \<open>new\<close> to \<open>reset\<close>. \<open>Inl code\<close> is a return of \<open>main\<close>. A binary that cannot be opened is reported, but the null file is then read. \<open>v\<close> is the file-scope
  state of the host side of the serial port.
\<close>

definition main_boot :: "fresh \<Rightarrow> files \<Rightarrow> virt_uart \<Rightarrow> DeviceTree \<Rightarrow> Args \<Rightarrow> halt + (int + (dev_cb, DeviceTree) CPU)" where
  "main_boot fr fi v dev0 args =
     bnd (main_CPU fr dev0 args) (\<lambda>cpu.
     bnd (load_address_fp (fi_open fi (ar_bin_pathname args)) (ar_bin_load_addr args) (cpu_mem cpu)) (\<lambda>(err, M).
     if err \<noteq> 0 then Inr (Inl 1)
     else if ar_flash_image_file args \<noteq> [] \<and> fi_open fi (ar_flash_image_file args) = None then Inr (Inl 1)
     else if ar_symbol_file args \<noteq> [] \<and> fi_symbols fi (ar_symbol_file args) = None then Inr (Inl 1)
     else
       let flash_image_fp = (if ar_flash_image_file args = [] then None else fi_open fi (ar_flash_image_file args));
           syms = (if ar_symbol_file args = [] then cpu_symtable cpu
             else case fi_symbols fi (ar_symbol_file args) of None \<Rightarrow> cpu_symtable cpu | Some nds \<Rightarrow> symtable_load nds (cpu_symtable cpu)) in
       bnd (DeviceTree_new (fr_uart fr) (fr_flash fr) True (ar_mmio_phy_base args) flash_image_fp v M) (\<lambda>(dt, M').
       Inr (Inr (cpu_reset (ar_pc_rst args) (cpu\<lparr>cpu_mem := M', cpu_symtable := syms, cpu_dev := dt\<rparr>))))))"

section \<open>The loops\<close>

partial_function (option) main_loop :: "('s \<Rightarrow> halt + bool \<times> 's) \<Rightarrow> 's \<Rightarrow> (halt + 's) option" where
  "main_loop iter s =
     (case iter s of
        Inl e \<Rightarrow> Some (Inl e)
      | Inr (fin, s') \<Rightarrow> if fin then Some (Inr s') else main_loop iter s')"

definition emu_dev_step :: "(dev_cb, DeviceTree) CPU \<Rightarrow> halt + (dev_cb, DeviceTree) CPU" where
  "emu_dev_step cpu =
     bnd (DeviceTree_step (cpu_msr cpu, cpu_dev cpu)) (\<lambda>(m, dt). Inr (cpu\<lparr>cpu_msr := m, cpu_dev := dt\<rparr>))"

definition xb_dev_step ::
  "(dev_cb, dev_world, 'ds, 'rsp) Axi4Crossbar \<Rightarrow> halt + unit \<times> (dev_cb, dev_world, 'ds, 'rsp) Axi4Crossbar" where
  "xb_dev_step xb = (case xb_mem xb of (M, d) \<Rightarrow> bnd (DeviceTree_step d) (\<lambda>d'. Inr ((), xb\<lparr>xb_mem := (M, d')\<rparr>)))"

text \<open>The standalone loop never leaves through its condition. Its state is \<open>device_clk\<close> and the machine.\<close>

definition standalone_iter ::
  "u64 \<Rightarrow> u64 \<times> (dev_cb, DeviceTree) CPU \<Rightarrow> halt + bool \<times> u64 \<times> (dev_cb, DeviceTree) CPU" where
  "standalone_iter device_clk_div = (\<lambda>(device_clk, cpu).
     let device_clk = device_clk + 1 in
     bnd (if device_clk = device_clk_div then bnd (emu_dev_step cpu) (\<lambda>cpu'. Inr (0, cpu')) else Inr (device_clk, cpu)) (\<lambda>(device_clk, cpu).
     bnd (run_step dev_vt cpu) (\<lambda>cpu'. Inr (False, device_clk, cpu'))))"

definition difftest_iter ::
  "'v Vsimtop \<Rightarrow> ('ds, 'rsp) CoDRAMsim3 \<Rightarrow> axi_channel \<Rightarrow> ('v, 'ds, 'rsp) harness \<Rightarrow> halt + bool \<times> ('v, 'ds, 'rsp) harness" where
  "difftest_iter V D raw s =
     bnd (emu_clk V D raw (dpi_on V D raw) s) (\<lambda>(fin, E, df).
     if fin then Inr (True, E, df)
     else
       bnd (emu_dev_step (dpic_emu_CPU df)) (\<lambda>cpu.
       bnd (on_xbar xb_dev_step (E, df\<lparr>dpic_emu_CPU := cpu\<rparr>)) (\<lambda>(_, s'). Inr (False, s'))))"

text \<open>Here the devices of the interpreter are those of the crossbar; the periodic report is not modelled.\<close>

definition simulate_iter ::
  "'v Vsimtop \<Rightarrow> ('ds, 'rsp) CoDRAMsim3 \<Rightarrow> axi_channel \<Rightarrow> ('v, 'ds, 'rsp) harness \<Rightarrow> halt + bool \<times> ('v, 'ds, 'rsp) harness" where
  "simulate_iter V D raw s =
     bnd (emu_clk V D raw (dpi_on V D raw) s) (\<lambda>(fin, s').
     if fin then Inr (True, s') else bnd (on_xbar xb_dev_step s') (\<lambda>(_, s''). Inr (False, s'')))"

section \<open>The program\<close>

text \<open>
  The second memory and device tree, for the design, and the start of differential testing. The tree
  has no processor, so it does not use the registers it is paired with.
\<close>

definition difftest_setup ::
  "'v Vsimtop \<Rightarrow> ('ds, 'rsp) CoDRAMsim3 \<Rightarrow> axi_channel \<Rightarrow> 'v \<Rightarrow> 'ds \<Rightarrow> fresh \<Rightarrow> files \<Rightarrow> Args \<Rightarrow> (dev_cb, DeviceTree) CPU \<Rightarrow>
   halt + (int + ('v, 'ds, 'rsp) harness)" where
  "difftest_setup V D raw v0 ds fr fi args cpu =
     bnd (Memory_new False (fr_rtl_mem fr args) (ar_dram_phy_base args) (ar_mmio_phy_base args) (ar_mmio_phy_end_addr args)) (\<lambda>M.
     bnd (load_address_fp (fi_open fi (ar_bin_pathname args)) (ar_bin_load_addr args) M) (\<lambda>(err, M1).
     if err \<noteq> 0 then Inr (Inl 1)
     else
       let flash_image_fp = (if ar_flash_image_file args = [] then None else fi_open fi (ar_flash_image_file args)) in
       bnd (DeviceTree_new (fr_rtl_uart fr) (fr_rtl_flash fr) False (ar_mmio_phy_base args) flash_image_fp (dt_virt (cpu_dev cpu)) M1) (\<lambda>(dt, M2).
       let df = df_set_virt (dt_virt dt) (difftest_static (msr_set_cpuid False cpu)) in
       bnd (Emu_new V (dpi_on V D raw) v0 ds (ar_vcdfile args) (ar_wave_begin args) (ar_wave_end args) (M2, cpu_msr cpu, dt) df) (\<lambda>(E, df').
       Inr (Inr (E, startup_difftest (dpic_emu_CPU df') (ar_commit_timeout_max args) df'))))))"

text \<open>\<open>retcode\<close> is only printed: whatever the mode, a loop that is left makes \<open>main\<close> return 0.\<close>

definition loop_result :: "(halt + 's) option \<Rightarrow> (halt + int) option" where
  "loop_result r = map_option (map_sum id (\<lambda>_. 0)) r"

definition emu_main ::
  "'v Vsimtop \<Rightarrow> ('ds, 'rsp) CoDRAMsim3 \<Rightarrow> axi_channel \<Rightarrow> 'v \<Rightarrow> 'ds \<Rightarrow> fresh \<Rightarrow> files \<Rightarrow> virt_uart \<Rightarrow> DeviceTree \<Rightarrow> getopt list \<Rightarrow>
   (halt + int) option" where
  "emu_main V D raw v0 ds fr fi v dev0 opts =
     (case parse_args opts Args_new of
        Inl e \<Rightarrow> Some (Inl e)
      | Inr None \<Rightarrow> Some (Inr 1)
      | Inr (Some args) \<Rightarrow>
          (case main_boot fr fi v dev0 args of
             Inl e \<Rightarrow> Some (Inl e)
           | Inr (Inl code) \<Rightarrow> Some (Inr code)
           | Inr (Inr cpu) \<Rightarrow>
               (case ar_mode args of
                  ModeStandalone \<Rightarrow> loop_result (main_loop (standalone_iter (ar_device_clk_div args)) (0, cpu))
                | ModeDifftest \<Rightarrow>
                    (case difftest_setup V D raw v0 ds fr fi args cpu of
                       Inl e \<Rightarrow> Some (Inl e)
                     | Inr (Inl code) \<Rightarrow> Some (Inr code)
                     | Inr (Inr s) \<Rightarrow> loop_result (main_loop (difftest_iter V D raw) s))
                | ModeSimulateOnly \<Rightarrow>
                    (case Emu_new V (dpi_on V D raw) v0 ds (ar_vcdfile args) (ar_wave_begin args) (ar_wave_end args) (cpu_bus cpu) (difftest_static cpu) of
                       Inl e \<Rightarrow> Some (Inl e)
                     | Inr s \<Rightarrow> loop_result (main_loop (simulate_iter V D raw) s)))))"

text \<open>\<open>main(argc, argv)\<close>: the arguments after the name of the program are parsed.\<close>

definition emu_program ::
  "(string \<rightharpoonup> nat) \<Rightarrow> 'v Vsimtop \<Rightarrow> ('ds, 'rsp) CoDRAMsim3 \<Rightarrow> axi_channel \<Rightarrow> 'v \<Rightarrow> 'ds \<Rightarrow> fresh \<Rightarrow> files \<Rightarrow> virt_uart \<Rightarrow> DeviceTree \<Rightarrow> string list \<Rightarrow>
   (halt + int) option" where
  "emu_program abbrev V D raw v0 ds fr fi v dev0 argv = emu_main V D raw v0 ds fr fi v dev0 (getopt_long abbrev (tl argv))"

section \<open>Options by name\<close>

text \<open>
  The table and the \<open>switch\<close> over its indices agree: an option given by its full name, with its argument after an equals sign or as the next argument, is
  returned with its own index, and a short option with its letter.
\<close>

lemma long_option_names: "distinct (map op_name long_options)" "\<forall>p \<in> set long_options. CHR ''='' \<notin> set (op_name p) \<and> op_name p \<noteq> []"
  by (simp_all add: long_options_def)

lemma find_long_name:
  assumes "i < length long_options"
  shows "find_long abbrev (op_name (long_options ! i)) = Some i"
proof -
  have "op_name (long_options ! j) = op_name (long_options ! i) \<longleftrightarrow> j = i" if "j < length long_options" for j
    using nth_eq_iff_index_eq [OF long_option_names(1)] that assms by simp
  then have "find (\<lambda>j. op_name (long_options ! j) = op_name (long_options ! i)) [0..<length long_options] = Some i"
    using assms by (auto simp: find_Some_iff intro!: exI [of _ i])
  then show ?thesis by (simp add: find_long_def)
qed

lemma getopt_long_name:
  assumes "i < length long_options" and "op_has_arg (long_options ! i)"
  shows "getopt_long abbrev ((''--'' @ op_name (long_options ! i) @ ''='' @ v) # rest) = long_result i v # getopt_long abbrev rest"
    and "getopt_long abbrev ((''--'' @ op_name (long_options ! i)) # v # rest) = long_result i v # getopt_long abbrev rest"
proof -
  let ?n = "op_name (long_options ! i)"
  have n: "CHR ''='' \<notin> set ?n" "?n \<noteq> []" using long_option_names(2) nth_mem [OF assms(1)] by auto
  then have "\<forall>c \<in> set ?n. c \<noteq> CHR ''=''" by auto
  then have t: "takeWhile (\<lambda>c. c \<noteq> CHR ''='') (?n @ CHR ''='' # v) = ?n" "dropWhile (\<lambda>c. c \<noteq> CHR ''='') (?n @ CHR ''='' # v) = CHR ''='' # v"
    "takeWhile (\<lambda>c. c \<noteq> CHR ''='') ?n = ?n" "dropWhile (\<lambda>c. c \<noteq> CHR ''='') ?n = []"
    by (simp_all add: takeWhile_append2 dropWhile_append2 takeWhile_eq_all_conv [THEN iffD2] dropWhile_eq_Nil_conv [THEN iffD2])
  show "getopt_long abbrev ((''--'' @ ?n @ ''='' @ v) # rest) = long_result i v # getopt_long abbrev rest"
    using assms(2) n find_long_name [OF assms(1)] t(1,2) by simp
  show "getopt_long abbrev ((''--'' @ ?n) # v # rest) = long_result i v # getopt_long abbrev rest"
    using assms(2) n find_long_name [OF assms(1)] by (simp add: t(3,4) Let_def)
qed

section \<open>Runs of a loop\<close>

text \<open>The state after at most \<open>n\<close> iterations.\<close>

fun loop_run :: "('s \<Rightarrow> halt + bool \<times> 's) \<Rightarrow> nat \<Rightarrow> 's \<Rightarrow> halt + 's" where
  "loop_run iter 0 s = Inr s"
| "loop_run iter (Suc n) s = bnd (iter s) (\<lambda>(fin, s'). if fin then Inr s' else loop_run iter n s')"

lemma loop_run_keeps:
  assumes "\<And>s fin s'. P s \<Longrightarrow> iter s = Inr (fin, s') \<Longrightarrow> P s'" "P s" "loop_run iter n s = Inr s'"
  shows "P s'"
  using assms(2,3)
proof (induction n arbitrary: s)
  case (Suc n)
  then obtain fin s1 where "iter s = Inr (fin, s1)" "(if fin then Inr s1 else loop_run iter n s1) = Inr s'" by auto
  then show ?case using Suc.IH [of s1] assms(1) [OF Suc.prems(1)] by (auto split: if_splits)
qed simp

text \<open>A loop ends when every iteration that goes on decreases a measure.\<close>

lemma main_loop_ends:
  assumes "\<And>s s'. P s \<Longrightarrow> iter s = Inr (False, s') \<Longrightarrow> P s' \<and> (m s' :: nat) < m s" "P s"
  shows "\<exists>r. main_loop iter s = Some r"
  using assms(2)
proof (induction "m s" arbitrary: s rule: less_induct)
  case less
  show ?case
  proof (cases "iter s")
    case (Inr x)
    obtain fin s' where x: "x = (fin, s')" by (rule prod.exhaust)
    then show ?thesis
      using assms(1) [OF less.prems, of s'] less.hyps [of s'] Inr by (cases fin) (auto simp: main_loop.simps [of iter s])
  qed (simp add: main_loop.simps [of iter s])
qed

lemma main_loop_left:
  assumes "main_loop iter s = Some r" "\<And>s s'. iter s = Inr (True, s') \<Longrightarrow> Q s'"
  shows "\<forall>s'. r = Inr s' \<longrightarrow> Q s'"
proof -
  have "(\<forall>s s'. iter s = Inr (True, s') \<longrightarrow> Q s') \<longrightarrow> (\<forall>s'. r = Inr s' \<longrightarrow> Q s')"
    using assms(1) by (rule main_loop.raw_induct [rotated]) (auto split: sum.splits prod.splits if_splits)
  then show ?thesis using assms(2) by blast
qed

lemma emu_clk_fin: "emu_clk V D raw h s = Inr (True, s') \<Longrightarrow> v_gotFinish V (dut_ptr (fst s)) \<and> s' = s"
  by (cases "v_gotFinish V (dut_ptr (fst s))") (simp_all add: emu_clk_def Let_def split_beta)

section \<open>Differential testing\<close>

lemma emu_dev_step_frame: "emu_dev_step cpu = Inr cpu' \<Longrightarrow> regfile cpu' = regfile cpu"
  by (auto simp: emu_dev_step_def)

lemma difftest_iter_agree:
  assumes "regs_agree (snd s)" "difftest_iter V D raw s = Inr (fin, s')"
  shows "regs_agree (snd s')"
proof -
  from assms(2) obtain f E df where c: "emu_clk V D raw (dpi_on V D raw) s = Inr (f, E, df)"
    and r: "f \<and> s' = (E, df) \<or> (\<exists>cpu u. emu_dev_step (dpic_emu_CPU df) = Inr cpu \<and> on_xbar xb_dev_step (E, df\<lparr>dpic_emu_CPU := cpu\<rparr>) = Inr (u, s'))"
    by (auto simp: difftest_iter_def split: if_splits)
  have "regs_agree df" using agree.clk_holds [OF _ c] assms(1) by (simp add: agree.holds_def)
  then have "regs_agree (df\<lparr>dpic_emu_CPU := cpu\<rparr>)" if "emu_dev_step (dpic_emu_CPU df) = Inr cpu" for cpu
    using emu_dev_step_frame [OF that] by (auto intro: regs_agree_frame)
  then show ?thesis
    using r \<open>regs_agree df\<close> agree.on_xbar_holds [of "(E, df\<lparr>dpic_emu_CPU := cpu\<rparr>)" for cpu, unfolded agree.holds_def snd_conv]
    by (metis snd_conv)
qed

lemma main_boot_regs: "main_boot fr fi v dev0 args = Inr (Inr cpu) \<Longrightarrow> regfile cpu = replicate 32 0"
  by (auto simp: main_boot_def Let_def cpu_reset_def split: if_splits)

lemma regs_agree_static: "regfile cpu = replicate 32 0 \<Longrightarrow> regs_agree (difftest_static cpu)"
  by (auto simp: regs_agree_def difftest_static_def get_reg_nth)

lemma difftest_setup_agree:
  assumes "regfile cpu = replicate 32 0" "difftest_setup V D raw v0 ds fr fi args cpu = Inr (Inr s)"
  shows "regs_agree (snd s)"
proof -
  from assms(2) obtain dt M2 E df' where
    e: "Emu_new V (dpi_on V D raw) v0 ds (ar_vcdfile args) (ar_wave_begin args) (ar_wave_end args) (M2, cpu_msr cpu, dt)
        (df_set_virt (dt_virt dt) (difftest_static (msr_set_cpuid False cpu))) = Inr (E, df')"
    and s: "s = (E, startup_difftest (dpic_emu_CPU df') (ar_commit_timeout_max args) df')"
    by (auto simp: difftest_setup_def Let_def split: if_splits)
  have "regs_agree (df_set_virt (dt_virt dt) (difftest_static (msr_set_cpuid False cpu)))"
    by (rule agree.virt, rule regs_agree_static) (simp add: msr_set_cpuid_def assms(1))
  then have "regs_agree df'" using e agree.reset_holds unfolding agree.holds_def by (fastforce simp: Emu_new_def)
  then show ?thesis by (auto simp: s startup_difftest_def intro: regs_agree_frame)
qed

text \<open>
  Claim C7: differential testing goes on only while the registers agree. For every design, every binary and
  every option with which the machine and the test are set up, after any number of iterations of the loop of \<open>main\<close> that the program survives, all 32 registers of the interpreter are
  those the design has written.
\<close>

theorem difftest_agreement:
  assumes "main_boot fr fi v dev0 args = Inr (Inr cpu)" and "difftest_setup V D raw v0 ds fr fi args cpu = Inr (Inr s)"
    and "loop_run (difftest_iter V D raw) n s = Inr (E, df)" and "i < 32"
  shows "get_reg (of_nat i) (dpic_emu_CPU df) = Inr (rtl_regfile df ! i)"
proof -
  let ?P = "\<lambda>s. regs_agree (snd s)"
  have s: "?P s" by (rule difftest_setup_agree [OF main_boot_regs [OF assms(1)] assms(2)])
  have "?P (E, df)" using assms(3) by (rule loop_run_keeps [where P = ?P, rotated 2]) (rule difftest_iter_agree, assumption+, rule s)
  then show ?thesis using assms(4) by (simp add: regs_agree_def)
qed

lemma difftest_iter_hung:
  assumes "hangs V hung" "hung (dut_ptr (fst s))" "waiting L T (snd s)" "difftest_iter V D raw s = Inr (False, s')"
  shows "hung (dut_ptr (fst s')) \<and> waiting L T (snd s') \<and> emu_cycles (fst s') = emu_cycles (fst s) + 1 \<and> emu_cycles (fst s) - L \<le> T"
proof -
  from assms(4) obtain E df cpu u where c: "emu_clk V D raw (dpi_on V D raw) s = Inr (False, E, df)"
    "emu_dev_step (dpic_emu_CPU df) = Inr cpu" "on_xbar xb_dev_step (E, df\<lparr>dpic_emu_CPU := cpu\<rparr>) = Inr (u, s')"
    by (auto simp: difftest_iter_def split: if_splits)
  note h = emu_clk_hung [OF assms(1-3) c(1)]
  have "waiting L T (df\<lparr>dpic_emu_CPU := cpu\<rparr>)" using h by (simp add: waiting_def)
  then have "waiting L T (snd s')" using c(3) by (auto simp: on_xbar_def waiting_def df_set_virt_def Let_def)
  then show ?thesis using h on_xbar_cycles [OF c(3)] by simp
qed

text \<open>
  Claim C8: a design that hangs does not hang the program. When the design has entered a set of states that it does not leave, in which it
  commits nothing more, the loop of differential testing ends, for every timeout but \<open>2 ^ 64 - 1\<close>: the process is stopped, or the loop is left because the design has finished the simulation.
\<close>

theorem difftest_watchdog:
  assumes "hangs V hung" and "hung (dut_ptr (fst s))" and "waiting L T (snd s)" and "T \<noteq> 2 ^ 64 - 1"
  shows "\<exists>r. main_loop (difftest_iter V D raw) s = Some r \<and> (\<forall>s'. r = Inr s' \<longrightarrow> v_gotFinish V (dut_ptr (fst s')))"
proof -
  let ?P = "\<lambda>s. hung (dut_ptr (fst s)) \<and> waiting L T (snd s)" and ?m = "\<lambda>s. unat T + 1 - unat (emu_cycles (fst s) - L)"
  have T: "unat T + 1 < 2 ^ 64" using assms(4) unat_less_exp [of T] by (auto simp: word_unat_eq_iff)
  have step: "?P s' \<and> ?m s' < ?m s" if "?P s" "difftest_iter V D raw s = Inr (False, s')" for s s'
  proof -
    note h = difftest_iter_hung [OF assms(1) _ _ that(2), of L T]
    let ?d = "emu_cycles (fst s) - L"
    have d: "unat ?d \<le> unat T" "emu_cycles (fst s') - L = ?d + 1" using h that(1) by (simp_all add: word_le_nat_alt)
    then have "unat (?d + 1) = unat ?d + 1" using T by (simp add: unat_word_ariths(1))
    then have "?m s' < ?m s" unfolding d(2) using d(1) by simp
    moreover have "?P s'" using h that(1) by simp
    ultimately show ?thesis by simp
  qed
  have "\<exists>r. main_loop (difftest_iter V D raw) s = Some r"
    by (rule main_loop_ends [where P = ?P and m = ?m, OF step conjI [OF assms(2,3)]])
  then obtain r where r: "main_loop (difftest_iter V D raw) s = Some r" ..
  moreover have "\<forall>s'. r = Inr s' \<longrightarrow> v_gotFinish V (dut_ptr (fst s'))"
  proof (rule main_loop_left [OF r])
    show "v_gotFinish V (dut_ptr (fst s'))" if "difftest_iter V D raw s = Inr (True, s')" for s s'
      using that emu_clk_fin [of V D raw "dpi_on V D raw" s] by (auto simp: difftest_iter_def split: if_splits)
  qed
  ultimately show ?thesis by blast
qed

section \<open>The machine that \<open>main\<close> builds\<close>

text \<open>
  Options for which the constructors are defined: sizes that are powers of two, as many ways as sets in a cache, an MMIO window that holds the devices, a flash image;
  fresh objects of the sizes that the options give.
\<close>

definition options_ok :: "fresh \<Rightarrow> Args \<Rightarrow> nat \<Rightarrow> nat \<Rightarrow> nat \<Rightarrow> nat \<Rightarrow> nat \<Rightarrow> nat \<Rightarrow> bool" where
  "options_ok fr args ki kd pi li pd ld \<longleftrightarrow>
     raw_shape ki kd pi li pd ld (fr_cpu fr args) \<and> ar_ram_size args = int (length (raw_mem (fr_cpu fr args))) \<and> length (fr_flash fr) = 0x10000000 \<and>
     ar_dmmu_tlb_count args = 2 ^ kd \<and> ar_immu_tlb_count args = 2 ^ ki \<and>
     ar_icache_p_ways args = int pi \<and> ar_icache_p_sets args = int pi \<and> ar_icache_p_line args = int li \<and> pi < 31 \<and> li < 31 \<and>
     ar_dcache_p_ways args = int pd \<and> ar_dcache_p_sets args = int pd \<and> ar_dcache_p_line args = int ld \<and> pd < 31 \<and> ld < 31 \<and>
     ar_mmio_phy_base args \<le> ar_mmio_phy_end_addr args \<and> unat (ar_mmio_phy_base args) \<le> 0xC0000000"

text \<open>The binary, the flash image and the symbol file exist, and the binary fits into the memory at its load address.\<close>

definition files_ok :: "files \<Rightarrow> Args \<Rightarrow> u8 list \<Rightarrow> bool" where
  "files_ok fi args bin \<longleftrightarrow>
     fi_open fi (ar_bin_pathname args) = Some bin \<and> ar_dram_phy_base args \<le> ar_bin_load_addr args \<and>
     unat (ar_bin_load_addr args - ar_dram_phy_base args) < nat (ar_ram_size args) \<and>
     unat (ar_bin_load_addr args - ar_dram_phy_base args) + length bin \<le> nat (ar_ram_size args) \<and>
     ar_flash_image_file args \<noteq> [] \<and> fi_open fi (ar_flash_image_file args) \<noteq> None \<and>
     (ar_symbol_file args \<noteq> [] \<longrightarrow> fi_symbols fi (ar_symbol_file args) \<noteq> None)"

lemma in_dram_new:
  assumes "Memory_new c raw dram mb me = Inr M" "length raw < 2 ^ 63" "dram \<le> a" "unat (a - dram) < length raw"
  shows "in_dram M a"
proof -
  have M: "dram_phy_start M = dram" "memory_size M = of_nat (length raw)" using assms(1) by (auto simp: Memory_new_def)
  have s: "unat (of_nat (length raw) :: u64) = length raw" using assms(2) by (simp add: unat_of_nat take_bit_nat_eq_self)
  have d: "unat a < unat dram + length raw" using assms(3,4) by (simp add: unat_sub word_le_nat_alt)
  have "unat dram < 2 ^ 32" using unat_less_exp [of dram] by simp
  then have "unat (ucast dram + of_nat (length raw) :: u64) = unat dram + length raw"
    using assms(2) by (simp add: unat_word_ariths(1) s unat_ucast_up)
  then show ?thesis using d assms(3) by (simp add: in_dram_def M word_less_nat_alt unat_ucast_up)
qed

lemma load_new:
  assumes "Memory_new c raw dram mb me = Inr M" "length raw < 2 ^ 63" "dram \<le> a" "unat (a - dram) < length raw"
    "unat (a - dram) + length bin \<le> length raw"
  obtains M1 raw' where "load_address_fp (Some bin) a M = Inr (0, M1)" "Memory_new c raw' dram mb me = Inr M1" "length raw' = length raw"
    "\<forall>k < length bin. raw' ! (unat (a - dram) + k) = bin ! k"
proof -
  let ?i = "unat (a - dram)"
  let ?r = "take ?i raw @ bin @ drop (?i + length bin) raw"
  have M: "memory M = raw" "dram_phy_start M = dram" using Memory_new_fields [OF assms(1)] by simp_all
  have len: "length ?r = length raw" using assms(5) by simp
  have "load_address_fp (Some bin) a M = Inr (0, M\<lparr>memory := ?r\<rparr>)"
    using in_dram_new [OF assms(1-4)] assms(5) by (simp add: load_address_fp_def load_chunks_blit M)
  moreover have "Memory_new c ?r dram mb me = Inr (M\<lparr>memory := ?r\<rparr>)"
    using assms(1) len by (auto simp: Memory_new_def)
  moreover note len
  moreover have "\<forall>k < length bin. ?r ! (?i + k) = bin ! k" using assms(4,5) by (simp add: nth_append)
  ultimately show thesis by (rule that)
qed

text \<open>The addresses of the memory that the options describe.\<close>

definition args_ram :: "Args \<Rightarrow> vm_addr_t \<Rightarrow> bool" where
  "args_ram args a \<longleftrightarrow> ar_dram_phy_base args \<le> a \<and> uint a < uint (ar_dram_phy_base args) + ar_ram_size args \<and>
     \<not> (ar_mmio_phy_base args \<le> a \<and> a \<le> ar_mmio_phy_end_addr args)"

lemma args_ram_new:
  assumes "Memory_new c raw (ar_dram_phy_base args) (ar_mmio_phy_base args) (ar_mmio_phy_end_addr args) = Inr M"
    and "length raw < 2 ^ 63" and "ar_ram_size args = int (length raw)"
  shows "dram_at M = args_ram args"
proof
  fix a
  have M: "dram_phy_start M = ar_dram_phy_base args" "memory_size M = of_nat (length raw)"
    "mmio_phy_base M = ar_mmio_phy_base args" "mmio_phy_end_addr M = ar_mmio_phy_end_addr args"
    using assms(1) by (auto simp: Memory_new_def)
  have "unat (of_nat (length raw) :: u64) = length raw" using assms(2) by (simp add: unat_of_nat take_bit_nat_eq_self)
  then have "in_dram M a \<longleftrightarrow> unat (ar_dram_phy_base args) \<le> unat a \<and> unat a < unat (ar_dram_phy_base args) + length raw"
    using in_dram_nat [OF mem_wf_new [OF assms(1,2)]] by (simp add: M)
  moreover have "uint a < uint (ar_dram_phy_base args) + int (length raw) \<longleftrightarrow> unat a < unat (ar_dram_phy_base args) + length raw"
    unfolding uint_nat by linarith
  ultimately show "dram_at M a = args_ram args a"
    unfolding dram_at_def args_ram_def in_mmio_def M assms(3) word_le_nat_alt [of _ a] by auto
qed

lemma main_boot_ok:
  assumes opt: "options_ok fr args ki kd pi li pd ld" and files: "files_ok fi args bin"
  shows "\<exists>cpu. main_boot fr fi v dev0 args = Inr (Inr cpu) \<and> machine_ok (ar_mmio_phy_base args) ki kd (ar_IRQ_TSC args) cpu \<and>
    cpu_pc cpu = ar_pc_rst args \<and>
    (\<forall>k < length bin. memory (cpu_mem cpu) ! (unat (ar_bin_load_addr args - ar_dram_phy_base args) + k) = bin ! k) \<and>
    regfile cpu = replicate 32 0 \<and> PSR (cpu_msr cpu) = psr_reset \<and> dram_phy_start (cpu_mem cpu) = ar_dram_phy_base args \<and>
    dram_at (cpu_mem cpu) = args_ram args"
proof -
  let ?raw = "fr_cpu fr args" and ?mb = "ar_mmio_phy_base args" and ?me = "ar_mmio_phy_end_addr args" and ?dram = "ar_dram_phy_base args"
  let ?a = "ar_bin_load_addr args"
  have o: "raw_shape ki kd pi li pd ld ?raw" "?mb \<le> ?me" "unat ?mb \<le> 0xC0000000" "length (fr_flash fr) = 0x10000000" "length (raw_mem ?raw) < 2 ^ 63"
    "msr_wf (2 ^ ki) (2 ^ kd) (raw_msr ?raw)" "ar_ram_size args = int (length (raw_mem ?raw))"
    using opt by (simp_all add: options_ok_def raw_shape_def)
  obtain cpu where cpu: "main_CPU fr dev0 args = Inr cpu" "Memory_new True (raw_mem ?raw) ?dram ?mb ?me = Inr (cpu_mem cpu)"
      "cache_wf (icache cpu)" "cache_wf (dcache cpu)" "pcq_wf (pc_queue cpu)" "ras_wf (cpu_ras cpu)"
      "immu_tlb_count cpu = 2 ^ ki" "dmmu_tlb_count cpu = 2 ^ kd" "IRQ_TSC cpu = ar_IRQ_TSC args" "cpu_msr cpu = msr_reset (raw_msr ?raw)"
    using CPU_new_ok [OF o(1,2), of dev0 "ar_dmmu_enable_uncached_seg args" "ar_immu_enable_uncached_seg args" "ar_enable_icache args"
        "ar_enable_dcache args" ?dram "ar_IRQ_TSC args" "ar_vect_EINSN args" "ar_vect_EIRQ args" "ar_vect_ESYSCALL args" "ar_vect_EIPF args"
        "ar_vect_EDPF args" "ar_vect_EITM args" "ar_vect_EDTM args" "ar_vect_EALIGN args"] opt
    by (auto simp: main_CPU_def shift_args_def shift_arg_def options_ok_def)
  obtain img where f: "fi_open fi (ar_bin_pathname args) = Some bin" "ar_flash_image_file args \<noteq> []" "fi_open fi (ar_flash_image_file args) = Some img"
      "\<not> (ar_symbol_file args \<noteq> [] \<and> fi_symbols fi (ar_symbol_file args) = None)"
    using files by (auto simp: files_ok_def)
  have fit: "?dram \<le> ?a" "unat (?a - ?dram) < length (raw_mem ?raw)" "unat (?a - ?dram) + length bin \<le> length (raw_mem ?raw)"
    using files o(7) by (simp_all add: files_ok_def)
  obtain M1 raw' where M1: "load_address_fp (Some bin) ?a (cpu_mem cpu) = Inr (0, M1)" "Memory_new True raw' ?dram ?mb ?me = Inr M1"
      "length raw' = length (raw_mem ?raw)" "\<forall>k < length bin. raw' ! (unat (?a - ?dram) + k) = bin ! k"
    by (rule load_new [OF cpu(2) o(5) fit])
  let ?m = "msr_reset (cpu_msr cpu)"
  have m: "msr_wf (2 ^ ki) (2 ^ kd) ?m" "\<not> bit (IRR ?m) 1" using o(6) by (simp_all add: cpu(10)) (simp add: msr_reset_def)
  obtain dt M where dt: "DeviceTree_new (fr_uart fr) (fr_flash fr) True ?mb (Some img) v M1 = Inr (dt, M)"
      "bus_inv (dev_window ?mb) (dev_inv ?mb (2 ^ ki) (2 ^ kd)) (M, (?m, dt))"
    using DeviceTree_new_inv [OF M1(2) _ o(4,3) m] o(5) M1(3) by metis
  define syms where "syms = (if ar_symbol_file args = [] then cpu_symtable cpu
             else case fi_symbols fi (ar_symbol_file args) of None \<Rightarrow> cpu_symtable cpu | Some nds \<Rightarrow> symtable_load nds (cpu_symtable cpu))"
  let ?c = "cpu_reset (ar_pc_rst args) (cpu\<lparr>cpu_mem := M, cpu_symtable := syms, cpu_dev := dt\<rparr>)"
  have "main_boot fr fi v dev0 args = Inr (Inr ?c)"
    unfolding main_boot_def syms_def using f by (simp add: cpu(1) M1(1) dt(1) Let_def)
  moreover have "machine_ok ?mb ki kd (ar_IRQ_TSC args) ?c"
    using cpu(3-9) dt(2) by (simp add: cpu_inv_def cpu_reset_def cpu_bus_def)
  moreover have "memory (cpu_mem ?c) = raw'" "cpu_pc ?c = ar_pc_rst args" "dram_phy_start (cpu_mem ?c) = ?dram"
    using DeviceTree_new_memory [OF dt(1)] Memory_new_fields [OF M1(2)] by (simp_all add: cpu_reset_def)
  moreover have "dram_at (cpu_mem ?c) = args_ram args"
    using dram_at_part [OF DeviceTree_new_part [OF dt(1)]] args_ram_new [OF M1(2)] o(5,7) M1(3) by (simp add: cpu_reset_def)
  moreover have "regfile ?c = replicate 32 0" "PSR (cpu_msr ?c) = psr_reset" by (simp_all add: cpu_reset_def msr_reset_def)
  ultimately show ?thesis using M1(4) by metis
qed

section \<open>The standalone machine\<close>

lemma emu_dev_step_ok:
  assumes "machine_ok base ki kd tsc cpu"
  shows "\<exists>cpu'. emu_dev_step cpu = Inr cpu' \<and> machine_ok base ki kd tsc cpu'"
proof -
  have "dev_inv base (2 ^ ki) (2 ^ kd) (cpu_msr cpu, cpu_dev cpu)" using assms by (simp add: cpu_inv_def cpu_bus_def bus_inv_def)
  then obtain m dt where "DeviceTree_step (cpu_msr cpu, cpu_dev cpu) = Inr (m, dt)" "dev_inv base (2 ^ ki) (2 ^ kd) (m, dt)"
    using DeviceTree_step_inv by (metis surj_pair)
  then show ?thesis using assms by (auto simp: emu_dev_step_def cpu_inv_def cpu_bus_def bus_inv_def)
qed

text \<open>What one iteration does to a well-formed machine: the devices are clocked or not, then a step is taken.\<close>

definition device_phase :: "(dev_cb, DeviceTree) CPU \<Rightarrow> (dev_cb, DeviceTree) CPU \<Rightarrow> bool" where
  "device_phase cpu cpu' \<longleftrightarrow> cpu' = cpu \<or> emu_dev_step cpu = Inr cpu'"

lemma standalone_iter_safe:
  assumes "machine_ok base ki kd tsc cpu" "0 \<le> tsc" "tsc < 32" "tsc \<noteq> 1"
  shows "safeU (\<exists>cpu' insn. device_phase cpu cpu' \<and> step_executes dev_vt (cpu_pc cpu') False cpu' insn \<and> arith_undefined (decode insn) cpu')
    (\<lambda>(fin, c, cpu'). \<not> fin \<and> machine_ok base ki kd tsc cpu') (standalone_iter dv (clk, cpu))" (is "safeU ?D ?Q _")
proof -
  have run: "safeU ?D ?Q (bnd (run_step dev_vt cpu1) (\<lambda>cpu'. Inr (False, c, cpu')))" if "machine_ok base ki kd tsc cpu1" "device_phase cpu cpu1" for cpu1 c
  proof -
    have good: "machine_ok base ki kd tsc (cpu'\<lparr>cpu_pc := npc\<rparr>) = machine_ok base ki kd tsc cpu'" for cpu' npc by (simp add: cpu_inv_def cpu_bus_def)
    have "safeU (\<exists>insn. step_executes dev_vt (cpu_pc cpu1) False cpu1 insn \<and> arith_undefined (decode insn) cpu1)
        (\<lambda>(npc, ev, cpu'). machine_ok base ki kd tsc cpu') (cpu_step dev_vt (cpu_pc cpu1) False cpu1)"
      by (rule cpu_devices.cpu_step_good [OF machine_devices [OF assms(2-4)] that(1)])
    then have "safeU ?D (\<lambda>(npc, ev, cpu'). machine_ok base ki kd tsc cpu') (cpu_step dev_vt (cpu_pc cpu1) False cpu1)"
      by (rule safeU_mono) (use that(2) in blast)+
    then show ?thesis by (cases "cpu_step dev_vt (cpu_pc cpu1) False cpu1") (auto simp: run_step_def safeU_def good)
  qed
  obtain cpu1 where d: "emu_dev_step cpu = Inr cpu1" "machine_ok base ki kd tsc cpu1" using emu_dev_step_ok [OF assms(1)] by blast
  show ?thesis
  proof (cases "clk + 1 = dv")
    case True
    then show ?thesis using run [OF d(2)] d(1) by (simp add: standalone_iter_def device_phase_def)
  next
    case False
    then show ?thesis using run [OF assms(1)] by (simp add: standalone_iter_def device_phase_def)
  qed
qed

lemma standalone_run_safe:
  assumes "machine_ok base ki kd tsc cpu" "0 \<le> tsc" "tsc < 32" "tsc \<noteq> 1"
  shows "safeU (\<exists>k c cpu0 cpu' insn. k < n \<and> loop_run (standalone_iter dv) k (clk, cpu) = Inr (c, cpu0) \<and> device_phase cpu0 cpu' \<and>
      step_executes dev_vt (cpu_pc cpu') False cpu' insn \<and> arith_undefined (decode insn) cpu')
    (\<lambda>(c, cpu'). machine_ok base ki kd tsc cpu') (loop_run (standalone_iter dv) n (clk, cpu))"
  using assms(1)
proof (induction n arbitrary: clk cpu)
  case (Suc n)
  let ?D = "\<lambda>n clk cpu. \<exists>k c cpu0 cpu' insn. k < n \<and> loop_run (standalone_iter dv) k (clk, cpu) = Inr (c, cpu0) \<and> device_phase cpu0 cpu' \<and>
      step_executes dev_vt (cpu_pc cpu') False cpu' insn \<and> arith_undefined (decode insn) cpu'"
  let ?Q = "\<lambda>(c :: u64, cpu'). machine_ok base ki kd tsc cpu'"
  note i = standalone_iter_safe [OF Suc.prems assms(2-4), of dv clk]
  show ?case
  proof (cases "standalone_iter dv (clk, cpu)")
    case (Inl e)
    have "?D (Suc n) clk cpu" if "\<exists>cpu' insn. device_phase cpu cpu' \<and> step_executes dev_vt (cpu_pc cpu') False cpu' insn \<and> arith_undefined (decode insn) cpu'"
      using that by (rule_tac exI [of _ 0]) auto
    then show ?thesis using i Inl by (auto simp: safeU_def)
  next
    case (Inr x)
    obtain fin c cpu1 where x: "x = (fin, c, cpu1)" by (cases x)
    have s: "\<not> fin" "machine_ok base ki kd tsc cpu1" using i Inr by (auto simp: safeU_def x)
    have "?D (Suc n) clk cpu" if "?D n c cpu1"
    proof -
      from that obtain k c' cpu0 cpu' insn where k: "k < n" "loop_run (standalone_iter dv) k (c, cpu1) = Inr (c', cpu0)" "device_phase cpu0 cpu'"
        "step_executes dev_vt (cpu_pc cpu') False cpu' insn" "arith_undefined (decode insn) cpu'" by blast
      then have "Suc k < Suc n" "loop_run (standalone_iter dv) (Suc k) (clk, cpu) = Inr (c', cpu0)" using Inr s(1) by (simp_all add: x)
      then show ?thesis using k(3-5) by blast
    qed
    then have "safeU (?D (Suc n) clk cpu) ?Q (loop_run (standalone_iter dv) n (c, cpu1))"
      by (rule safeU_mono [OF Suc.IH [OF s(2), of c]])
    then show ?thesis using Inr s(1) by (simp add: x)
  qed
qed simp

text \<open>
  Claim C4: the standalone program is defined from the first instruction on. With consistent options and files, construction succeeds, the binary is in memory at its load address and
  the program counter is the reset address; and every number of iterations of the main loop, with the devices clocked at whatever rate, ends in a well-formed machine or ends the process with a diagnosis. No
  assertion fails, and undefined behaviour comes only from an instruction of the binary, reached by the run, that is a shift or division C++ does not define.
\<close>

theorem standalone_defined:
  assumes "options_ok fr args ki kd pi li pd ld" and "files_ok fi args bin" and "ar_IRQ_TSC args = tsc" and "0 \<le> tsc" and "tsc < 32" and "tsc \<noteq> 1"
  shows "\<exists>cpu. main_boot fr fi v dev0 args = Inr (Inr cpu) \<and> cpu_pc cpu = ar_pc_rst args \<and>
    (\<forall>k < length bin. memory (cpu_mem cpu) ! (unat (ar_bin_load_addr args - ar_dram_phy_base args) + k) = bin ! k) \<and>
    (\<forall>n. case loop_run (standalone_iter (ar_device_clk_div args)) n (0, cpu) of
        Inr (c, cpu') \<Rightarrow> machine_ok (ar_mmio_phy_base args) ki kd tsc cpu'
      | Inl e \<Rightarrow> e \<noteq> AssertFail \<and> (e = Undefined \<longrightarrow> (\<exists>k c cpu0 cpu' insn. k < n \<and>
          loop_run (standalone_iter (ar_device_clk_div args)) k (0, cpu) = Inr (c, cpu0) \<and> device_phase cpu0 cpu' \<and>
          step_executes dev_vt (cpu_pc cpu') False cpu' insn \<and> arith_undefined (decode insn) cpu')))"
proof -
  obtain cpu where c: "main_boot fr fi v dev0 args = Inr (Inr cpu)" "machine_ok (ar_mmio_phy_base args) ki kd tsc cpu" "cpu_pc cpu = ar_pc_rst args"
    "\<forall>k < length bin. memory (cpu_mem cpu) ! (unat (ar_bin_load_addr args - ar_dram_phy_base args) + k) = bin ! k"
    using main_boot_ok [OF assms(1,2), of v dev0] assms(3) by blast
  show ?thesis
    using c(1,3,4) standalone_run_safe [OF c(2) assms(4-6), unfolded safeU_def] by (intro exI [of _ cpu] conjI allI) simp_all
qed

text \<open>Options for a small machine, and its files.\<close>

definition small_args :: Args where
  "small_args = Args_new\<lparr>ar_mode := ModeStandalone, ar_bin_pathname := ''a.bin'', ar_ram_size := 4096, ar_dmmu_tlb_count := 1, ar_immu_tlb_count := 1,
     ar_icache_p_ways := 0, ar_icache_p_sets := 0, ar_icache_p_line := 2, ar_dcache_p_ways := 0, ar_dcache_p_sets := 0, ar_dcache_p_line := 2,
     ar_flash_image_file := ''f.img''\<rparr>"

definition small_fresh :: fresh where
  "small_fresh = \<lparr>fr_cpu = \<lambda>args. small_raw, fr_uart = pb_uart_reset undefined, fr_flash = replicate 0x10000000 0,
     fr_rtl_mem = \<lambda>args. replicate 4096 0, fr_rtl_uart = pb_uart_reset undefined, fr_rtl_flash = replicate 0x10000000 0\<rparr>"

definition small_files :: files where
  "small_files = \<lparr>fi_open = [''a.bin'' \<mapsto> [1, 2, 3, 4], ''f.img'' \<mapsto> [5, 6]], fi_symbols = Map.empty\<rparr>"

lemma small_options: "options_ok small_fresh small_args 0 0 0 2 0 2" "files_ok small_files small_args [1, 2, 3, 4]"
proof -
  have l: "length (fr_flash small_fresh) = 0x10000000" unfolding small_fresh_def by (simp only: fresh.simps length_replicate)
  have r: "fr_cpu small_fresh = (\<lambda>args. small_raw)" by (simp add: small_fresh_def)
  have m: "length (raw_mem small_raw) = 4096" unfolding small_raw_def by (simp only: raw_init.simps length_replicate)
  show "options_ok small_fresh small_args 0 0 0 2 0 2"
    using small_raw_shape by (simp add: options_ok_def l r m) (simp add: small_args_def Args_new_def)
  show "files_ok small_files small_args [1, 2, 3, 4]"
    by (simp add: files_ok_def small_files_def small_args_def Args_new_def)
qed

theorem standalone_defined_witness:
  "\<exists>cpu. main_boot small_fresh small_files vu0 undefined small_args = Inr (Inr cpu) \<and> cpu_pc cpu = 0x80000000 \<and> memory (cpu_mem cpu) ! 2 = 3 \<and>
    (\<forall>n. loop_run (standalone_iter 100) n (0, cpu) \<noteq> Inl AssertFail)"
proof -
  have a: "ar_IRQ_TSC small_args = 0" "ar_pc_rst small_args = 0x80000000" "ar_bin_load_addr small_args - ar_dram_phy_base small_args = 0"
    "ar_device_clk_div small_args = 100"
    by (simp_all add: small_args_def Args_new_def)
  from standalone_defined [OF small_options a(1), of vu0 undefined] obtain cpu where
    c: "main_boot small_fresh small_files vu0 undefined small_args = Inr (Inr cpu)" "cpu_pc cpu = 0x80000000"
      "\<forall>k < 4. memory (cpu_mem cpu) ! k = [1, 2, 3, 4] ! k"
      "\<forall>n. case loop_run (standalone_iter 100) n (0, cpu) of Inr (c, cpu') \<Rightarrow> True | Inl e \<Rightarrow> e \<noteq> AssertFail"
    by (auto simp: a split: sum.splits)
  have "loop_run (standalone_iter 100) n (0, cpu) \<noteq> Inl AssertFail" for n using c(4) [rule_format, of n] by auto
  then show ?thesis using c(1,2) c(3) [rule_format, of 2] by auto
qed

section \<open>A design that does nothing\<close>

text \<open>It reports two idle channels at every evaluation and drives no request.\<close>

definition idle_ports :: dut_axi where
  "idle_ports = \<lparr>dut_aw_ready = 0, dut_aw_valid = 0, dut_aw_bits_addr = 0, dut_aw_bits_prot = 0, dut_aw_bits_id = 0, dut_aw_bits_len = 0, dut_aw_bits_size = 0,
     dut_aw_bits_burst = 0, dut_aw_bits_lock = 0, dut_aw_bits_cache = 0, dut_aw_bits_qos = 0, dut_w_ready = 0, dut_w_valid = 0, dut_w_bits_data = [0, 0, 0,
     0], dut_w_bits_strb = 0, dut_w_bits_last = 0, dut_b_ready = 0, dut_b_valid = 0, dut_b_bits_resp = 0, dut_b_bits_id = 0, dut_ar_ready = 0, dut_ar_valid
     = 0, dut_ar_bits_addr = 0, dut_ar_bits_prot = 0, dut_ar_bits_id = 0, dut_ar_bits_len = 0, dut_ar_bits_size = 0, dut_ar_bits_burst = 0,
     dut_ar_bits_lock = 0, dut_ar_bits_cache = 0, dut_ar_bits_qos = 0, dut_r_ready = 0, dut_r_valid = 0, dut_r_bits_resp = 0, dut_r_bits_data = [0, 0, 0,
     0], dut_r_bits_last = 0, dut_r_bits_id = 0\<rparr>"

definition idle_commit_call :: "u32 \<Rightarrow> dpi_call" where
  "idle_commit_call i = Dpi_commit_inst i 0 0 0 0 0 0 0 0"

definition idle_design :: "unit Vsimtop" where
  "idle_design = \<lparr>v_set_clock = \<lambda>b v. v, v_set_reset = \<lambda>b v. v,
     v_eval = \<lambda>v. ([(idle_commit_call 0, v), (idle_commit_call 1, v), (Dpi_step, v)], v),
     v_ports = \<lambda>v. idle_ports, v_set_ports = \<lambda>p v. v, v_gotFinish = \<lambda>v. False\<rparr>"

lemma idle_design_hangs: "hangs idle_design (\<lambda>v. True)"
  by (simp add: hangs_def idle_design_def idle_call_def idle_commit_call_def)

lemma idle_eval_off: "\<not> dpic_enable df \<Longrightarrow> emu_eval idle_design (dpi_on idle_design D raw) (E, df) = Inr (E, df)"
  by (simp add: emu_eval_def idle_design_def idle_commit_call_def dpic_commit_inst_def dpic_step_def on_dut_def)

lemma idle_reset_off: "\<not> dpic_enable df \<Longrightarrow> reset_clks idle_design (dpi_on idle_design D raw) n (E, df) = Inr (E, df)"
proof (induction n)
  case (Suc n)
  have "on_dut f (E, df) = (E, df)" for f :: "unit \<Rightarrow> unit" by (simp add: on_dut_def)
  then show ?case using Suc by (simp add: idle_eval_off)
qed simp

lemma idle_Emu_new:
  assumes "\<not> dpic_enable df"
  shows "\<exists>E. Emu_new idle_design (dpi_on idle_design D raw) () ds [] wb we mem df = Inr (E, df)"
  by (simp add: Emu_new_def emu_reset_def on_dut_def idle_reset_off [OF assms])

lemma idle_setup:
  assumes "Memory_new False (fr_rtl_mem fr args) (ar_dram_phy_base args) (ar_mmio_phy_base args) (ar_mmio_phy_end_addr args) = Inr M"
    "load_address_fp (fi_open fi (ar_bin_pathname args)) (ar_bin_load_addr args) M = Inr (0, M1)"
    "DeviceTree_new (fr_rtl_uart fr) (fr_rtl_flash fr) False (ar_mmio_phy_base args)
       (if ar_flash_image_file args = [] then None else fi_open fi (ar_flash_image_file args)) (dt_virt (cpu_dev cpu)) M1 = Inr (dt, M2)"
    "ar_vcdfile args = []"
  shows "\<exists>E cpu'. difftest_setup idle_design D raw () ds fr fi args cpu =
    Inr (Inr (E, startup_difftest cpu' (ar_commit_timeout_max args) (difftest_static cpu')))"
proof -
  define cpu' where "cpu' = (let c = msr_set_cpuid False cpu in c\<lparr>cpu_dev := (cpu_dev c)\<lparr>dt_virt := dt_virt dt\<rparr>\<rparr>)"
  have df: "df_set_virt (dt_virt dt) (difftest_static (msr_set_cpuid False cpu)) = difftest_static cpu'"
    by (simp add: df_set_virt_def difftest_static_def cpu'_def Let_def)
  have "\<not> dpic_enable (difftest_static cpu')" "dpic_emu_CPU (difftest_static cpu') = cpu'" by (simp_all add: difftest_static_def)
  then show ?thesis
    using idle_Emu_new [of "difftest_static cpu'" D raw ds "ar_wave_begin args" "ar_wave_end args" "(M2, cpu_msr cpu, dt)"]
    by (auto simp: difftest_setup_def assms df)
qed

text \<open>The small machine and the idle design under differential testing.\<close>

lemma small_setup:
  "\<exists>cpu E cpu'. main_boot small_fresh small_files vu0 undefined small_args = Inr (Inr cpu) \<and>
     difftest_setup idle_design dram_instant axi_idle () () small_fresh small_files small_args cpu =
       Inr (Inr (E, startup_difftest cpu' 100000 (difftest_static cpu')))"
proof -
  obtain cpu where cpu: "main_boot small_fresh small_files vu0 undefined small_args = Inr (Inr cpu)"
    using main_boot_ok [OF small_options, of vu0 undefined] by blast
  have a: "ar_dram_phy_base small_args = 0x80000000" "ar_mmio_phy_base small_args = 0" "ar_mmio_phy_end_addr small_args = 0x7fffffff"
    "ar_bin_load_addr small_args = 0x80000000" "ar_vcdfile small_args = []" "ar_commit_timeout_max small_args = 100000"
    "fi_open small_files (ar_bin_pathname small_args) = Some [1, 2, 3, 4]"
    "(if ar_flash_image_file small_args = [] then None else fi_open small_files (ar_flash_image_file small_args)) = Some [5, 6]"
    by (simp_all add: small_args_def Args_new_def small_files_def)
  let ?r = "replicate 4096 0 :: u8 list"
  have fr: "fr_rtl_mem small_fresh small_args = ?r" "length (fr_rtl_flash small_fresh) = 0x10000000"
    unfolding small_fresh_def by (simp_all only: fresh.simps length_replicate)
  have len: "length ?r = 4096" by (simp only: length_replicate)
  obtain M :: "dev_cb Memory" where M: "Memory_new False ?r 0x80000000 0 0x7fffffff = Inr M" by (simp add: Memory_new_def)
  have l: "length ?r < 2 ^ 63" unfolding len by simp
  have l': "unat (0x80000000 - 0x80000000 :: u32) < length ?r" "unat (0x80000000 - 0x80000000 :: u32) + length [1, 2, 3, 4 :: u8] \<le> length ?r"
    unfolding len by simp_all
  obtain M1 r' where M1: "load_address_fp (Some [1, 2, 3, 4]) 0x80000000 M = Inr (0, M1)" "Memory_new False r' 0x80000000 0 0x7fffffff = Inr M1"
      "length r' = length ?r"
    by (rule load_new [OF M l order.refl l'])
  have w: "msr_wf 1 1 (msr_zero 1 1)" "\<not> bit (IRR (msr_zero 1 1)) 1" using small_raw_shape by (simp_all add: raw_shape_def small_raw_def msr_zero_def)
  obtain dt M2 where "DeviceTree_new (fr_rtl_uart small_fresh) (fr_rtl_flash small_fresh) False 0 (Some [5, 6]) (dt_virt (cpu_dev cpu)) M1 = Inr (dt, M2)"
    using DeviceTree_new_inv [OF M1(2) _ fr(2) _ w] M1(3) l by fastforce
  then show ?thesis
    using idle_setup [of small_fresh small_args M small_files M1 cpu dt M2 dram_instant axi_idle "()"] cpu M M1(1) by (simp add: a fr)
qed

theorem difftest_agreement_witness:
  "\<exists>cpu s. main_boot small_fresh small_files vu0 undefined small_args = Inr (Inr cpu) \<and>
     difftest_setup idle_design dram_instant axi_idle () () small_fresh small_files small_args cpu = Inr (Inr s) \<and>
     get_reg 7 (dpic_emu_CPU (snd s)) = Inr (rtl_regfile (snd s) ! 7)"
proof -
  obtain cpu s where s: "main_boot small_fresh small_files vu0 undefined small_args = Inr (Inr cpu)"
      "difftest_setup idle_design dram_instant axi_idle () () small_fresh small_files small_args cpu = Inr (Inr s)"
    using small_setup by blast
  have "loop_run (difftest_iter idle_design dram_instant axi_idle) 0 s = Inr (fst s, snd s)" by simp
  from difftest_agreement [OF s this, of 7] show ?thesis using s by (intro exI [of _ cpu] exI [of _ s]) simp
qed

theorem difftest_watchdog_witness:
  "hangs idle_design (\<lambda>v. True) \<and>
   (\<exists>cpu s. difftest_setup idle_design dram_instant axi_idle () () small_fresh small_files small_args cpu = Inr (Inr s) \<and>
     waiting 0 100000 (snd s) \<and> (\<exists>e. main_loop (difftest_iter idle_design dram_instant axi_idle) s = Some (Inl e)))"
proof -
  obtain cpu E cpu' where s: "difftest_setup idle_design dram_instant axi_idle () () small_fresh small_files small_args cpu =
       Inr (Inr (E, startup_difftest cpu' 100000 (difftest_static cpu')))"
    using small_setup by blast
  let ?s = "(E, startup_difftest cpu' 100000 (difftest_static cpu'))"
  have w: "waiting 0 100000 (snd ?s)" by (simp add: waiting_def startup_difftest_def difftest_static_def)
  have "(100000 :: u64) \<noteq> 2 ^ 64 - 1" by simp
  from difftest_watchdog [OF idle_design_hangs _ w this, of dram_instant axi_idle] obtain r where
    r: "main_loop (difftest_iter idle_design dram_instant axi_idle) ?s = Some r" "\<forall>s'. r = Inr s' \<longrightarrow> v_gotFinish idle_design (dut_ptr (fst s'))"
    by auto
  then obtain e where "r = Inl e" by (cases r) (auto simp: idle_design_def)
  then show ?thesis using idle_design_hangs s w r(1) by blast
qed

section \<open>Numerals\<close>

definition digit_char :: "nat \<Rightarrow> char" where
  "digit_char d = char_of (if d < 10 then 48 + d else 87 + d)"

text \<open>The usual notation of \<open>n\<close> in a base, with lower case digits.\<close>

fun numeral_str :: "nat \<Rightarrow> nat \<Rightarrow> string" where
  "numeral_str base n = (if n < base \<or> base < 2 then [digit_char n] else numeral_str base (n div base) @ [digit_char (n mod base)])"

declare numeral_str.simps [simp del]

lemma digit_char_facts:
  assumes "d < 16"
  shows "digit_val (digit_char d) = d" "\<not> is_space (digit_char d)" "digit_char d \<noteq> CHR ''-''" "digit_char d \<noteq> CHR ''+''"
    "digit_char d \<noteq> CHR ''x''" "digit_char d \<noteq> CHR ''X''" "digit_char d = CHR ''0'' \<longleftrightarrow> d = 0"
proof -
  have n: "of_char (digit_char d) = (if d < 10 then 48 + d else 87 + d)" using assms by (simp add: digit_char_def of_char_of)
  have eq: "digit_char d = c \<longleftrightarrow> (if d < 10 then 48 + d else 87 + d) = of_char c" for c by (metis n of_char_eq_iff)
  show "digit_val (digit_char d) = d" "\<not> is_space (digit_char d)" using assms by (simp_all add: digit_val_def is_space_def n)
  show "digit_char d \<noteq> CHR ''-''" "digit_char d \<noteq> CHR ''+''" "digit_char d \<noteq> CHR ''x''" "digit_char d \<noteq> CHR ''X''" "digit_char d = CHR ''0'' \<longleftrightarrow> d = 0"
    unfolding eq using assms by auto
qed

lemma num_of_append: "num_of base (xs @ [c]) = num_of base xs * base + digit_val c"
  by (simp add: num_of_def)

lemma numeral_str_facts:
  assumes "2 \<le> base" "base \<le> 16"
  shows "num_of base (numeral_str base n) = n" "\<forall>c \<in> set (numeral_str base n). \<exists>d < base. c = digit_char d" "numeral_str base n \<noteq> []"
proof (induction n rule: less_induct)
  case (less n)
  {
    case 1
    show ?case
    proof (cases "n < base")
      case True
      then show ?thesis using assms by (simp add: numeral_str.simps [of base n] num_of_def digit_char_facts)
    next
      case False
      then have "n div base < n" using assms by (intro div_less_dividend) auto
      moreover have "n mod base < 16" using assms mod_less_divisor [of base n] by linarith
      ultimately show ?thesis using less(1) [of "n div base"] False assms
        by (simp add: numeral_str.simps [of base n] num_of_append digit_char_facts)
    qed
  next
    case 2
    show ?case
    proof (cases "n < base")
      case True
      then show ?thesis by (auto simp: numeral_str.simps [of base n])
    next
      case False
      then have "n div base < n" "n mod base < base" using assms by auto
      then show ?thesis using less(2) [of "n div base"] False assms
        by (auto simp: numeral_str.simps [of base n] intro!: exI [of _ "n mod base"])
    qed
  next
    case 3
    show ?case by (simp add: numeral_str.simps [of base n])
  }
qed

lemma digits_of:
  assumes "2 \<le> base" "base \<le> 16" "\<forall>c \<in> set s. \<exists>d < base. c = digit_char d"
  shows "takeWhile (is_digit base) (s @ r) = s @ takeWhile (is_digit base) r" "dropWhile (is_digit base) (s @ r) = dropWhile (is_digit base) r"
proof -
  have "\<forall>c \<in> set s. is_digit base c" using assms by (force simp: is_digit_def digit_char_facts)
  then show "takeWhile (is_digit base) (s @ r) = s @ takeWhile (is_digit base) r" "dropWhile (is_digit base) (s @ r) = dropWhile (is_digit base) r"
    by (simp_all add: takeWhile_append2 dropWhile_append2)
qed

text \<open>
  Claim C35: the options that take an address or a cycle read numbers back. A number below \<open>2 ^ 63\<close> in decimal notation, with or without a minus sign, and in
  hexadecimal notation after \<open>0x\<close> is parsed to itself, and a decimal numeral followed by anything but a digit ends the program with exit code 1 (but \<open>0x\<close> starts a hexadecimal numeral).
\<close>

theorem parse_int_numeral:
  assumes "n < 2 ^ 63"
  shows "parse_int (numeral_str 10 n) = Inr (int n) \<and> parse_int (CHR ''-'' # numeral_str 10 n) = Inr (- int n) \<and>
    parse_int (''0x'' @ numeral_str 16 n) = Inr (int n) \<and>
    (\<not> is_digit 10 c \<and> c \<noteq> CHR ''x'' \<and> c \<noteq> CHR ''X'' \<longrightarrow> parse_int (numeral_str 10 n @ c # r) = Inl (Panic 1))"
proof -
  note f = numeral_str_facts [of 10 n] and h = numeral_str_facts [of 16 n]
  obtain d s where s: "numeral_str 10 n = digit_char d # s" "d < 10" using f by (cases "numeral_str 10 n") auto
  obtain e t where t: "numeral_str 16 n = digit_char e # t" "e < 16" using h by (cases "numeral_str 16 n") auto
  have n: "max (- (2 ^ 63)) (min (2 ^ 63 - 1) (int n)) = int n" "max (- (2 ^ 63)) (min (2 ^ 63 - 1) (- int n)) = - int n"
    using assms by auto
  have dec: "strtoll (numeral_str 10 n @ r) 10 = (int n, r)" "strtoll (CHR ''-'' # numeral_str 10 n @ r) 10 = (- int n, r)"
    if "r = [] \<or> \<not> is_digit 10 (hd r)" for r
  proof -
    have w: "takeWhile (is_digit 10) r = []" "dropWhile (is_digit 10) r = r" using that by (cases r; simp)+
    have k: "skip_0x 10 x = x" for x by (simp add: skip_0x_def split: list.splits)
    note dw = digits_of [OF _ _ f(2), of r, unfolded w append_Nil2]
    show "strtoll (numeral_str 10 n @ r) 10 = (int n, r)"
      using dw f(1) n(1) digit_char_facts [of d] s by (simp add: strtoll_def split_sign_def k)
    show "strtoll (CHR ''-'' # numeral_str 10 n @ r) 10 = (- int n, r)"
      using dw f(1) n(2) s by (simp add: strtoll_def split_sign_def k is_space_def)
  qed
  have next_char: "x \<noteq> CHR ''x'' \<and> x \<noteq> CHR ''X''" if "s = x # s'" for x s'
    using f(2) digit_char_facts by (force simp: s that)
  have "parse_int (numeral_str 10 n) = Inr (int n)"
    using dec(1) [of "[]"] s next_char by (cases s) (auto simp: parse_int_def)
  moreover have "parse_int (CHR ''-'' # numeral_str 10 n) = Inr (- int n)"
    using dec(2) [of "[]"] s by (simp add: parse_int_def)
  moreover have "parse_int (''0x'' @ numeral_str 16 n) = Inr (int n)"
  proof -
    have "is_digit 16 (digit_char e)" using t(2) by (simp add: is_digit_def digit_char_facts)
    moreover have "\<not> is_space CHR ''0''" by (simp add: is_space_def)
    ultimately have "strtoll (''0x'' @ numeral_str 16 n) 16 = (int n, [])"
      using digits_of [OF _ _ h(2), of "[]"] h(1) n(1) t by (simp add: strtoll_def split_sign_def skip_0x_def takeWhile_eq_all_conv [THEN iffD2])
    then show ?thesis by (simp add: parse_int_def)
  qed
  moreover have "parse_int (numeral_str 10 n @ c # r) = Inl (Panic 1)" if "\<not> is_digit 10 c" "c \<noteq> CHR ''x''" "c \<noteq> CHR ''X''"
    using dec(1) [of "c # r"] that s next_char by (cases s) (auto simp: parse_int_def)
  ultimately show ?thesis by blast
qed

theorem parse_int_numeral_witness:
  "numeral_str 10 4096 = ''4096'' \<and> parse_int ''4096'' = Inr 4096 \<and> parse_int ''0x1000'' = Inr 4096 \<and> parse_int ''4096k'' = Inl (Panic 1)"
proof -
  have s: "numeral_str 10 4096 = ''4096''" "numeral_str 16 4096 = ''1000''"
    by (simp_all add: numeral_str.simps digit_char_def char_of_def bit_0)
  have "\<not> is_digit 10 CHR ''k''" by (simp add: is_digit_def digit_val_def)
  then show ?thesis using parse_int_numeral [of 4096 "CHR ''k''" "[]"] by (simp add: s)
qed

end
