(* ===== verification/IsaSpec.thy ===== *)
theory IsaSpec
  imports CpuProps
begin

text \<open>
  The instruction set as an abstract machine, the specification that \<open>CPU::run_step\<close> of \<open>em/csrc/cpu.cc\<close> is held to: a program counter, 32
  registers, a flat memory of bytes and the registers of exception handling; instructions as a data type with the operands of the formats of \<open>em/csrc/isa.hh\<close>;
  values computed in the integers. There is no decoder, no cache, no translation, no timer and no queue in it. What is
  left to them or to the devices is the result \<open>Leave\<close>, about which the specification says nothing.
\<close>

section \<open>Instructions and their encoding\<close>

type_synonym regno = "5 word"

datatype alu_op = AND_op | OR_op | XOR_op | LSL_op | LSR_op | ADD_op | SUB_op | ASR_op | MUL_op | DIV_op | DIVU_op | MOD_op | MODU_op
datatype alui_op = AND_I | OR_I | XOR_I | LSL_I | LSR_I | ADD_I | ASR_I
datatype branch_op = BEQ | BNE | BGT | BGTU | BLE | BLEU
datatype load_op = LDWU | LDHU | LDH | LDBU | LDB
datatype store_op = STW | STH | STB

text \<open>Operands in the order of the assembler: destination (for a store, the register stored), then sources.\<close>

datatype instr =
    Alu alu_op regno regno regno
  | AluI alui_op regno regno "15 word"
  | Mhi regno "17 word"
  | Branch branch_op regno regno "15 word"
  | Jmp regno regno
  | JmpI "25 word"
  | JmpLnk "25 word"
  | Load load_op regno regno "15 word"
  | Store store_op regno regno "15 word"
  | Barr
  | Syscall "15 word"
  | Rete
  | Wmsr regno regno "15 word"
  | Rmsr regno regno "15 word"

fun alu_opc :: "alu_op \<Rightarrow> 7 word" where
  "alu_opc AND_op = 0x0" | "alu_opc OR_op = 0x2" | "alu_opc XOR_op = 0x4" | "alu_opc LSL_op = 0x6" | "alu_opc LSR_op = 0x8"
| "alu_opc ADD_op = 0xa" | "alu_opc SUB_op = 0xc" | "alu_opc ASR_op = 0x30" | "alu_opc MUL_op = 0x32" | "alu_opc DIV_op = 0x33"
| "alu_opc DIVU_op = 0x34" | "alu_opc MOD_op = 0x35" | "alu_opc MODU_op = 0x36"

text \<open>The operation that an immediate instruction applies; its opcode is the next one.\<close>

fun alui_base :: "alui_op \<Rightarrow> alu_op" where
  "alui_base AND_I = AND_op" | "alui_base OR_I = OR_op" | "alui_base XOR_I = XOR_op" | "alui_base LSL_I = LSL_op"
| "alui_base LSR_I = LSR_op" | "alui_base ADD_I = ADD_op" | "alui_base ASR_I = ASR_op"

fun branch_opc :: "branch_op \<Rightarrow> 7 word" where
  "branch_opc BEQ = 0x10" | "branch_opc BNE = 0x11" | "branch_opc BGT = 0x12" | "branch_opc BGTU = 0x13"
| "branch_opc BLE = 0x14" | "branch_opc BLEU = 0x15"

fun load_opc :: "load_op \<Rightarrow> 7 word" where
  "load_opc LDWU = 0x17" | "load_opc LDHU = 0x19" | "load_opc LDH = 0x1a" | "load_opc LDBU = 0x1c" | "load_opc LDB = 0x1d"

fun store_opc :: "store_op \<Rightarrow> 7 word" where
  "store_opc STW = 0x18" | "store_opc STH = 0x1b" | "store_opc STB = 0x1e"

fun encode :: "instr \<Rightarrow> insn_t" where
  "encode (Alu op d s t) = enc_fmt1 (alu_opc op) d s t"
| "encode (AluI op d s i) = enc_imm15 (alu_opc (alui_base op) + 1) d s i"
| "encode (Mhi d i) = enc_imm17 0x37 d i"
| "encode (Branch c s t i) = enc_imm15 (branch_opc c) t s i"
| "encode (Jmp d s) = enc_fmt1 0xd d s 0"
| "encode (JmpI r) = enc_rel25 0xe r"
| "encode (JmpLnk r) = enc_rel25 0xf r"
| "encode (Load op d s i) = enc_imm15 (load_opc op) d s i"
| "encode (Store op d s i) = enc_imm15 (store_opc op) d s i"
| "encode Barr = enc_fmt1 0x20 0 0 0"
| "encode (Syscall i) = enc_imm15 0x21 0 0 i"
| "encode Rete = enc_fmt1 0x22 0 0 0"
| "encode (Wmsr d s i) = enc_imm15 0x23 d s i"
| "encode (Rmsr d s i) = enc_imm15 0x24 d s i"

text \<open>The opcodes of the instruction set; any other raises an exception.\<close>

definition known_opcodes :: "7 word set" where
  "known_opcodes = {0x0, 0x1, 0x2, 0x3, 0x4, 0x5, 0x6, 0x7, 0x8, 0x9, 0xa, 0xb, 0xc, 0xd, 0xe, 0xf, 0x10, 0x11, 0x12, 0x13, 0x14, 0x15,
     0x17, 0x18, 0x19, 0x1a, 0x1b, 0x1c, 0x1d, 0x1e, 0x20, 0x21, 0x22, 0x23, 0x24, 0x30, 0x31, 0x32, 0x33, 0x34, 0x35, 0x36, 0x37}"

definition opcode_bits :: "insn_t \<Rightarrow> 7 word" where
  "opcode_bits w = ucast (drop_bit 5 w)"

section \<open>The machine\<close>

record mach =
  m_pc :: vm_addr_t
  m_reg :: "regno \<Rightarrow> u32"
  m_mem :: "vm_addr_t \<Rightarrow> u8"
  m_psr :: psr_s
  m_epsr :: psr_s
  m_epc :: vm_addr_t
  m_elsa :: vm_addr_t
  m_evect :: vm_addr_t

text \<open>What the machine does not change: the addresses that are memory, and the offsets of two exception vectors.\<close>

record isa_env =
  e_ram :: "vm_addr_t \<Rightarrow> bool"
  e_syscall :: vm_addr_t
  e_insn :: vm_addr_t

text \<open>The result of a step: a machine, the end of the program with an exit code, an operation the instruction set leaves undefined, or a state outside the specification.\<close>

datatype result = Next mach | Stop int | Undef | Leave

definition put :: "regno \<Rightarrow> u32 \<Rightarrow> mach \<Rightarrow> mach" where
  "put d v m = (if d = 0 then m else m\<lparr>m_reg := (m_reg m)(d := v)\<rparr>)"

definition goto :: "vm_addr_t \<Rightarrow> mach \<Rightarrow> mach" where
  "goto a m = m\<lparr>m_pc := a\<rparr>"

definition adv :: "mach \<Rightarrow> mach" where
  "adv m = goto (m_pc m + 4) m"

text \<open>A status with which the machine runs by itself: interrupts, translation and caches off.\<close>

definition bare_psr :: "psr_s \<Rightarrow> bool" where
  "bare_psr p \<longleftrightarrow> \<not> psr_IRE p \<and> \<not> psr_IMME p \<and> \<not> psr_DMME p \<and> \<not> psr_ICE p \<and> \<not> psr_DCE p"

text \<open>
  An exception: the return address and the status are saved, the machine enters root mode with interrupts and translation
  off and goes to the vector in the page of \<open>EVECT\<close>.
\<close>

definition trap :: "vm_addr_t \<Rightarrow> vm_addr_t \<Rightarrow> mach \<Rightarrow> mach" where
  "trap vec ret m = m\<lparr>m_epc := ret, m_epsr := m_psr m,
     m_psr := (m_psr m)\<lparr>psr_RM := True, psr_IMME := False, psr_DMME := False, psr_IRE := False\<rparr>,
     m_pc := word_of_int (uint (m_evect m) div 256 * 256 + uint vec mod 256)\<rparr>"

text \<open>
  The registers of exception handling. They are written in root mode only and read as 0 in user mode. Writing the two debug ports has no effect on the machine;
  the other registers belong to translation, caches, timer and interrupts.
\<close>

definition msr_number :: "u32 \<Rightarrow> 15 word \<Rightarrow> int" where
  "msr_number a i = uint (a OR word_of_int (uint i)) mod 2 ^ 16"

definition write_msr :: "int \<Rightarrow> u32 \<Rightarrow> mach \<Rightarrow> result" where
  "write_msr x v m =
     (if x = 0xa01 \<or> x = 0xa02 \<or> \<not> psr_RM (m_psr m) then Next (adv m)
      else if x = 0x1 then if bare_psr (psr_unpack v) then Next (adv (m\<lparr>m_psr := psr_unpack v\<rparr>)) else Leave
      else if x = 0x4 then Next (adv (m\<lparr>m_epsr := psr_unpack v\<rparr>))
      else if x = 0x8 then Next (adv (m\<lparr>m_epc := v\<rparr>))
      else if x = 0x10 then Next (adv (m\<lparr>m_elsa := v\<rparr>))
      else if x = 0x40 then Next (adv (m\<lparr>m_evect := v\<rparr>))
      else Leave)"

definition read_msr :: "int \<Rightarrow> mach \<Rightarrow> u32 option" where
  "read_msr x m =
     (if \<not> psr_RM (m_psr m) then Some 0
      else if x = 0x1 then Some (psr_pack (m_psr m))
      else if x = 0x4 then Some (psr_pack (m_epsr m))
      else if x = 0x8 then Some (m_epc m)
      else if x = 0x10 then Some (m_elsa m)
      else if x = 0x40 then Some (m_evect m)
      else None)"

text \<open>Immediates are zero-extended, those of \<open>XOR_I\<close> and \<open>ADD_I\<close> sign-extended.\<close>

definition imm_operand :: "alui_op \<Rightarrow> 15 word \<Rightarrow> u32" where
  "imm_operand op i = (if op = XOR_I \<or> op = ADD_I then word_of_int (sint i) else word_of_int (uint i))"

fun branch_sem :: "branch_op \<Rightarrow> u32 \<Rightarrow> u32 \<Rightarrow> bool" where
  "branch_sem BEQ a b \<longleftrightarrow> uint a = uint b"
| "branch_sem BNE a b \<longleftrightarrow> uint a \<noteq> uint b"
| "branch_sem BGT a b \<longleftrightarrow> sint a > sint b"
| "branch_sem BGTU a b \<longleftrightarrow> uint a > uint b"
| "branch_sem BLE a b \<longleftrightarrow> sint a \<le> sint b"
| "branch_sem BLEU a b \<longleftrightarrow> uint a \<le> uint b"

fun load_size :: "load_op \<Rightarrow> nat" where
  "load_size LDWU = 4" | "load_size LDHU = 2" | "load_size LDH = 2" | "load_size LDBU = 1" | "load_size LDB = 1"

fun store_size :: "store_op \<Rightarrow> nat" where
  "store_size STW = 4" | "store_size STH = 2" | "store_size STB = 1"

fun load_value :: "load_op \<Rightarrow> (vm_addr_t \<Rightarrow> u8) \<Rightarrow> vm_addr_t \<Rightarrow> int" where
  "load_value LDWU f a = uint (le32 f a)"
| "load_value LDHU f a = uint (le16 f a)"
| "load_value LDH f a = sint (le16 f a)"
| "load_value LDBU f a = uint (f a)"
| "load_value LDB f a = sint (f a)"

fun store_mem :: "store_op \<Rightarrow> vm_addr_t \<Rightarrow> u32 \<Rightarrow> (vm_addr_t \<Rightarrow> u8) \<Rightarrow> vm_addr_t \<Rightarrow> u8" where
  "store_mem STW a v f = upd32 a v f"
| "store_mem STH a v f = upd16 a (word_of_int (uint v)) f"
| "store_mem STB a v f = f(a := word_of_int (uint v))"

text \<open>
  An access of \<open>n\<close> bytes: the program ends with exit code 1 at an address that is not a multiple of \<open>n\<close>, and the access leaves the
  specification outside \<open>ram\<close>.
\<close>

definition access :: "(vm_addr_t \<Rightarrow> bool) \<Rightarrow> vm_addr_t \<Rightarrow> nat \<Rightarrow> result \<Rightarrow> result" where
  "access ram a n r = (if \<not> n dvd unat a then Stop 1 else if \<not> ram_range ram a n then Leave else r)"

fun sem :: "isa_env \<Rightarrow> instr \<Rightarrow> mach \<Rightarrow> result" where
  "sem E (Alu op d s t) m =
     (case alu_spec (ucast (alu_opc op)) (m_reg m s) (m_reg m t) of None \<Rightarrow> Undef | Some v \<Rightarrow> Next (adv (put d (word_of_int v) m)))"
| "sem E (AluI op d s i) m =
     (case alu_spec (ucast (alu_opc (alui_base op))) (m_reg m s) (imm_operand op i) of None \<Rightarrow> Undef | Some v \<Rightarrow> Next (adv (put d (word_of_int v) m)))"
| "sem E (Mhi d i) m = Next (adv (put d (word_of_int (uint i * 2 ^ 15)) m))"
| "sem E (Branch c s t i) m =
     Next (if branch_sem c (m_reg m s) (m_reg m t) then goto (m_pc m + word_of_int (4 * sint i)) m else adv m)"
| "sem E (Jmp d s) m = (let m' = put d (m_pc m + 4) m in Next (goto (m_reg m' s) m'))"
| "sem E (JmpI r) m = Next (goto (m_pc m + word_of_int (4 * sint r)) m)"
| "sem E (JmpLnk r) m = Next (goto (m_pc m + word_of_int (4 * sint r)) (put 1 (m_pc m + 4) m))"
| "sem E (Load op d s i) m =
     (let a = m_reg m s + word_of_int (sint i) in
      access (e_ram E) a (load_size op) (Next (adv (put d (word_of_int (load_value op (m_mem m) a)) m))))"
| "sem E (Store op d s i) m =
     (let a = m_reg m s + word_of_int (sint i) in
      access (e_ram E) a (store_size op) (Next (adv (m\<lparr>m_mem := store_mem op a (m_reg m d) (m_mem m)\<rparr>))))"
| "sem E Barr m = Next (adv m)"
| "sem E (Syscall i) m = (if i = 0x90d then Stop 0 else if i = 0xbad then Stop 1 else Next (trap (e_syscall E) (m_pc m + 4) m))"
| "sem E Rete m = (if bare_psr (m_epsr m) then Next (goto (m_epc m) (m\<lparr>m_psr := m_epsr m\<rparr>)) else Leave)"
| "sem E (Wmsr d s i) m = write_msr (msr_number (m_reg m s) i) (m_reg m d) m"
| "sem E (Rmsr d s i) m = (case read_msr (msr_number (m_reg m s) i) m of None \<Rightarrow> Leave | Some v \<Rightarrow> Next (adv (put d v m)))"

text \<open>
  One step: a program counter that is not a multiple of four ends the program, an unknown opcode raises an exception, otherwise the instruction at the program counter is executed.
\<close>

inductive isa_step :: "isa_env \<Rightarrow> mach \<Rightarrow> result \<Rightarrow> bool" for E where
  misaligned: "\<not> 4 dvd unat (m_pc m) \<Longrightarrow> isa_step E m (Stop 1)"
| illegal: "4 dvd unat (m_pc m) \<Longrightarrow> ram_range (e_ram E) (m_pc m) 4 \<Longrightarrow> opcode_bits (le32 (m_mem m) (m_pc m)) \<notin> known_opcodes \<Longrightarrow>
    isa_step E m (Next (trap (e_insn E) (m_pc m) (m\<lparr>m_elsa := m_pc m\<rparr>)))"
| execute: "4 dvd unat (m_pc m) \<Longrightarrow> ram_range (e_ram E) (m_pc m) 4 \<Longrightarrow> le32 (m_mem m) (m_pc m) = encode i \<Longrightarrow>
    isa_step E m (sem E i m)"

section \<open>The specification is a function\<close>

text \<open>Different instructions have different encodings, so a machine has at most one next step.\<close>

lemma ucast_16_inj: "(ucast x :: u16) = ucast y \<longleftrightarrow> x = y" if "LENGTH('a) \<le> 16" for x y :: "'a::len word"
  using that by (simp add: word_unat_eq_iff unat_ucast_up)

lemma ucast_32_inj: "(ucast x :: u32) = ucast y \<longleftrightarrow> x = y" if "LENGTH('a) \<le> 32" for x y :: "'a::len word"
  using that by (simp add: word_unat_eq_iff unat_ucast_up)

lemma enc_same:
  "enc_fmt1 p d s t = enc_fmt1 p' d' s' t' \<longleftrightarrow> p = p' \<and> d = d' \<and> s = s' \<and> t = t'"
  "enc_imm15 p d s i = enc_imm15 p' d' s' i' \<longleftrightarrow> p = p' \<and> d = d' \<and> s = s' \<and> i = i'"
  "enc_imm17 p d j = enc_imm17 p' d' j' \<longleftrightarrow> p = p' \<and> d = d' \<and> j = j'"
  "enc_rel25 p r = enc_rel25 p' r' \<longleftrightarrow> p = p' \<and> r = r'"
proof -
  show "enc_fmt1 p d s t = enc_fmt1 p' d' s' t' \<longleftrightarrow> p = p' \<and> d = d' \<and> s = s' \<and> t = t'"
    using decode_enc_fmt1 [of p d s t] decode_enc_fmt1 [of p' d' s' t'] by (auto simp: ucast_16_inj)
  show "enc_imm15 p d s i = enc_imm15 p' d' s' i' \<longleftrightarrow> p = p' \<and> d = d' \<and> s = s' \<and> i = i'"
    using decode_enc_imm15 [of p d s i] decode_enc_imm15 [of p' d' s' i'] by (auto simp: ucast_16_inj)
  show "enc_imm17 p d j = enc_imm17 p' d' j' \<longleftrightarrow> p = p' \<and> d = d' \<and> j = j'"
    using decode_enc_imm17 [of p d j] decode_enc_imm17 [of p' d' j'] by (auto simp: ucast_16_inj ucast_32_inj)
  show "enc_rel25 p r = enc_rel25 p' r' \<longleftrightarrow> p = p' \<and> r = r'"
    using decode_enc_rel25 [of p r] decode_enc_rel25 [of p' r'] parse_rel25_enc [of p r] parse_rel25_enc [of p' r']
    by (auto simp: ucast_16_inj ucast_32_inj)
qed

fun instr_opc :: "instr \<Rightarrow> 7 word" where
  "instr_opc (Alu op d s t) = alu_opc op" | "instr_opc (AluI op d s i) = alu_opc (alui_base op) + 1" | "instr_opc (Mhi d i) = 0x37"
| "instr_opc (Branch c s t i) = branch_opc c" | "instr_opc (Jmp d s) = 0xd" | "instr_opc (JmpI r) = 0xe" | "instr_opc (JmpLnk r) = 0xf"
| "instr_opc (Load op d s i) = load_opc op" | "instr_opc (Store op d s i) = store_opc op" | "instr_opc Barr = 0x20" | "instr_opc (Syscall i) = 0x21"
| "instr_opc Rete = 0x22" | "instr_opc (Wmsr d s i) = 0x23" | "instr_opc (Rmsr d s i) = 0x24"

lemma opcode_encode: "opcode (decode (encode i)) = ucast (instr_opc i)"
  by (cases i) (simp_all add: decode_enc_fmt1 decode_enc_imm15 decode_enc_imm17 decode_enc_rel25)

text \<open>The operation an opcode stands for, up to its operands.\<close>

fun instr_head :: "instr \<Rightarrow> instr" where
  "instr_head (Alu op d s t) = Alu op 0 0 0" | "instr_head (AluI op d s i) = AluI op 0 0 0" | "instr_head (Mhi d i) = Mhi 0 0"
| "instr_head (Branch c s t i) = Branch c 0 0 0" | "instr_head (Jmp d s) = Jmp 0 0" | "instr_head (JmpI r) = JmpI 0" | "instr_head (JmpLnk r) = JmpLnk 0"
| "instr_head (Load op d s i) = Load op 0 0 0" | "instr_head (Store op d s i) = Store op 0 0 0" | "instr_head Barr = Barr" | "instr_head (Syscall i) = Syscall 0"
| "instr_head Rete = Rete" | "instr_head (Wmsr d s i) = Wmsr 0 0 0" | "instr_head (Rmsr d s i) = Rmsr 0 0 0"

definition opc_table :: "(7 word \<times> instr) list" where
  "opc_table = map (\<lambda>i. (instr_opc i, i))
    ([Alu op 0 0 0. op \<leftarrow> [AND_op, OR_op, XOR_op, LSL_op, LSR_op, ADD_op, SUB_op, ASR_op, MUL_op, DIV_op, DIVU_op, MOD_op, MODU_op]] @
     [AluI op 0 0 0. op \<leftarrow> [AND_I, OR_I, XOR_I, LSL_I, LSR_I, ADD_I, ASR_I]] @ [Branch c 0 0 0. c \<leftarrow> [BEQ, BNE, BGT, BGTU, BLE, BLEU]] @
     [Load op 0 0 0. op \<leftarrow> [LDWU, LDHU, LDH, LDBU, LDB]] @ [Store op 0 0 0. op \<leftarrow> [STW, STH, STB]] @
     [Mhi 0 0, Jmp 0 0, JmpI 0, JmpLnk 0, Barr, Syscall 0, Rete, Wmsr 0 0 0, Rmsr 0 0 0])"

lemma opc_table_head: "map_of opc_table (instr_opc i) = Some (instr_head i)"
proof (cases i)
  case (Alu op d s t)
  then show ?thesis by (cases op) (simp_all add: opc_table_def)
next
  case (AluI op d s t)
  then show ?thesis by (cases op) (simp_all add: opc_table_def)
next
  case (Branch c s t i)
  then show ?thesis by (cases c) (simp_all add: opc_table_def)
next
  case (Load op d s i)
  then show ?thesis by (cases op) (simp_all add: opc_table_def)
next
  case (Store op d s i)
  then show ?thesis by (cases op) (simp_all add: opc_table_def)
qed (simp_all add: opc_table_def)

lemma encode_inj: "encode i = encode j \<longleftrightarrow> i = j"
proof
  assume e: "encode i = encode j"
  then have "instr_opc i = instr_opc j" using opcode_encode [of i] opcode_encode [of j] by (simp add: ucast_16_inj)
  then have "instr_head i = instr_head j" using opc_table_head [of i] opc_table_head [of j] by simp
  with e show "i = j" by (cases i; cases j) (simp_all add: enc_same)
qed simp

lemma opcode_bits_decode: "opcode (decode w) = ucast (opcode_bits w)"
  unfolding decode_fields opcode_bits_def by (rule bit_eqI) (auto simp: bit_simps)

lemma encode_known: "opcode_bits (encode i) \<in> known_opcodes"
proof -
  have "opcode_bits (encode i) = instr_opc i" using opcode_encode [of i] by (simp add: opcode_bits_decode ucast_16_inj)
  moreover have "alu_opc op \<in> known_opcodes" for op by (cases op) (simp_all add: known_opcodes_def)
  moreover have "alu_opc (alui_base op) + 1 \<in> known_opcodes" for op by (cases op) (simp_all add: known_opcodes_def)
  moreover have "branch_opc c \<in> known_opcodes" for c by (cases c) (simp_all add: known_opcodes_def)
  moreover have "load_opc op \<in> known_opcodes" for op by (cases op) (simp_all add: known_opcodes_def)
  moreover have "store_opc op \<in> known_opcodes" for op by (cases op) (simp_all add: known_opcodes_def)
  ultimately show ?thesis by (cases i) (simp_all, simp_all add: known_opcodes_def)
qed

lemma isa_step_deterministic:
  assumes "isa_step E m r" and "isa_step E m r'"
  shows "r = r'"
  using assms encode_known by (auto elim!: isa_step.cases simp: encode_inj)

end
