(* ===== verification/CpuExec.thy ===== *)
theory CpuExec
  imports IsaSpec
begin

text \<open>
  The cases of \<open>CPU::step\<close> of \<open>em/csrc/cpu.cc\<close> against the abstract machine of \<open>IsaSpec\<close>. A processor is \<^emph>\<open>bare\<close>, as reset leaves it: interrupts, translation and caches
  off; the timer, which reset leaves as it is, may run. On a bare processor the execution of the decoding of an instruction
  of the specification has the specified effect on the machine that \<open>mach_of\<close> reads off the processor, and the processor stays bare.
\<close>

section \<open>The abstraction\<close>

definition bare :: "('cb, 'dv) CPU \<Rightarrow> bool" where
  "bare cpu \<longleftrightarrow> bare_psr (PSR (cpu_msr cpu)) \<and>
     vect_ESYSCALL cpu \<notin> {vect_EITM cpu, vect_EIPF cpu, vect_EINSN cpu, vect_EDTM cpu, vect_EDPF cpu, vect_EALIGN cpu} \<and>
     0 \<le> IRQ_TSC cpu \<and> IRQ_TSC cpu < 32 \<and>
     mem_wf (cpu_mem cpu) \<and> pcq_wf (pc_queue cpu) \<and> ras_wf (cpu_ras cpu) \<and> length (regfile cpu) = 32"

definition mach_of :: "vm_addr_t \<Rightarrow> ('cb, 'dv) CPU \<Rightarrow> mach" where
  "mach_of pc cpu = \<lparr>m_pc = pc, m_reg = (\<lambda>r. if r = 0 then 0 else regfile cpu ! unat r), m_mem = cell (cpu_mem cpu),
     m_psr = PSR (cpu_msr cpu), m_epsr = EPSR (cpu_msr cpu), m_epc = EPC (cpu_msr cpu), m_elsa = ELSA (cpu_msr cpu), m_evect = EVECT (cpu_msr cpu)\<rparr>"

definition env_of :: "('cb, 'dv) CPU \<Rightarrow> isa_env" where
  "env_of cpu = \<lparr>e_ram = dram_at (cpu_mem cpu), e_syscall = vect_ESYSCALL cpu, e_insn = vect_EINSN cpu\<rparr>"

text \<open>What an execution must deliver for a result of the specification.\<close>

definition delivers :: "('cb, 'dv) CPU \<Rightarrow> ('cb, 'dv) outcome \<Rightarrow> result \<Rightarrow> bool" where
  "delivers cpu out r = (case r of
       Next m \<Rightarrow> \<exists>npc excp cpu'. out = Inr (npc, excp, cpu') \<and> mach_of npc cpu' = m \<and> bare cpu' \<and> env_of cpu' = env_of cpu
     | Stop c \<Rightarrow> out = Inl (Panic c)
     | Undef \<Rightarrow> out = Inl Undefined
     | Leave \<Rightarrow> True)"

lemma ex_flag [simp]: "Ex Not" "\<exists>b :: bool. b"
  by blast+

lemma delivers_simps [simp]:
  "delivers cpu out (Next m) = (\<exists>npc excp cpu'. out = Inr (npc, excp, cpu') \<and> mach_of npc cpu' = m \<and> bare cpu' \<and>
     env_of cpu' = env_of cpu)"
  "delivers cpu out (Stop c) = (out = Inl (Panic c))" "delivers cpu out Undef = (out = Inl Undefined)" "delivers cpu out Leave"
  by (simp_all add: delivers_def)

lemma regno_16: "unat (ucast r :: u16) = unat r" "unat (ucast r :: u16) < 32" "(ucast r :: u16) = 0 \<longleftrightarrow> r = 0" "unat r < 32"
  for r :: regno
proof -
  show u: "unat (ucast r :: u16) = unat r" by (simp add: unat_ucast_up)
  show "unat r < 32" using unat_less_exp [of r] by simp
  then show "unat (ucast r :: u16) < 32" by (simp add: u)
  show "(ucast r :: u16) = 0 \<longleftrightarrow> r = 0" by (simp add: word_unat_eq_iff u)
qed

lemma get_reg_mach: "bare cpu \<Longrightarrow> get_reg (ucast r) cpu = Inr (m_reg (mach_of pc cpu) r)"
  by (simp add: get_reg_val regno_16 bare_def mach_of_def)

text \<open>The processor after a register write.\<close>

definition put_reg :: "regno \<Rightarrow> u32 \<Rightarrow> ('cb, 'dv) CPU \<Rightarrow> ('cb, 'dv) CPU" where
  "put_reg d v cpu = (if d = 0 then cpu else cpu\<lparr>regfile := (regfile cpu)[unat d := v]\<rparr>)"

lemma set_reg_mach: "bare cpu \<Longrightarrow> set_reg (ucast d) v cpu = Inr (put_reg d v cpu)"
  by (simp add: set_reg_val regno_16 bare_def put_reg_def)

lemma put_reg_bare [simp]: "bare (put_reg d v cpu) = bare cpu" "env_of (put_reg d v cpu) = env_of cpu"
  "cpu_ras (put_reg d v cpu) = cpu_ras cpu"
  by (simp_all add: put_reg_def bare_def env_of_def)

lemma mach_of_put: "bare cpu \<Longrightarrow> mach_of pc (put_reg d v cpu) = put d v (mach_of pc cpu)"
proof -
  assume "bare cpu"
  then have "(regfile cpu)[unat d := v] ! unat r = (if r = d then v else regfile cpu ! unat r)" for r
    by (simp add: bare_def regno_16(4) nth_list_update word_unat_eq_iff)
  then show ?thesis by (auto simp: mach_of_def put_reg_def put_def fun_eq_iff)
qed

lemma mach_of_goto: "mach_of npc cpu = goto npc (mach_of pc cpu)"
  by (simp add: mach_of_def goto_def)

lemma put_goto: "put d v (goto a m) = goto a (put d v m)"
  by (simp add: put_def goto_def)

lemma mach_of_simps [simp]: "m_pc (mach_of pc cpu) = pc" "m_mem (mach_of pc cpu) = cell (cpu_mem cpu)"
  by (simp_all add: mach_of_def)

section \<open>Execution\<close>

lemma deliver_put:
  assumes "bare cpu"
  shows "delivers cpu (bnd (set_reg (ucast d) v cpu) (fetch_next pc)) (Next (adv (put d v (mach_of pc cpu))))"
proof -
  have "mach_of (pc + 4) (put_reg d v cpu) = adv (put d v (mach_of pc cpu))"
    unfolding mach_of_goto [of "pc + 4" _ pc] mach_of_put [OF assms] by (simp add: adv_def goto_def put_def mach_of_def)
  then show ?thesis using assms by (simp add: set_reg_mach fetch_next_def)
qed

lemma deliver_goto: "bare cpu \<Longrightarrow> delivers cpu (Inr (npc, False, cpu)) (Next (goto npc (mach_of pc cpu)))"
  by (simp add: mach_of_goto [of npc _ pc])

lemma deliver_adv: "bare cpu \<Longrightarrow> delivers cpu (fetch_next pc cpu) (Next (adv (mach_of pc cpu)))"
  by (simp add: fetch_next_def adv_def mach_of_goto [of "pc + 4" _ pc])

lemma alu_reg_alu_opc: "\<exists>f. alu_reg (ucast (alu_opc op)) = Some f"
  by (cases op) (simp_all add: alu_reg_def)

lemma exec_Alu:
  assumes "bare cpu"
  shows "delivers cpu (exec_insn vt pc (decode (encode (Alu op d s t))) cpu) (sem E (Alu op d s t) (mach_of pc cpu))"
proof -
  obtain f where f: "alu_reg (ucast (alu_opc op)) = Some f" using alu_reg_alu_opc by blast
  let ?a = "m_reg (mach_of pc cpu) s" and ?b = "m_reg (mach_of pc cpu) t"
  have "exec_insn vt pc (decode (encode (Alu op d s t))) cpu = bnd (f ?a ?b) (\<lambda>v. bnd (set_reg (ucast d) v cpu) (fetch_next pc))"
    using decode_enc_fmt1 [of "alu_opc op" d s t] f assms by (simp add: exec_insn_def exec_alu_reg_def get_reg_mach [of _ _ pc])
  then show ?thesis
    using deliver_put [OF assms] by (simp add: alu_reg_value [OF f] split: option.splits del: delivers_simps(1))
qed

lemma imm15_ext: "(ucast (ucast i :: u16) :: u32) = word_of_int (uint i)" "(scast (scast i :: u16) :: u32) = word_of_int (sint i)"
  for i :: "15 word"
  by (rule bit_eqI; auto simp: bit_simps min_def dest: bit_imp_le_length)+

text \<open>An immediate instruction applies the operation of its register form to the extended immediate.\<close>

lemma alui_dispatch:
  assumes "d = decode (enc_imm15 (alu_opc (alui_base op) + 1) r s i)" and "alu_reg (ucast (alu_opc (alui_base op))) = Some f"
  shows "alu_reg (opcode d) = None" and "alu_imm d = Some (\<lambda>a. f a (imm_operand op i))"
proof -
  have o: "opcode d = ucast (alu_opc (alui_base op) + 1)" "uimm15 d = ucast i" "simm15 d = scast i"
    using decode_enc_imm15 [of "alu_opc (alui_base op) + 1" r s i] by (simp_all add: assms)
  show "alu_reg (opcode d) = None" unfolding o(1) by (cases op) (simp_all add: alu_reg_def)
  show "alu_imm d = Some (\<lambda>a. f a (imm_operand op i))"
    using assms(2) by (cases op) (auto simp: o alu_reg_def alu_imm_def imm_operand_def imm15_ext)
qed

lemma exec_AluI:
  assumes "bare cpu"
  shows "delivers cpu (exec_insn vt pc (decode (encode (AluI op d s i))) cpu) (sem E (AluI op d s i) (mach_of pc cpu))"
proof -
  let ?d = "decode (enc_imm15 (alu_opc (alui_base op) + 1) d s i)" and ?a = "m_reg (mach_of pc cpu) s"
  obtain f where f: "alu_reg (ucast (alu_opc (alui_base op))) = Some f" using alu_reg_alu_opc by blast
  have "exec_insn vt pc ?d cpu = bnd (f ?a (imm_operand op i)) (\<lambda>v. bnd (set_reg (ucast d) v cpu) (fetch_next pc))"
    unfolding exec_insn_def Let_def alui_dispatch [OF refl f]
    using decode_enc_imm15 [of "alu_opc (alui_base op) + 1" d s i] assms by (simp add: exec_alu_imm_def get_reg_mach [of _ _ pc])
  then show ?thesis
    using deliver_put [OF assms] by (simp add: alu_reg_value [OF f] split: option.splits del: delivers_simps(1))
qed

lemma decode_enc_simps:
  "opcode (decode (enc_imm15 o7 d s i)) = ucast o7" "rd (decode (enc_imm15 o7 d s i)) = ucast d"
  "rs1 (decode (enc_imm15 o7 d s i)) = ucast s" "uimm15 (decode (enc_imm15 o7 d s i)) = ucast i"
  "simm15 (decode (enc_imm15 o7 d s i)) = scast i" "rel15_sig_ext (rel15 (decode (enc_imm15 o7 d s i))) = push_bit 2 (scast i)"
  "opcode (decode (enc_fmt1 o7 d s t)) = ucast o7" "rd (decode (enc_fmt1 o7 d s t)) = ucast d" "rs1 (decode (enc_fmt1 o7 d s t)) = ucast s"
  "opcode (decode (enc_imm17 o7 d j)) = ucast o7" "rd (decode (enc_imm17 o7 d j)) = ucast d" "uimm17 (decode (enc_imm17 o7 d j)) = ucast j"
  "opcode (decode (enc_rel25 o7 r)) = ucast o7" "rel25_sig_ext (rel25 (decode (enc_rel25 o7 r))) = push_bit 2 (scast r)"
  using decode_enc_imm15 [of o7 d s i] decode_enc_fmt1 [of o7 d s t] decode_enc_imm17 [of o7 d j] decode_enc_rel25 [of o7 r] by simp_all

lemma displacement: "push_bit 2 (scast x :: u32) = word_of_int (4 * sint x)" for x :: "'a::len word"
  by (simp add: push_bit_eq_mult)

lemma exec_Mhi:
  assumes "bare cpu"
  shows "delivers cpu (exec_insn vt pc (decode (encode (Mhi d i))) cpu) (sem E (Mhi d i) (mach_of pc cpu))"
proof -
  have "push_bit 15 (ucast i :: u32) = word_of_int (uint i * 2 ^ 15)" by (simp add: push_bit_eq_mult)
  then show ?thesis using deliver_put [OF assms]
    by (simp add: exec_insn_def alu_reg_def alu_imm_def branch_cc_def exec_MHI_def decode_enc_simps del: delivers_simps(1))
qed

lemma branch_dispatch: "branch_cc (ucast (branch_opc c)) = Some (branch_sem c)" "alu_reg (ucast (branch_opc c)) = None"
  "opcode d = ucast (branch_opc c) \<Longrightarrow> alu_imm d = None"
  by (cases c; simp add: branch_cc_def alu_reg_def alu_imm_def fun_eq_iff word_less_def word_le_def word_uint_eq_iff)+

lemma exec_Branch:
  assumes "bare cpu"
  shows "delivers cpu (exec_insn vt pc (decode (encode (Branch c s t i))) cpu) (sem E (Branch c s t i) (mach_of pc cpu))"
  using assms deliver_goto [OF assms] deliver_adv [OF assms, of pc]
  by (simp add: exec_insn_def branch_dispatch exec_branch_def decode_enc_simps get_reg_mach [of _ _ pc] displacement
      del: delivers_simps(1))

text \<open>The return-address stack is not part of the machine.\<close>

lemma ras_bare: "bare cpu \<Longrightarrow> ras_wf r \<Longrightarrow> bare (cpu\<lparr>cpu_ras := r\<rparr>)" "mach_of pc (cpu\<lparr>cpu_ras := r\<rparr>) = mach_of pc cpu"
  "env_of (cpu\<lparr>cpu_ras := r\<rparr>) = env_of cpu"
  by (simp_all add: bare_def mach_of_def env_of_def fun_eq_iff)

lemma push_ras_bare:
  assumes "bare cpu"
  obtains r where "push_ras pc npc cpu = Inr (cpu\<lparr>cpu_ras := r\<rparr>)" and "ras_wf r"
  using assms ras_push_total [of "cpu_ras cpu" pc npc] ras_wf_push [of "cpu_ras cpu" pc npc]
  by (auto simp: push_ras_def bare_def)

lemma exec_JmpI: "bare cpu \<Longrightarrow> delivers cpu (exec_insn vt pc (decode (encode (JmpI r))) cpu) (sem E (JmpI r) (mach_of pc cpu))"
  using deliver_goto [of cpu _ pc]
  by (simp add: exec_insn_def alu_reg_def alu_imm_def branch_cc_def exec_JMP_I_def decode_enc_simps displacement
      del: delivers_simps(1))

lemma exec_JmpLnk:
  assumes "bare cpu"
  shows "delivers cpu (exec_insn vt pc (decode (encode (JmpLnk r))) cpu) (sem E (JmpLnk r) (mach_of pc cpu))"
proof -
  let ?npc = "pc + word_of_int (4 * sint r)" and ?c = "put_reg 1 (pc + 4) cpu"
  have b: "bare ?c" using assms by simp
  then obtain q where q: "push_ras pc ?npc ?c = Inr (?c\<lparr>cpu_ras := q\<rparr>)" "ras_wf q" by (rule push_ras_bare)
  have "exec_insn vt pc (decode (encode (JmpLnk r))) cpu = Inr (?npc, False, ?c\<lparr>cpu_ras := q\<rparr>)"
    using q set_reg_mach [OF assms, of 1]
    by (simp add: exec_insn_def alu_reg_def alu_imm_def branch_cc_def exec_JMP_I_LNK_def decode_enc_simps displacement)
  moreover have "mach_of ?npc (?c\<lparr>cpu_ras := q\<rparr>) = goto ?npc (put 1 (pc + 4) (mach_of pc cpu))"
    unfolding ras_bare(2) mach_of_goto [of ?npc _ pc] mach_of_put [OF assms] put_goto ..
  ultimately show ?thesis using ras_bare(1) [OF b q(2)] by (simp add: ras_bare(3))
qed

lemma exec_Jmp:
  assumes "bare cpu"
  shows "delivers cpu (exec_insn vt pc (decode (encode (Jmp d s))) cpu) (sem E (Jmp d s) (mach_of pc cpu))"
proof -
  let ?c = "put_reg d (pc + 4) cpu" and ?d = "decode (enc_fmt1 0xd d s 0)" and ?m = "put d (pc + 4) (mach_of pc cpu)"
  have w: "length (regfile cpu) = 32" "ras_wf (cpu_ras cpu)" "unat (rd ?d) < 32" "unat (rs1 ?d) < 32"
    "get_reg (rs1 ?d) cpu = Inr (m_reg (mach_of pc cpu) s)"
    using assms by (simp_all add: decode_enc_simps regno_16 get_reg_mach) (simp_all add: bare_def)
  have t: "(if rd ?d = rs1 ?d \<and> rd ?d \<noteq> 0 then pc + 4 else m_reg (mach_of pc cpu) s) = m_reg ?m s"
    by (simp add: decode_enc_simps regno_16(1,3) word_unat_eq_iff put_def)
  have c: "cpu\<lparr>regfile := if rd ?d = 0 then regfile cpu else (regfile cpu)[unat (rd ?d) := pc + 4], cpu_ras := r\<rparr> = ?c\<lparr>cpu_ras := r\<rparr>" for r
    by (simp add: decode_enc_simps regno_16 put_reg_def)
  from exec_JMP_effect [OF w, of pc, unfolded t c] obtain r where
    r: "exec_JMP pc ?d cpu = Inr (m_reg ?m s, False, ?c\<lparr>cpu_ras := r\<rparr>)" "ras_wf r" by blast
  have "exec_insn vt pc (decode (encode (Jmp d s))) cpu = exec_JMP pc ?d cpu"
    by (simp add: exec_insn_def alu_reg_def alu_imm_def branch_cc_def decode_enc_simps)
  moreover have "bare (?c\<lparr>cpu_ras := r\<rparr>)" using ras_bare(1) [of ?c r] r(2) assms by simp
  moreover have "mach_of (m_reg ?m s) (?c\<lparr>cpu_ras := r\<rparr>) = goto (m_reg ?m s) ?m"
    unfolding ras_bare(2) mach_of_goto [of "m_reg ?m s" _ pc] mach_of_put [OF assms] put_goto ..
  ultimately show ?thesis using r(1) by (simp add: ras_bare(3) Let_def)
qed

text \<open>The data port of a bare processor is the physical memory.\<close>

lemma translated_bare: "bare cpu \<Longrightarrow> translated pc va st cpu k = k va True"
  by (simp add: translated_def dmmu_translate_vma_def bare_def bare_psr_def)

lemma effective_va_mach:
  "bare cpu \<Longrightarrow> effective_va (decode (enc_imm15 o7 d s i)) cpu = Inr (m_reg (mach_of pc cpu) s + word_of_int (sint i))"
  by (simp add: effective_va_def decode_enc_simps get_reg_mach [of _ _ pc] imm15_ext)

lemma ram_dram: "ram_range (dram_at M) a n = dram_range M a n"
  by (simp add: ram_range_def dram_range_def)

lemma aligned_va_dvd:
  "aligned_va pc va 4 cpu k = (if 4 dvd unat va then k else Inl (Panic 1))"
  "aligned_va pc va 2 cpu k = (if 2 dvd unat va then k else Inl (Panic 1))"
  by (simp_all add: aligned_va_def check_vma_align_def and3_mod and1_mod dvd_eq_mod_eq_0)

text \<open>The value a load writes, as the instruction set defines it.\<close>

lemma loaded_word:
  fixes h :: u16 and b :: u8
  shows "(ucast h :: u32) = word_of_int (uint h)" "(ucast h XOR 0x8000) - 0x8000 = (word_of_int (sint h) :: u32)"
    "(ucast b :: u32) = word_of_int (uint b)" "(ucast b XOR 0x80) - 0x80 = (word_of_int (sint b) :: u32)"
  using xor_sub_sext [of 15 h, where 'b = 32] xor_sub_sext [of 7 b, where 'b = 32] by simp_all

lemma data_reads_bare:
  assumes "bare cpu"
  shows "dram_range (cpu_mem cpu) a 4 \<Longrightarrow> data_read32 vt a True cpu = Inr (le32 (cell (cpu_mem cpu)) a, cpu)"
    "dram_range (cpu_mem cpu) a 2 \<Longrightarrow> data_read16 vt a True cpu = Inr (le16 (cell (cpu_mem cpu)) a, cpu)"
    "dram_range (cpu_mem cpu) a (Suc 0) \<Longrightarrow> data_read8 vt a True cpu = Inr (cell (cpu_mem cpu) a, cpu)"
  using assms by (simp_all add: data_read32_def data_read16_def data_read8_def from_bus_def cpu_bus_def set_bus_def bare_def
      phy_readm32_dram phy_readm16_dram phy_readm8_dram le_at dram_range_def)

definition exec_load :: "load_op \<Rightarrow> ('cb, 'dv) vtable \<Rightarrow> vm_addr_t \<Rightarrow> decoded \<Rightarrow> ('cb, 'dv) CPU \<Rightarrow> ('cb, 'dv) outcome" where
  "exec_load op = (case op of LDWU \<Rightarrow> exec_LDWU | LDHU \<Rightarrow> exec_LDHU | LDH \<Rightarrow> exec_LDH | LDBU \<Rightarrow> exec_LDBU | LDB \<Rightarrow> exec_LDB)"

lemma load_dispatch: "opcode d = ucast (load_opc op) \<Longrightarrow> exec_insn vt pc d cpu = exec_load op vt pc d cpu"
  by (cases op) (simp_all add: exec_insn_def alu_reg_def alu_imm_def branch_cc_def exec_load_def)

lemma exec_load_bare:
  assumes "bare cpu" and "effective_va d cpu = Inr a" and "ram_range (dram_at (cpu_mem cpu)) a (load_size op)"
  shows "exec_load op vt pc d cpu = (if load_size op dvd unat a
    then bnd (set_reg (rd d) (word_of_int (load_value op (cell (cpu_mem cpu)) a)) cpu) (fetch_next pc) else Inl (Panic 1))"
  using assms(3) data_reads_bare [OF assms(1), of a vt] loaded_word translated_bare [OF assms(1)]
  by (cases op)
    (simp_all add: exec_load_def exec_LDWU_def exec_LDHU_def exec_LDH_def exec_LDBU_def exec_LDB_def assms(2) aligned_va_dvd ram_dram)

lemma exec_Load:
  assumes "bare cpu" and "E = env_of cpu"
  shows "delivers cpu (exec_insn vt pc (decode (encode (Load op d s i))) cpu) (sem E (Load op d s i) (mach_of pc cpu))"
proof -
  let ?d = "decode (enc_imm15 (load_opc op) d s i)" and ?a = "m_reg (mach_of pc cpu) s + word_of_int (sint i)"
  have "exec_insn vt pc (decode (encode (Load op d s i))) cpu = exec_load op vt pc ?d cpu"
    by (simp add: load_dispatch decode_enc_simps)
  moreover have "exec_load op vt pc ?d cpu = Inl (Panic 1)" if "\<not> load_size op dvd unat ?a"
    using that effective_va_mach [OF assms(1), of "load_opc op" d s i pc]
    by (cases op) (simp_all add: exec_load_def exec_LDWU_def exec_LDHU_def exec_LDH_def aligned_va_dvd)
  ultimately show ?thesis
    using exec_load_bare [OF assms(1) effective_va_mach [OF assms(1), of "load_opc op" d s i pc], of op vt pc] deliver_put [OF assms(1), of d]
    by (simp add: access_def assms(2) env_of_def decode_enc_simps Let_def del: delivers_simps(1))
qed

lemma mem_bare:
  assumes "bare cpu" and "mem_wf M" and "M\<lparr>memory := []\<rparr> = (cpu_mem cpu)\<lparr>memory := []\<rparr>"
  shows "bare (cpu\<lparr>cpu_mem := M\<rparr>)" and "env_of (cpu\<lparr>cpu_mem := M\<rparr>) = env_of cpu"
    and "mach_of pc (cpu\<lparr>cpu_mem := M\<rparr>) = (mach_of pc cpu)\<lparr>m_mem := cell M\<rparr>"
  using assms same_window(1) by (auto simp: bare_def mach_of_def env_of_def)

definition exec_store :: "store_op \<Rightarrow> ('cb, 'dv) vtable \<Rightarrow> vm_addr_t \<Rightarrow> decoded \<Rightarrow> ('cb, 'dv) CPU \<Rightarrow> ('cb, 'dv) outcome" where
  "exec_store op = (case op of STW \<Rightarrow> exec_STW | STH \<Rightarrow> exec_STH | STB \<Rightarrow> exec_STB)"

lemma store_dispatch: "opcode d = ucast (store_opc op) \<Longrightarrow> exec_insn vt pc d cpu = exec_store op vt pc d cpu"
  by (cases op) (simp_all add: exec_insn_def alu_reg_def alu_imm_def branch_cc_def exec_store_def)

fun store_bytes :: "store_op \<Rightarrow> u32 \<Rightarrow> u8 list" where
  "store_bytes STW v = [byte_of 0 v, byte_of 1 v, byte_of 2 v, byte_of 3 v]"
| "store_bytes STH v = [byte_of 0 (ucast v :: u16), byte_of 1 (ucast v :: u16)]"
| "store_bytes STB v = [ucast v]"

lemma store_cells:
  assumes "mem_wf M" and "dram_range M a (store_size op)"
  shows "cell (set_cells a (store_bytes op v) M) = store_mem op a v (cell M)"
  using assms cell_set_cells_4 [OF assms(1), of a] cell_set_cells_2 [OF assms(1), of a] cell_set_cell [OF assms(1), of a]
  by (cases op) (auto simp: fun_eq_iff upd32_def upd16_def set_cells_def dram_range_def)

lemma exec_store_bare:
  assumes "bare cpu" and "effective_va d cpu = Inr a" and "get_reg (rd d) cpu = Inr v" and "dram_range (cpu_mem cpu) a (store_size op)"
  shows "exec_store op vt pc d cpu = (if store_size op dvd unat a
    then fetch_next pc (cpu\<lparr>cpu_mem := set_cells a (store_bytes op v) (cpu_mem cpu)\<rparr>) else Inl (Panic 1))"
proof -
  have "mem_wf (cpu_mem cpu)" using assms(1) by (simp add: bare_def)
  then show ?thesis
    using assms(4) translated_bare [OF assms(1)]
    by (cases op)
      (simp_all add: exec_store_def exec_STW_def exec_STH_def exec_STB_def assms(2,3) aligned_va_dvd data_write32_def data_write16_def
        data_write8_def on_bus_def cpu_bus_def set_bus_def phy_writem32_dram phy_writem16_dram phy_writem8_dram set_cells_def dram_range_def)
qed

lemma exec_Store:
  assumes "bare cpu" and "E = env_of cpu"
  shows "delivers cpu (exec_insn vt pc (decode (encode (Store op d s i))) cpu) (sem E (Store op d s i) (mach_of pc cpu))"
proof -
  let ?d = "decode (enc_imm15 (store_opc op) d s i)" and ?a = "m_reg (mach_of pc cpu) s + word_of_int (sint i)"
    and ?v = "m_reg (mach_of pc cpu) d"
  let ?M = "set_cells ?a (store_bytes op ?v) (cpu_mem cpu)"
  have va: "effective_va ?d cpu = Inr ?a" by (rule effective_va_mach [OF assms(1)])
  have v: "get_reg (rd ?d) cpu = Inr ?v" by (simp add: decode_enc_simps get_reg_mach [OF assms(1), of _ pc])
  have e: "exec_insn vt pc (decode (encode (Store op d s i))) cpu = exec_store op vt pc ?d cpu"
    by (simp add: store_dispatch decode_enc_simps)
  have m: "mem_wf (cpu_mem cpu)" using assms(1) by (simp add: bare_def)
  consider "\<not> store_size op dvd unat ?a" | "store_size op dvd unat ?a" "\<not> dram_range (cpu_mem cpu) ?a (store_size op)"
    | "store_size op dvd unat ?a" "dram_range (cpu_mem cpu) ?a (store_size op)" by blast
  then show ?thesis
  proof cases
    case 1
    then have "exec_store op vt pc ?d cpu = Inl (Panic 1)"
      using va by (cases op) (simp_all add: exec_store_def exec_STW_def exec_STH_def aligned_va_dvd)
    then show ?thesis using 1 unfolding e by (simp add: access_def Let_def)
  next
    case 2
    then show ?thesis by (simp add: access_def assms(2) env_of_def ram_dram Let_def)
  next
    case 3
    have b: "bare (cpu\<lparr>cpu_mem := ?M\<rparr>)" "env_of (cpu\<lparr>cpu_mem := ?M\<rparr>) = env_of cpu"
      "mach_of pc (cpu\<lparr>cpu_mem := ?M\<rparr>) = (mach_of pc cpu)\<lparr>m_mem := cell ?M\<rparr>"
      using mem_bare [OF assms(1), of ?M] m set_cells_rest by auto
    have "delivers cpu (fetch_next pc (cpu\<lparr>cpu_mem := ?M\<rparr>)) (Next (adv ((mach_of pc cpu)\<lparr>m_mem := cell ?M\<rparr>)))"
      using deliver_adv [OF b(1), of pc] b(2,3) by simp
    then show ?thesis
      using 3 exec_store_bare [OF assms(1) va v 3(2), of vt pc] store_cells [OF m 3(2), of ?v] unfolding e
      by (simp add: access_def assms(2) env_of_def ram_dram Let_def del: delivers_simps(1))
  qed
qed

lemma exec_Barr: "bare cpu \<Longrightarrow> delivers cpu (exec_insn vt pc (decode (encode Barr)) cpu) (sem E Barr (mach_of pc cpu))"
  using deliver_adv [of cpu pc]
  by (simp add: exec_insn_def alu_reg_def alu_imm_def branch_cc_def decode_enc_simps del: delivers_simps(1))

text \<open>The registers of exception handling, and the exceptions.\<close>

lemma msr_bare:
  "bare cpu \<Longrightarrow> bare_psr (PSR m) \<Longrightarrow> bare (cpu\<lparr>cpu_msr := m\<rparr>)" "env_of (cpu\<lparr>cpu_msr := m\<rparr>) = env_of cpu"
  "mach_of pc (cpu\<lparr>cpu_msr := m\<rparr>) =
    (mach_of pc cpu)\<lparr>m_psr := PSR m, m_epsr := EPSR m, m_epc := EPC m, m_elsa := ELSA m, m_evect := EVECT m\<rparr>"
  by (simp_all add: bare_def env_of_def mach_of_def fun_eq_iff)

lemma mach_of_msrs [simp]:
  "m_psr (mach_of pc cpu) = PSR (cpu_msr cpu)" "m_epsr (mach_of pc cpu) = EPSR (cpu_msr cpu)" "m_epc (mach_of pc cpu) = EPC (cpu_msr cpu)"
  "m_elsa (mach_of pc cpu) = ELSA (cpu_msr cpu)" "m_evect (mach_of pc cpu) = EVECT (cpu_msr cpu)"
  by (simp_all add: mach_of_def)

lemma mach_of_msr_updates:
  fixes cpu :: "('cb, 'dv) CPU" and pc :: vm_addr_t
  defines "r \<equiv> cpu_msr cpu" and "m \<equiv> mach_of pc cpu"
  shows "m\<lparr>m_elsa := ELSA r\<rparr> = m"
    "m\<lparr>m_psr := p, m_epsr := EPSR r, m_epc := EPC r, m_elsa := ELSA r, m_evect := EVECT r\<rparr> = m\<lparr>m_psr := p\<rparr>"
    "m\<lparr>m_psr := PSR r, m_epsr := p, m_epc := EPC r, m_elsa := ELSA r, m_evect := EVECT r\<rparr> = m\<lparr>m_epsr := p\<rparr>"
    "m\<lparr>m_psr := PSR r, m_epsr := EPSR r, m_epc := a, m_elsa := ELSA r, m_evect := EVECT r\<rparr> = m\<lparr>m_epc := a\<rparr>"
    "m\<lparr>m_psr := PSR r, m_epsr := EPSR r, m_epc := EPC r, m_elsa := a, m_evect := EVECT r\<rparr> = m\<lparr>m_elsa := a\<rparr>"
    "m\<lparr>m_psr := PSR r, m_epsr := EPSR r, m_epc := EPC r, m_elsa := ELSA r, m_evect := a\<rparr> = m\<lparr>m_evect := a\<rparr>"
  by (simp_all add: r_def m_def mach_of_def)

lemma vector_page: "(e AND 0xffffff00) OR (v AND 0xff) = word_of_int (uint e div 256 * 256 + uint v mod 256)" for e v :: u32
proof -
  have "e AND 0xffffff00 = push_bit 8 (drop_bit 8 e)"
  proof -
    have m: "(0xffffff00 :: u32) = push_bit 8 (mask 24)" by (simp add: mask_eq_exp_minus_1)
    show ?thesis unfolding m by (rule bit_eqI) (auto simp: bit_simps)
  qed
  moreover have "v AND 0xff = take_bit 8 v" by (simp add: take_bit_eq_mask mask_eq_exp_minus_1)
  moreover have "push_bit 8 (drop_bit 8 e) AND take_bit 8 v = 0" by (rule bit_eqI) (auto simp: bit_simps)
  ultimately have "(e AND 0xffffff00) OR (v AND 0xff) = push_bit 8 (drop_bit 8 e) + take_bit 8 v"
    by (simp add: disjunctive_add_eq_or)
  also have "push_bit 8 (drop_bit 8 e) = word_of_int (uint e div 256 * 256)"
    using word_of_sint_ops(5) [of e 8] by (simp add: push_bit_eq_mult)
  also have "take_bit 8 v = word_of_int (uint v mod 256)"
    by (simp add: take_bit_eq_mod word_mod_def)
  finally show ?thesis by simp
qed

lemma deliver_trap:
  assumes "bare cpu" and "raise_exception pc vec lsa sc cpu = (npc, cpu\<lparr>cpu_msr := m\<rparr>)"
    and "m = (cpu_msr cpu)\<lparr>ELSA := l, EPC := ret, EPSR := PSR (cpu_msr cpu),
      PSR := (PSR (cpu_msr cpu))\<lparr>psr_RM := True, psr_IMME := False, psr_DMME := False, psr_IRE := False\<rparr>\<rparr>"
    and "npc = (EVECT (cpu_msr cpu) AND 0xffffff00) OR (vec AND 0xff)"
  shows "delivers cpu (exception pc vec lsa sc cpu) (Next (trap vec ret ((mach_of pc cpu)\<lparr>m_elsa := l\<rparr>)))"
proof -
  have "bare_psr (PSR m)" using assms(1,3) by (simp add: bare_def bare_psr_def)
  then have "bare (cpu\<lparr>cpu_msr := m\<rparr>)" using assms(1) msr_bare(1) by blast
  moreover have "mach_of npc (cpu\<lparr>cpu_msr := m\<rparr>) = trap vec ret ((mach_of pc cpu)\<lparr>m_elsa := l\<rparr>)"
    unfolding msr_bare(3) mach_of_goto [of npc _ pc] by (simp add: trap_def goto_def assms(3,4) vector_page)
  ultimately show ?thesis using assms(2) by (simp add: exception_def msr_bare(2))
qed

lemma exec_Syscall:
  assumes "bare cpu" and "E = env_of cpu"
  shows "delivers cpu (exec_insn vt pc (decode (encode (Syscall i))) cpu) (sem E (Syscall i) (mach_of pc cpu))"
proof -
  have c: "(ucast i :: u16) = 0x90d \<longleftrightarrow> i = 0x90d" "(ucast i :: u16) = 0xbad \<longleftrightarrow> i = 0xbad"
    by (simp_all add: word_unat_eq_iff unat_ucast_up)
  let ?m = "(cpu_msr cpu)\<lparr>EPC := pc + 4, EPSR := PSR (cpu_msr cpu),
      PSR := (PSR (cpu_msr cpu))\<lparr>psr_RM := True, psr_IMME := False, psr_DMME := False, psr_IRE := False\<rparr>\<rparr>"
  have "raise_exception pc (vect_ESYSCALL cpu) 0 True cpu =
      ((EVECT (cpu_msr cpu) AND 0xffffff00) OR (vect_ESYSCALL cpu AND 0xff), cpu\<lparr>cpu_msr := ?m\<rparr>)"
    using assms(1) by (auto simp: raise_exception_def bare_def Let_def)
  from deliver_trap [OF assms(1) this, where l = "ELSA (cpu_msr cpu)" and ret = "pc + 4"]
  have "delivers cpu (exception pc (vect_ESYSCALL cpu) 0 True cpu) (Next (trap (vect_ESYSCALL cpu) (pc + 4) (mach_of pc cpu)))"
    by (simp add: mach_of_msr_updates(1) del: delivers_simps(1))
  then show ?thesis
    using c by (simp add: exec_insn_def alu_reg_def alu_imm_def branch_cc_def exec_SYSCALL_def decode_enc_simps assms(2) env_of_def del: delivers_simps(1))
qed

lemma exec_illegal:
  assumes "bare cpu" and "opcode_bits w \<notin> known_opcodes"
  shows "delivers cpu (exec_insn vt pc (decode w) cpu) (Next (trap (vect_EINSN cpu) pc ((mach_of pc cpu)\<lparr>m_elsa := pc\<rparr>)))"
proof -
  let ?m = "(cpu_msr cpu)\<lparr>ELSA := pc, EPC := pc, EPSR := PSR (cpu_msr cpu),
      PSR := (PSR (cpu_msr cpu))\<lparr>psr_RM := True, psr_IMME := False, psr_DMME := False, psr_IRE := False\<rparr>\<rparr>"
  have "opcode (decode w) \<noteq> ucast x" if "x \<in> known_opcodes" for x
    using assms(2) that by (auto simp: opcode_bits_decode ucast_16_inj)
  then have "\<forall>x \<in> known_opcodes. opcode (decode w) \<noteq> ucast x" by blast
  then have "exec_insn vt pc (decode w) cpu = exception pc (vect_EINSN cpu) pc False cpu"
    unfolding known_opcodes_def by (simp add: exec_insn_def alu_reg_def alu_imm_def branch_cc_def)
  moreover have "raise_exception pc (vect_EINSN cpu) pc False cpu =
      ((EVECT (cpu_msr cpu) AND 0xffffff00) OR (vect_EINSN cpu AND 0xff), cpu\<lparr>cpu_msr := ?m\<rparr>)"
    by (simp add: raise_exception_def Let_def)
  ultimately show ?thesis using deliver_trap [OF assms(1)] by simp
qed

lemma exec_Rete:
  assumes "bare cpu"
  shows "delivers cpu (exec_insn vt pc (decode (encode Rete)) cpu) (sem E Rete (mach_of pc cpu))"
proof (cases "bare_psr (EPSR (cpu_msr cpu))")
  case True
  let ?m = "(cpu_msr cpu)\<lparr>PSR := EPSR (cpu_msr cpu)\<rparr>"
  have "mach_of (EPC (cpu_msr cpu)) (cpu\<lparr>cpu_msr := ?m\<rparr>) = goto (EPC (cpu_msr cpu)) ((mach_of pc cpu)\<lparr>m_psr := EPSR (cpu_msr cpu)\<rparr>)"
    by (simp add: mach_of_def goto_def fun_eq_iff)
  then show ?thesis
    using True msr_bare(1) [OF assms, of ?m]
    by (simp add: exec_insn_def alu_reg_def alu_imm_def branch_cc_def exec_RETE_def decode_enc_simps msr_bare(2) Let_def)
qed simp

text \<open>The register number of \<open>WMSR\<close> and \<open>RMSR\<close>.\<close>

lemma msr_operand_mach:
  assumes "bare cpu"
  obtains x where "msr_operand (decode (enc_imm15 o7 d s i)) cpu = Inr x" and "msr_number (m_reg (mach_of pc cpu) s) i = uint x"
  using assms that
  by (simp add: msr_operand_def decode_enc_simps get_reg_mach [of _ _ pc] imm15_ext msr_number_def unsigned_ucast_eq take_bit_eq_mod)

lemma msr_index: "uint x = 0xa01 \<longleftrightarrow> x = 0xa01" "uint x = 0xa02 \<longleftrightarrow> x = 0xa02" "uint x = 0x1 \<longleftrightarrow> x = 0x1" "uint x = 0x4 \<longleftrightarrow> x = 0x4"
  "uint x = 0x8 \<longleftrightarrow> x = 0x8" "uint x = 0x10 \<longleftrightarrow> x = 0x10" "uint x = 0x40 \<longleftrightarrow> x = 0x40" for x :: u16
  by (simp_all add: word_uint_eq_iff)

lemma deliver_adv_msr:
  assumes "bare cpu" and "bare_psr (PSR m)"
  shows "delivers cpu (fetch_next pc (cpu\<lparr>cpu_msr := m\<rparr>))
    (Next (adv ((mach_of pc cpu)\<lparr>m_psr := PSR m, m_epsr := EPSR m, m_epc := EPC m, m_elsa := ELSA m, m_evect := EVECT m\<rparr>)))"
  using deliver_adv [OF msr_bare(1) [OF assms], of pc] by (simp add: msr_bare(2,3))

lemma exec_Wmsr:
  assumes "bare cpu"
  shows "delivers cpu (exec_insn vt pc (decode (encode (Wmsr d s i))) cpu) (sem E (Wmsr d s i) (mach_of pc cpu))"
proof -
  let ?d = "decode (enc_imm15 0x23 d s i)" and ?v = "m_reg (mach_of pc cpu) d" and ?r = "cpu_msr cpu" and ?m = "mach_of pc cpu"
  obtain x where x: "msr_operand ?d cpu = Inr x" "msr_number (m_reg ?m s) i = uint x" by (rule msr_operand_mach [OF assms])
  have p: "bare_psr (PSR ?r)" using assms by (simp add: bare_def)
  have out: "delivers cpu (fetch_next pc (cpu\<lparr>cpu_out := o'\<rparr>)) (Next (adv ?m))" for o'
  proof -
    have "bare (cpu\<lparr>cpu_out := o'\<rparr>)" "mach_of pc (cpu\<lparr>cpu_out := o'\<rparr>) = ?m" "env_of (cpu\<lparr>cpu_out := o'\<rparr>) = env_of cpu"
      using assms by (simp_all add: bare_def mach_of_def env_of_def fun_eq_iff)
    then show ?thesis using deliver_adv [of "cpu\<lparr>cpu_out := o'\<rparr>" pc] by simp
  qed
  have e: "exec_insn vt pc (decode (encode (Wmsr d s i))) cpu = bnd (wmsr vt x ?v cpu) (fetch_next pc)"
    using x(1) by (simp add: exec_insn_def alu_reg_def alu_imm_def branch_cc_def exec_WMSR_def decode_enc_simps get_reg_mach [OF assms, of _ pc])
  show ?thesis
    unfolding e sem.simps x(2) write_msr_def msr_index
    using out deliver_adv [OF assms, of pc] deliver_adv_msr [OF assms, of "?r\<lparr>PSR := psr_unpack ?v\<rparr>" pc]
      deliver_adv_msr [OF assms, of "?r\<lparr>EPSR := psr_unpack ?v\<rparr>" pc] deliver_adv_msr [OF assms, of "?r\<lparr>EPC := ?v\<rparr>" pc]
      deliver_adv_msr [OF assms, of "?r\<lparr>ELSA := ?v\<rparr>" pc] deliver_adv_msr [OF assms, of "?r\<lparr>EVECT := ?v\<rparr>" pc] p
    by (simp add: wmsr_def set_msr_def mach_of_msr_updates del: delivers_simps(1))
qed

lemma exec_Rmsr:
  assumes "bare cpu"
  shows "delivers cpu (exec_insn vt pc (decode (encode (Rmsr d s i))) cpu) (sem E (Rmsr d s i) (mach_of pc cpu))"
proof -
  let ?d = "decode (enc_imm15 0x24 d s i)" and ?m = "mach_of pc cpu"
  obtain x where x: "msr_operand ?d cpu = Inr x" "msr_number (m_reg ?m s) i = uint x" by (rule msr_operand_mach [OF assms])
  have e: "exec_insn vt pc (decode (encode (Rmsr d s i))) cpu = bnd (rmsr x cpu) (\<lambda>v. bnd (set_reg (ucast d) v cpu) (fetch_next pc))"
    using x(1) by (simp add: exec_insn_def alu_reg_def alu_imm_def branch_cc_def exec_RMSR_def decode_enc_simps)
  have r: "rmsr x cpu = Inr v" if "read_msr (uint x) ?m = Some v" for v
    using that unfolding read_msr_def msr_index by (simp add: rmsr_def split: if_splits)
  show ?thesis
    unfolding e sem.simps x(2) using r deliver_put [OF assms, of d] by (cases "read_msr (uint x) ?m") (simp_all del: delivers_simps(1))
qed

lemma exec_refines:
  assumes "bare cpu" and "E = env_of cpu"
  shows "delivers cpu (exec_insn vt pc (decode (encode i)) cpu) (sem E i (mach_of pc cpu))"
  using assms by (cases i; hypsubst)
    (rule exec_Alu exec_AluI exec_Mhi exec_Branch exec_Jmp exec_JmpI exec_JmpLnk exec_Load exec_Store exec_Barr exec_Syscall exec_Rete exec_Wmsr
      exec_Rmsr; simp)+

end
