(* ===== verification/CpuRefine.thy ===== *)
theory CpuRefine
  imports CpuExec
begin

text \<open>
  The interpreter of \<open>em/csrc/cpu.cc\<close> refines the abstract machine of \<open>IsaSpec\<close>: a step of \<open>CPU::run_step\<close> from a bare processor is the step of its machine, so that whole runs are
  runs of the specification. The contract of an implementation is the locale \<open>implements_isa\<close>. A loop is worked through as an example.
\<close>

section \<open>Steps and runs\<close>

text \<open>The timer and the devices change other registers than those of the machine.\<close>

definition same_arch :: "msr_s \<Rightarrow> msr_s \<Rightarrow> bool" where
  "same_arch m m' \<longleftrightarrow> PSR m = PSR m' \<and> EPSR m = EPSR m' \<and> EPC m = EPC m' \<and> ELSA m = ELSA m' \<and> EVECT m = EVECT m'"

text \<open>Fetching changes nothing but the trace of the last instructions.\<close>

lemma queue_bare: "bare cpu \<Longrightarrow> pcq_wf q \<Longrightarrow> bare (cpu\<lparr>pc_queue := q\<rparr>)" "mach_of pc (cpu\<lparr>pc_queue := q\<rparr>) = mach_of pc cpu"
  by (simp_all add: bare_def mach_of_def fun_eq_iff)

lemma delivers_frame: "env_of c = env_of cpu \<Longrightarrow> delivers c = delivers cpu"
  by (auto simp: delivers_def fun_eq_iff split: result.splits)

lemma pc_bare: "bare (cpu\<lparr>cpu_pc := n\<rparr>) = bare cpu" "mach_of pc (cpu\<lparr>cpu_pc := n\<rparr>) = mach_of pc cpu"
  "env_of (cpu\<lparr>cpu_pc := n\<rparr>) = env_of cpu"
  by (simp_all add: bare_def mach_of_def env_of_def fun_eq_iff)

lemma arch_bare:
  assumes "bare cpu" and "same_arch m (cpu_msr cpu)"
  shows "bare (cpu\<lparr>cpu_msr := m\<rparr>)" and "mach_of pc (cpu\<lparr>cpu_msr := m\<rparr>) = mach_of pc cpu"
  using assms by (simp_all add: bare_def same_arch_def mach_of_def fun_eq_iff)

lemma tick_bare:
  assumes "bare cpu"
  obtains m where "on_msr (tsc_clk (IRQ_TSC cpu)) cpu = Inr (cpu\<lparr>cpu_msr := m\<rparr>)" and "same_arch m (cpu_msr cpu)"
proof -
  let ?m = "cpu_msr cpu"
  obtain irr where "irqc_set_interrupt (IRQ_TSC cpu) (tcr_I (TCR ?m)) (?m\<lparr>TCR := (TCR ?m)\<lparr>tcr_P := True\<rparr>\<rparr>) =
      Inr (?m\<lparr>TCR := (TCR ?m)\<lparr>tcr_P := True\<rparr>, IRR := irr\<rparr>)"
    using assms irqc_set_interrupt_valid by (fastforce simp: bare_def)
  then have "\<exists>m. tsc_clk (IRQ_TSC cpu) ?m = Inr m \<and> same_arch m ?m" by (auto simp: tsc_clk_def tsc_update_tcr_def same_arch_def)
  then show thesis using that by (auto simp: on_msr_def)
qed

lemma bare_before_fetch:
  assumes "bare cpu"
  obtains m where "same_arch m (cpu_msr cpu)"
    and "cpu_step vt pc False cpu = bnd (fetch_insn vt pc True (cpu\<lparr>cpu_msr := m\<rparr>)) (\<lambda>(insn, cpu').
      bnd (pcq_push pc insn (pc_queue cpu')) (\<lambda>q.
      bnd (exec_insn vt pc (decode insn) (cpu'\<lparr>pc_queue := q\<rparr>)) (\<lambda>(npc, excp, cpu''). Inr (npc, \<lparr>ev_excp = excp, ev_insn = Some insn\<rparr>, cpu''))))"
proof -
  obtain m where m: "on_msr (tsc_clk (IRQ_TSC cpu)) cpu = Inr (cpu\<lparr>cpu_msr := m\<rparr>)" "same_arch m (cpu_msr cpu)"
    by (rule tick_bare [OF assms])
  have "irqc_handle_irqs m = 0" using assms m(2) by (simp add: bare_def bare_psr_def same_arch_def irqc_handle_irqs_def)
  moreover have "immu_translate_vma n seg m pc = Inr (0, Some pc, True)" for n seg
    using assms m(2) by (simp add: bare_def bare_psr_def same_arch_def immu_translate_vma_def)
  ultimately show thesis using m by (intro that [of m]) (simp_all add: cpu_step_def)
qed

lemma bare_fetches:
  assumes "bare cpu" and "4 dvd unat pc" and "dram_range (cpu_mem cpu) pc 4"
  obtains m q where "same_arch m (cpu_msr cpu)" and "pcq_wf q"
    and "cpu_step vt pc False cpu = bnd (exec_insn vt pc (decode (le32 (cell (cpu_mem cpu)) pc)) (cpu\<lparr>cpu_msr := m, pc_queue := q\<rparr>))
      (\<lambda>(npc, excp, cpu'). Inr (npc, \<lparr>ev_excp = excp, ev_insn = Some (le32 (cell (cpu_mem cpu)) pc)\<rparr>, cpu'))"
proof -
  let ?w = "le32 (cell (cpu_mem cpu)) pc"
  obtain m where m: "same_arch m (cpu_msr cpu)"
    "cpu_step vt pc False cpu = bnd (fetch_insn vt pc True (cpu\<lparr>cpu_msr := m\<rparr>)) (\<lambda>(insn, cpu').
      bnd (pcq_push pc insn (pc_queue cpu')) (\<lambda>q.
      bnd (exec_insn vt pc (decode insn) (cpu'\<lparr>pc_queue := q\<rparr>)) (\<lambda>(npc, excp, cpu''). Inr (npc, \<lparr>ev_excp = excp, ev_insn = Some insn\<rparr>, cpu''))))"
    by (rule bare_before_fetch [OF assms(1)])
  have w: "pcq_wf (pc_queue cpu)" "mem_wf (cpu_mem cpu)" using assms(1) by (simp_all add: bare_def)
  from w(1) obtain q where q: "pcq_push pc ?w (pc_queue cpu) = Inr q" "pcq_wf q" by (rule pcq_push_refines)
  have "fetch_insn vt pc True (cpu\<lparr>cpu_msr := m\<rparr>) = Inr (?w, cpu\<lparr>cpu_msr := m\<rparr>)"
    using assms(2,3) w(2) and3_mod [of pc]
    by (simp add: fetch_insn_def check_vma_align_def from_bus_def cpu_bus_def set_bus_def phy_readm32_dram le_at dvd_eq_mod_eq_0)
  then show thesis using q m by (intro that [of m q]) simp_all
qed

text \<open>The states that the simulation relates to machines: bare, with the environment \<open>E\<close>.\<close>

definition bare_on :: "isa_env \<Rightarrow> ('cb, 'dv) CPU \<Rightarrow> bool" where
  "bare_on E cpu \<longleftrightarrow> bare cpu \<and> env_of cpu = E"

definition mach :: "('cb, 'dv) CPU \<Rightarrow> mach" where
  "mach cpu = mach_of (cpu_pc cpu) cpu"

text \<open>What a step or a run of the emulator must deliver for a result of the specification.\<close>

definition matches :: "('s \<Rightarrow> bool) \<Rightarrow> ('s \<Rightarrow> mach) \<Rightarrow> halt + 's \<Rightarrow> result \<Rightarrow> bool" where
  "matches ok abst out r = (case r of
       Next m \<Rightarrow> \<exists>s'. out = Inr s' \<and> ok s' \<and> abst s' = m
     | Stop c \<Rightarrow> out = Inl (Panic c)
     | Undef \<Rightarrow> out = Inl Undefined
     | Leave \<Rightarrow> True)"

text \<open>A step delivers what the execution of the fetched word delivers from any state that the machine does not tell apart.\<close>

lemma step_delivers:
  assumes "bare cpu" and "4 dvd unat (cpu_pc cpu)" and "dram_range (cpu_mem cpu) (cpu_pc cpu) 4"
    and "\<And>c. bare c \<Longrightarrow> mach_of (cpu_pc cpu) c = mach cpu \<Longrightarrow> env_of c = env_of cpu \<Longrightarrow>
      delivers c (exec_insn vt (cpu_pc cpu) (decode (le32 (cell (cpu_mem cpu)) (cpu_pc cpu))) c) r"
    and "E = env_of cpu"
  shows "matches (bare_on E) mach (run_step vt cpu) r"
proof -
  let ?pc = "cpu_pc cpu" and ?w = "le32 (cell (cpu_mem cpu)) (cpu_pc cpu)"
  from bare_fetches [OF assms(1-3), of vt] obtain m q where
    q: "same_arch m (cpu_msr cpu)" "pcq_wf q" "cpu_step vt ?pc False cpu =
      bnd (exec_insn vt ?pc (decode ?w) (cpu\<lparr>cpu_msr := m, pc_queue := q\<rparr>))
      (\<lambda>(npc, excp, cpu'). Inr (npc, \<lparr>ev_excp = excp, ev_insn = Some ?w\<rparr>, cpu'))" .
  let ?c = "cpu\<lparr>cpu_msr := m, pc_queue := q\<rparr>"
  have "bare ?c" "mach_of ?pc ?c = mach cpu"
    using queue_bare(1) [of "cpu\<lparr>cpu_msr := m\<rparr>" q] arch_bare [OF assms(1) q(1)] q(2) by (simp_all add: queue_bare(2) mach_def)
  moreover have "env_of ?c = env_of cpu" by (simp add: env_of_def)
  ultimately have out: "delivers cpu (exec_insn vt ?pc (decode ?w) ?c) r" using assms(4) [of ?c] delivers_frame [of ?c cpu] by simp
  show ?thesis
  proof (cases r)
    case (Next m')
    then obtain npc excp cpu' where "exec_insn vt ?pc (decode ?w) ?c = Inr (npc, excp, cpu')" "mach_of npc cpu' = m'"
      "bare cpu'" "env_of cpu' = env_of cpu" using out by auto
    then show ?thesis
      using q(3) assms(5) Next by (simp add: matches_def run_step_def bare_on_def mach_def pc_bare del: bnd_eq_Inr)
  qed (use q(3) out in \<open>simp_all add: matches_def run_step_def del: bnd_eq_Inr\<close>)
qed

lemma run_step_refines:
  fixes cpu :: "('a, 'b) CPU"
  assumes "bare_on E cpu" and "isa_step E (mach cpu) r"
  shows "matches (bare_on E) mach (run_step vt cpu) r"
proof -
  have b: "bare cpu" and d: "E = env_of cpu" using assms(1) by (simp_all add: bare_on_def)
  from assms(2) show ?thesis
  proof cases
    case misaligned
    have "cpu_pc cpu AND 3 \<noteq> 0" using misaligned and3_mod [of "cpu_pc cpu"] by (simp add: mach_def dvd_eq_mod_eq_0)
    then have "fetch_insn vt (cpu_pc cpu) True c = Inl (Panic 1)" for c by (simp add: fetch_insn_def check_vma_align_def)
    then have "cpu_step vt (cpu_pc cpu) False cpu = Inl (Panic 1)"
      using bare_before_fetch [OF b, of vt "cpu_pc cpu"] by (metis bnd_simps(1))
    then show ?thesis using misaligned by (simp add: run_step_def matches_def)
  next
    case illegal
    have w: "4 dvd unat (cpu_pc cpu)" "dram_range (cpu_mem cpu) (cpu_pc cpu) 4"
      using illegal b by (simp_all add: mach_def d env_of_def ram_dram)
    show ?thesis
    proof (rule step_delivers [OF b w])
      fix c :: "('a, 'b) CPU" assume c: "bare c" "mach_of (cpu_pc cpu) c = mach cpu" "env_of c = env_of cpu"
      have "vect_EINSN c = e_insn E" using arg_cong [OF c(3), of e_insn] d by (simp add: env_of_def)
      then show "delivers c (exec_insn vt (cpu_pc cpu) (decode (le32 (cell (cpu_mem cpu)) (cpu_pc cpu))) c) r"
        using exec_illegal [OF c(1), of "le32 (cell (cpu_mem cpu)) (cpu_pc cpu)" vt "cpu_pc cpu"] illegal c(2)
        by (simp add: mach_def del: delivers_simps(1))
    qed (simp add: d)
  next
    case (execute i)
    have w: "4 dvd unat (cpu_pc cpu)" "dram_range (cpu_mem cpu) (cpu_pc cpu) 4"
      using execute b by (simp_all add: mach_def d env_of_def ram_dram)
    show ?thesis
    proof (rule step_delivers [OF b w])
      fix c :: "('a, 'b) CPU" assume c: "bare c" "mach_of (cpu_pc cpu) c = mach cpu" "env_of c = env_of cpu"
      show "delivers c (exec_insn vt (cpu_pc cpu) (decode (le32 (cell (cpu_mem cpu)) (cpu_pc cpu))) c) r"
        using exec_refines [OF c(1) refl, of vt "cpu_pc cpu" i] execute c(2,3) by (simp add: d mach_def)
    qed (simp add: d)
  qed
qed

text \<open>Runs of the specification: \<open>n\<close> steps, or fewer when the program ends.\<close>

inductive isa_run :: "isa_env \<Rightarrow> nat \<Rightarrow> mach \<Rightarrow> result \<Rightarrow> bool" for E where
  start: "isa_run E 0 m (Next m)"
| step: "isa_step E m (Next m') \<Longrightarrow> isa_run E n m' r \<Longrightarrow> isa_run E (Suc n) m r"
| ends: "isa_step E m r \<Longrightarrow> r = Stop c \<or> r = Undef \<Longrightarrow> isa_run E (Suc n) m r"

text \<open>
  Contract of an implementation of the specification: a step from a state with the invariant matches the step of its abstraction. Runs then match runs.
\<close>

locale implements_isa =
  fixes E :: isa_env and stp :: "'s \<Rightarrow> halt + 's" and inv :: "'s \<Rightarrow> bool" and abst :: "'s \<Rightarrow> mach"
  assumes simulates: "inv s \<Longrightarrow> isa_step E (abst s) r \<Longrightarrow> matches inv abst (stp s) r"
begin

lemma run_matches: "isa_run E n m r \<Longrightarrow> inv s \<Longrightarrow> abst s = m \<Longrightarrow> matches inv abst (iterE stp n s) r"
proof (induction arbitrary: s rule: isa_run.induct)
  case (start m)
  then show ?case by (simp add: matches_def)
next
  case (step m m' n r)
  from simulates [of s "Next m'"] step.hyps(1) step.prems obtain s' where "stp s = Inr s'" "inv s'" "abst s' = m'"
    by (auto simp: matches_def)
  then show ?case using step.IH by simp
next
  case (ends m r c n)
  from simulates [of s r] ends show ?case by (auto simp: matches_def)
qed

end

interpretation emu: implements_isa E "run_step vt" "bare_on E" mach for E vt
  by unfold_locales (rule run_step_refines)

text \<open>
  Claim C2: the interpreter implements the instruction set. Take a processor as reset leaves it (interrupts, translation and caches off, the timer in any state)
  with any memory and registers, and any run of the abstract machine from the same program counter, registers and memory.
  The emulator's run of as many steps ends as the specification says: in a processor whose program counter, registers, exception registers
  and memory are those of the final machine and which is again as required at the start, or with the exit code of the program (the two trap system calls, a
  misaligned access or program counter), or in undefined behaviour exactly at an instruction whose
  result the integer specification leaves undefined. The specification covers arithmetic, immediate, branch, jump, load, store and barrier
  instructions, system calls and unknown instructions with the exceptions they raise, the return from an exception, and the registers of exception handling.
\<close>

theorem runs_implement_isa:
  assumes "bare cpu" and "isa_run (env_of cpu) n (mach cpu) r"
  shows "case r of
      Next m \<Rightarrow> \<exists>cpu'. iterE (run_step vt) n cpu = Inr cpu' \<and> mach cpu' = m \<and> bare cpu'
    | Stop c \<Rightarrow> iterE (run_step vt) n cpu = Inl (Panic c)
    | Undef \<Rightarrow> iterE (run_step vt) n cpu = Inl Undefined
    | Leave \<Rightarrow> True"
proof -
  have "bare_on (env_of cpu) cpu" using assms(1) by (simp add: bare_on_def)
  then have "matches (bare_on (env_of cpu)) mach (iterE (run_step vt) n cpu) r"
    by (rule emu.run_matches [OF assms(2) _ refl])
  then show ?thesis by (auto simp: matches_def bare_on_def split: result.splits)
qed

subsection \<open>A program\<close>

text \<open>
  A loop that counts register 2 down to zero and then ends with the trap of a successful test: \<open>add r2, r2, -1; bne r2, r0, -4; syscall 0x90d\<close>. At the level of the
  specification it ends after \<open>2 * k + 1\<close> steps for every \<open>k > 0\<close> in register 2.
\<close>

definition countdown :: "vm_addr_t \<Rightarrow> isa_env \<Rightarrow> mach \<Rightarrow> bool" where
  "countdown a E m \<longleftrightarrow> 4 dvd unat a \<and> 4 dvd unat (a + 4) \<and> 4 dvd unat (a + 8) \<and>
     ram_range (e_ram E) a 4 \<and> ram_range (e_ram E) (a + 4) 4 \<and> ram_range (e_ram E) (a + 8) 4 \<and>
     le32 (m_mem m) a = encode (AluI ADD_I 2 2 (-1)) \<and> le32 (m_mem m) (a + 4) = encode (Branch BNE 2 0 (-1)) \<and>
     le32 (m_mem m) (a + 8) = encode (Syscall 0x90d) \<and> m_reg m 0 = 0"

lemma countdown_frame: "countdown a E m \<Longrightarrow> d \<noteq> 0 \<Longrightarrow> countdown a E (goto b (put d v m))"
  by (simp add: countdown_def goto_def put_def)

lemma countdown_iteration:
  assumes "countdown a E m" and "m_pc m = a" and "m_reg m 2 = v"
  defines "m1 \<equiv> goto (a + 4) (put 2 (v - 1) m)"
  shows "isa_step E m (Next m1)" and "isa_step E m1 (Next (goto (if v = 1 then a + 8 else a) m1))"
proof -
  have "sem E (AluI ADD_I 2 2 (-1)) m = Next m1"
    by (simp add: alu_spec_def imm_operand_def assms adv_def put_goto put_def)
  then show "isa_step E m (Next m1)"
    using assms execute [of m E "AluI ADD_I 2 2 (-1)"] by (simp add: countdown_def)
  have "uint (v - 1) = 0 \<longleftrightarrow> v = 1" by (simp add: uint_0_iff)
  then have "sem E (Branch BNE 2 0 (-1)) m1 = Next (goto (if v = 1 then a + 8 else a) m1)"
    using assms(1) by (simp add: m1_def goto_def put_def adv_def countdown_def)
  then show "isa_step E m1 (Next (goto (if v = 1 then a + 8 else a) m1))"
    using assms execute [of m1 E "Branch BNE 2 0 (-1)"] by (simp add: countdown_def m1_def goto_def put_def)
qed

lemma countdown_ends:
  assumes "countdown a E m" and "m_pc m = a" and "unat (m_reg m 2) = Suc k"
  shows "isa_run E (2 * k + 3) m (Stop 0)"
  using assms
proof (induction k arbitrary: m)
  case 0
  define m1 where "m1 = goto (a + 4) (put 2 (m_reg m 2 - 1) m)"
  have v: "m_reg m 2 = 1" using 0 by (simp add: word_unat_eq_iff)
  note s = countdown_iteration [OF 0(1,2) refl, folded m1_def]
  have "countdown a E (goto (a + 8) m1)" using countdown_frame [OF 0(1)] by (simp add: m1_def goto_def)
  then have "isa_step E (goto (a + 8) m1) (Stop 0)"
    using execute [of "goto (a + 8) m1" E "Syscall 0x90d"] by (simp add: countdown_def goto_def)
  then have "isa_run E (Suc 0) (goto (a + 8) m1) (Stop 0)" by (rule isa_run.ends) simp
  with s show ?case by (auto simp: v eval_nat_numeral intro: isa_run.step)
next
  case (Suc k)
  define m1 where "m1 = goto (a + 4) (put 2 (m_reg m 2 - 1) m)"
  have v: "m_reg m 2 \<noteq> 1" using Suc by auto
  note s = countdown_iteration [OF Suc(2,3) refl, folded m1_def]
  have "countdown a E (goto a m1)" using countdown_frame [OF Suc(2)] by (simp add: m1_def goto_def)
  moreover have "unat (m_reg m 2 - 1) = Suc k" using Suc(4) by (simp add: unat_sub word_le_nat_alt)
  ultimately have "isa_run E (2 * k + 3) (goto a m1) (Stop 0)"
    by (intro Suc.IH) (simp_all add: m1_def goto_def put_def)
  then have "isa_run E (Suc (Suc (2 * k + 3))) m (Stop 0)"
    by (rule isa_run.step [OF s(1) isa_run.step [OF s(2) [unfolded if_not_P [OF v]]]])
  then show ?case by simp
qed

text \<open>The loop at the start of the memory of the small machine, with 1000 in register 2.\<close>

definition small_code :: "u32 \<Rightarrow> u32 \<Rightarrow> u32 \<Rightarrow> unit Memory" where
  "small_code w0 w1 w2 = small_mem\<lparr>memory := store_bytes STW w0 @ store_bytes STW w1 @ store_bytes STW w2 @ replicate 4 0\<rparr>"

definition small_loop :: "(unit, unit) CPU" where
  "small_loop = small_cpu\<lparr>
     cpu_mem := small_code (encode (AluI ADD_I 2 2 (-1))) (encode (Branch BNE 2 0 (-1))) (encode (Syscall 0x90d)),
     regfile := (replicate 32 0)[2 := 1000]\<rparr>"

lemma small_code_words:
  "le32 (cell (small_code w0 w1 w2)) 0x80000000 = w0" "le32 (cell (small_code w0 w1 w2)) 0x80000004 = w1"
  "le32 (cell (small_code w0 w1 w2)) 0x80000008 = w2"
  by (simp_all add: small_code_def small_mem_def le32_def cell_def bytes_word32 del: One_nat_def)

lemma small_code_ready:
  "mem_wf (small_code w0 w1 w2)" "ram_range (dram_at (small_code w0 w1 w2)) 0x80000000 4"
  "ram_range (dram_at (small_code w0 w1 w2)) 0x80000004 4" "ram_range (dram_at (small_code w0 w1 w2)) 0x80000008 4"
  by (simp_all add: small_code_def small_mem_def mem_wf_def ram_range_def all_less dram_at_def in_dram_def in_mmio_def)

lemma small_loop_bare: "bare small_loop"
  using small_code_ready(1) by (simp add: small_loop_def bare_def bare_psr_def msr_zero_def psr_reset_def)
    (simp add: small_cpu_def pcq_wf_new ras_wf_new)

lemma small_loop_countdown: "countdown 0x80000000 (env_of small_loop) (mach small_loop)"
  using small_code_words small_code_ready by (simp add: countdown_def mach_def mach_of_def env_of_def small_loop_def)

theorem runs_implement_isa_witness:
  "bare small_loop \<and> isa_run (env_of small_loop) 2001 (mach small_loop) (Stop 0) \<and>
   iterE (run_step undefined) 2001 small_loop = Inl (Panic 0)"
proof -
  have "m_pc (mach small_loop) = 0x80000000" "m_reg (mach small_loop) 2 = 1000"
    by (simp_all add: mach_def mach_of_def small_loop_def) (simp add: small_cpu_def)
  then have "isa_run (env_of small_loop) 2001 (mach small_loop) (Stop 0)"
    using countdown_ends [OF small_loop_countdown, of 999] by simp
  then show ?thesis using small_loop_bare runs_implement_isa [OF small_loop_bare, of 2001 "Stop 0" undefined] by simp
qed


end
