(* ===== verification/EmuProgram.thy ===== *)
theory EmuProgram
  imports EmuMain CpuRefine
begin

text \<open>
  From the command line to the exit code: the standalone mode of \<open>em/csrc/main.cc\<close> runs a binary as the instruction set defines it. The iterations of its loop, with
  the timer and the serial port clocked beside the interpreter, are a second implementation of the specification of \<open>IsaSpec\<close>; construction
  puts the binary where the abstract machine expects it.
\<close>

section \<open>The loop implements the instruction set\<close>

definition standalone_step :: "u64 \<Rightarrow> u64 \<times> (dev_cb, DeviceTree) CPU \<Rightarrow> halt + u64 \<times> (dev_cb, DeviceTree) CPU" where
  "standalone_step dv s = bnd (standalone_iter dv s) (\<lambda>(fin, s'). Inr s')"

text \<open>A machine that is well-formed with its devices, and bare.\<close>

definition bare_machine ::
  "isa_env \<Rightarrow> phy_addr_t \<Rightarrow> nat \<Rightarrow> nat \<Rightarrow> int \<Rightarrow> u64 \<times> (dev_cb, DeviceTree) CPU \<Rightarrow> bool" where
  "bare_machine E base ki kd tsc = (\<lambda>(clk, cpu). machine_ok base ki kd tsc cpu \<and> bare_on E cpu \<and> tsc \<noteq> 1)"

lemma device_step_arch: "DeviceTree_step (m, dt) = Inr (m', dt') \<Longrightarrow> same_arch m' m"
  by (auto simp: same_arch_def DeviceTree_step_def on_uart_def pb_uart_step_def uart_set_irq_def irqc_set_interrupt_def Let_def
      split: prod.splits option.splits if_splits)

text \<open>Clocking the devices is invisible to the program: it may request an interrupt, which is not taken.\<close>

lemma device_phase_bare:
  assumes "device_phase cpu cpu'" and "bare_on E cpu"
  shows "bare_on E cpu' \<and> mach cpu' = mach cpu"
proof (cases "cpu' = cpu")
  case False
  then obtain m dt where d: "DeviceTree_step (cpu_msr cpu, cpu_dev cpu) = Inr (m, dt)" "cpu' = cpu\<lparr>cpu_msr := m, cpu_dev := dt\<rparr>"
    using assms(1) by (auto simp: device_phase_def emu_dev_step_def)
  then show ?thesis
    using device_step_arch [OF d(1)] assms(2) by (simp add: bare_on_def bare_def same_arch_def env_of_def mach_def mach_of_def fun_eq_iff)
qed (use assms(2) in simp)

lemma standalone_device_phase:
  assumes "machine_ok base ki kd tsc cpu"
  obtains clk' cpu' where "device_phase cpu cpu'"
    and "standalone_iter dv (clk, cpu) = bnd (run_step dev_vt cpu') (\<lambda>cpu''. Inr (False, clk', cpu''))"
proof (cases "clk + 1 = dv")
  case True
  obtain cpu' where "emu_dev_step cpu = Inr cpu'" using emu_dev_step_ok [OF assms] by blast
  then show thesis using True by (intro that [of cpu' 0]) (simp_all add: device_phase_def standalone_iter_def)
next
  case False
  then show thesis by (intro that [of cpu "clk + 1"]) (simp_all add: device_phase_def standalone_iter_def)
qed

lemma standalone_refines:
  assumes "bare_machine E base ki kd tsc (clk, cpu)" and "isa_step E (mach cpu) r"
  shows "matches (bare_machine E base ki kd tsc) (mach \<circ> snd) (standalone_step dv (clk, cpu)) r"
proof -
  have ok: "machine_ok base ki kd tsc cpu" "bare_on E cpu" "tsc \<noteq> 1" using assms(1) by (simp_all add: bare_machine_def)
  then have tsc: "0 \<le> tsc" "tsc < 32" by (auto simp: cpu_inv_def bare_on_def bare_def)
  obtain clk' cpu' where d: "device_phase cpu cpu'"
    "standalone_iter dv (clk, cpu) = bnd (run_step dev_vt cpu') (\<lambda>cpu''. Inr (False, clk', cpu''))"
    by (rule standalone_device_phase [OF ok(1)])
  have m: "matches (bare_on E) mach (run_step dev_vt cpu') r"
    using device_phase_bare [OF d(1) ok(2)] assms(2) by (intro run_step_refines) auto
  show ?thesis
  proof (cases r)
    case (Next m')
    then obtain cpu'' where c: "run_step dev_vt cpu' = Inr cpu''" "bare_on E cpu''" "mach cpu'' = m'"
      using m by (auto simp: matches_def)
    then have i: "standalone_iter dv (clk, cpu) = Inr (False, clk', cpu'')" using d(2) by simp
    then have "machine_ok base ki kd tsc cpu''"
      using standalone_iter_safe [OF ok(1) tsc ok(3), of dv clk] by (simp add: safeU_def)
    then show ?thesis using i c(2,3) ok(3) Next by (simp add: matches_def standalone_step_def bare_machine_def)
  qed (use m d(2) in \<open>simp_all add: matches_def standalone_step_def\<close>)
qed

interpretation alone: implements_isa E "standalone_step dv" "bare_machine E base ki kd tsc" "mach \<circ> snd" for E dv base ki kd tsc
proof unfold_locales
  fix s r assume "bare_machine E base ki kd tsc s" "isa_step E ((mach \<circ> snd) s) r"
  then show "matches (bare_machine E base ki kd tsc) (mach \<circ> snd) (standalone_step dv s) r"
    using standalone_refines [of E base ki kd tsc "fst s" "snd s" r dv] by simp
qed

lemma main_loop_stops:
  "iterE (standalone_step dv) n s = Inl e \<Longrightarrow> main_loop (standalone_iter dv) s = Some (Inl e)"
proof (induction n arbitrary: s)
  case (Suc n)
  show ?case
  proof (cases "standalone_iter dv s")
    case (Inl e')
    then show ?thesis using Suc.prems by (simp add: main_loop.simps [of _ s] standalone_step_def)
  next
    case (Inr x)
    then have "\<not> fst x" by (auto simp: standalone_iter_def Let_def split: prod.splits)
    then show ?thesis
      using Inr Suc by (cases x) (simp add: main_loop.simps [of _ s] standalone_step_def)
  qed
qed simp

section \<open>From the command line to the exit code\<close>

definition args_env :: "Args \<Rightarrow> isa_env" where
  "args_env args = \<lparr>e_ram = args_ram args, e_syscall = ar_vect_ESYSCALL args, e_insn = ar_vect_EINSN args\<rparr>"

text \<open>No option changes the exception vectors, and construction hands them to the processor.\<close>

definition args_vectors :: "Args \<Rightarrow> vm_addr_t list" where
  "args_vectors args = [ar_vect_ESYSCALL args, ar_vect_EITM args, ar_vect_EIPF args, ar_vect_EINSN args, ar_vect_EDTM args, ar_vect_EDPF args, ar_vect_EALIGN args]"

lemma parse_args_vectors: "parse_args gs a = Inr (Some b) \<Longrightarrow> args_vectors b = args_vectors a"
proof (induction gs arbitrary: a)
  case Nil
  then show ?case by (simp split: if_splits)
next
  case (Cons g gs)
  then obtain r where "(case g of GLong i optarg \<Rightarrow> parse_long i optarg a | GChar c optarg \<Rightarrow> parse_char c optarg a) = Inr (Some r)" "parse_args gs r = Inr (Some b)"
    by (auto split: option.splits)
  moreover from this(1) have "args_vectors r = args_vectors a"
    by (cases g) (auto simp: parse_long_def parse_char_def set_opt_def args_vectors_def split: if_splits)
  ultimately show ?case using Cons.IH by metis
qed

definition cpu_vectors :: "('cb, 'dv) CPU \<Rightarrow> vm_addr_t list" where
  "cpu_vectors cpu = [vect_ESYSCALL cpu, vect_EITM cpu, vect_EIPF cpu, vect_EINSN cpu, vect_EDTM cpu, vect_EDPF cpu, vect_EALIGN cpu]"

lemma main_boot_vectors:
  assumes "main_boot fr fi v dev0 args = Inr (Inr cpu)"
  shows "cpu_vectors cpu = args_vectors args" and "EVECT (cpu_msr cpu) = 0"
proof -
  from assms obtain c where c: "main_CPU fr dev0 args = Inr c" "cpu_vectors cpu = cpu_vectors c" "EVECT (cpu_msr cpu) = 0"
    by (auto simp: main_boot_def Let_def cpu_reset_def msr_reset_def cpu_vectors_def split: if_splits)
  have "cpu_vectors c = args_vectors args"
    using c(1) by (auto simp: main_CPU_def CPU_new_def args_vectors_def cpu_vectors_def split: if_splits)
  then show "cpu_vectors cpu = args_vectors args" "EVECT (cpu_msr cpu) = 0" using c by simp_all
qed

text \<open>
  The abstract machine at the start of a program: root mode, registers and exception base cleared, the binary at its load address; the rest of the memory and the saved
  registers are arbitrary.
\<close>

definition started :: "Args \<Rightarrow> u8 list \<Rightarrow> mach \<Rightarrow> bool" where
  "started args bin m \<longleftrightarrow> m_pc m = ar_pc_rst args \<and> m_reg m = (\<lambda>r. 0) \<and> m_psr m = psr_reset \<and> m_evect m = 0 \<and>
     (\<forall>k < length bin. m_mem m (ar_bin_load_addr args + of_nat k) = bin ! k)"

lemma boot_started:
  assumes "options_ok fr args ki kd pi li pd ld" and "files_ok fi args bin" and "0 \<le> ar_IRQ_TSC args" and "ar_IRQ_TSC args < 32"
    and "ar_IRQ_TSC args \<noteq> 1" and "unat (ar_bin_load_addr args) + length bin \<le> 2 ^ 32"
    and "ar_vect_ESYSCALL args \<notin> set (tl (args_vectors args))"
  obtains cpu where "main_boot fr fi v dev0 args = Inr (Inr cpu)"
    and "bare_machine (args_env args) (ar_mmio_phy_base args) ki kd (ar_IRQ_TSC args) (0, cpu)" and "started args bin (mach cpu)"
proof -
  let ?a = "ar_bin_load_addr args" and ?d = "ar_dram_phy_base args"
  obtain cpu where c: "main_boot fr fi v dev0 args = Inr (Inr cpu)" "machine_ok (ar_mmio_phy_base args) ki kd (ar_IRQ_TSC args) cpu"
    "cpu_pc cpu = ar_pc_rst args" "\<forall>k < length bin. memory (cpu_mem cpu) ! (unat (?a - ?d) + k) = bin ! k"
    "regfile cpu = replicate 32 0" "PSR (cpu_msr cpu) = psr_reset" "dram_phy_start (cpu_mem cpu) = ?d" "dram_at (cpu_mem cpu) = args_ram args"
    using main_boot_ok [OF assms(1,2), of v dev0] by blast
  note vec = main_boot_vectors [OF c(1)]
  have "bare cpu"
    using c(2,6) vec(1) assms(3,4,7) by (auto simp: bare_def bare_psr_def psr_reset_def args_vectors_def cpu_vectors_def cpu_inv_def cpu_bus_def bus_inv_def)
  moreover have "env_of cpu = args_env args" using vec(1) c(8) by (simp add: env_of_def args_env_def args_vectors_def cpu_vectors_def)
  moreover have "cell (cpu_mem cpu) (?a + of_nat k) = bin ! k" if "k < length bin" for k
  proof -
    have le: "?d \<le> ?a" using assms(2) by (simp add: files_ok_def)
    have k: "unat (of_nat k :: u32) = k" "unat ?a + k < 2 ^ 32" using that assms(6) by (simp_all add: unat_of_nat)
    have "unat (?a - ?d + of_nat k) = unat (?a - ?d) + k"
      using k le by (simp add: unat_word_ariths(1) unat_sub)
    then have "unat (?a + of_nat k - ?d) = unat (?a - ?d) + k" by (simp add: algebra_simps)
    then show ?thesis using c(4) that by (simp add: cell_def c(7))
  qed
  moreover have "m_reg (mach cpu) = (\<lambda>r. 0)" by (simp add: mach_def mach_of_def c(5) regno_16(4) fun_eq_iff)
  ultimately show thesis
    using c vec(2) assms(5) by (intro that [of cpu]) (simp_all add: bare_machine_def bare_on_def started_def mach_def)
qed

text \<open>
  Claim C1: the emulator exits with the code of the program it runs. Given consistent options that select the standalone mode and files that exist, suppose that according to the instruction set the
  binary, placed at its load address in a memory that is otherwise arbitrary and started at the reset address with cleared registers, ends with exit
  code \<open>c\<close>. Then the process, from parsing its arguments through construction of the machine and the loop that clocks processor, timer and serial port, ends with exit code \<open>c\<close>.
\<close>

theorem program_exit_code:
  assumes "parse_args (getopt_long abbrev (tl argv)) Args_new = Inr (Some args)" and "ar_mode args = ModeStandalone"
    and "options_ok fr args ki kd pi li pd ld" and "files_ok fi args bin" and "unat (ar_bin_load_addr args) + length bin \<le> 2 ^ 32"
    and "0 \<le> ar_IRQ_TSC args" and "ar_IRQ_TSC args < 32" and "ar_IRQ_TSC args \<noteq> 1"
    and "\<forall>m. started args bin m \<longrightarrow> (\<exists>n. isa_run (args_env args) n m (Stop c))"
  shows "emu_program abbrev V D raw v0 ds fr fi v dev0 argv = Some (Inl (Panic c))"
proof -
  obtain cpu where cpu: "main_boot fr fi v dev0 args = Inr (Inr cpu)"
    "bare_machine (args_env args) (ar_mmio_phy_base args) ki kd (ar_IRQ_TSC args) (0, cpu)" "started args bin (mach cpu)"
  proof (rule boot_started [OF assms(3,4,6,7,8,5)])
    show "ar_vect_ESYSCALL args \<notin> set (tl (args_vectors args))"
      using parse_args_vectors [OF assms(1)] by (auto simp: args_vectors_def Args_new_def)
  qed
  from assms(9) cpu(3) obtain n where "isa_run (args_env args) n (mach cpu) (Stop c)" by blast
  from alone.run_matches [OF this cpu(2), of "ar_device_clk_div args"]
  have "iterE (standalone_step (ar_device_clk_div args)) n (0, cpu) = Inl (Panic c)" by (simp add: matches_def)
  then have "main_loop (standalone_iter (ar_device_clk_div args)) (0, cpu) = Some (Inl (Panic c))" by (rule main_loop_stops)
  then show ?thesis by (simp add: emu_program_def emu_main_def assms(1,2) cpu(1) loop_result_def)
qed

text \<open>
  The countdown loop as a binary for the small machine: \<open>add r2, r0, 1000\<close> and the three instructions of the loop, on a command line that selects the standalone mode.
\<close>

definition loop_code :: "instr list" where
  "loop_code = [AluI ADD_I 2 0 1000, AluI ADD_I 2 2 (-1), Branch BNE 2 0 (-1), Syscall 0x90d]"

definition loop_bin :: "u8 list" where
  "loop_bin = concat (map (\<lambda>i. store_bytes STW (encode i)) loop_code)"

definition loop_files :: files where
  "loop_files = small_files\<lparr>fi_open := [''a.bin'' \<mapsto> loop_bin, ''f.img'' \<mapsto> [5, 6]]\<rparr>"

definition loop_argv :: "string list" where
  "loop_argv = [''emu'', ''--mode=standalone'', ''-b'', ''a.bin'', ''--ram-size'', ''4096'', ''--dmmu-tlb-count=1'', ''--immu-tlb-count=1'',
     ''--icache-p-ways=0'', ''--icache-p-sets=0'', ''--icache-p-line=2'', ''--dcache-p-ways=0'', ''--dcache-p-sets=0'', ''--dcache-p-line=2'',
     ''--flash-image-file=f.img'']"

lemma loop_argv_options:
  "getopt_long abbrev (tl loop_argv) = [GLong 0 ''standalone'', GChar (CHR ''b'') ''a.bin'', GLong 1 ''4096'', GLong 2 ''1'', GLong 3 ''1'',
     GLong 5 ''0'', GLong 6 ''0'', GLong 7 ''2'', GLong 8 ''0'', GLong 9 ''0'', GLong 10 ''2'', GLong 22 ''f.img'']"
proof -
  have "find_long abbrev ''mode'' = Some 0" "find_long abbrev ''ram-size'' = Some 1" "find_long abbrev ''dmmu-tlb-count'' = Some 2"
    "find_long abbrev ''immu-tlb-count'' = Some 3" "find_long abbrev ''icache-p-ways'' = Some 5" "find_long abbrev ''icache-p-sets'' = Some 6"
    "find_long abbrev ''icache-p-line'' = Some 7" "find_long abbrev ''dcache-p-ways'' = Some 8" "find_long abbrev ''dcache-p-sets'' = Some 9"
    "find_long abbrev ''dcache-p-line'' = Some 10" "find_long abbrev ''flash-image-file'' = Some 22"
    using find_long_name [of 0] find_long_name [of 1] find_long_name [of 2] find_long_name [of 3] find_long_name [of 5] find_long_name [of 6]
      find_long_name [of 7] find_long_name [of 8] find_long_name [of 9] find_long_name [of 10] find_long_name [of 22]
    by (simp_all add: long_options_def)
  moreover have "short_option (CHR ''b'')" by (auto simp: short_option_def optstirng_def intro!: exI [of _ 1])
  ultimately show ?thesis by (simp add: loop_argv_def Let_def) (simp add: long_result_def long_options_def)
qed

lemma loop_argv_parse: "parse_args (getopt_long abbrev (tl loop_argv)) Args_new = Inr (Some small_args)"
  by (simp add: loop_argv_options parse_long_def parse_char_def set_opt_def parse_mode_def ato_def split_sign_def is_space_def is_digit_def
      digit_val_def num_of_def small_args_def Args_new_def)

lemma loop_bin_length: "length loop_bin = 16"
  by (simp add: loop_bin_def loop_code_def)

lemma loop_files_ok: "files_ok loop_files small_args loop_bin"
  by (simp add: files_ok_def loop_files_def small_files_def small_args_def Args_new_def loop_bin_length)

lemma loop_words:
  assumes "\<forall>k < length loop_bin. f (0x80000000 + of_nat k) = loop_bin ! k"
  shows "le32 f 0x80000000 = encode (AluI ADD_I 2 0 1000)" "le32 f 0x80000004 = encode (AluI ADD_I 2 2 (-1))"
    "le32 f 0x80000008 = encode (Branch BNE 2 0 (-1))" "le32 f 0x8000000c = encode (Syscall 0x90d)"
proof -
  have f: "f (0x80000000 + of_nat k) = loop_bin ! k" if "k < 16" for k using assms that by (simp add: loop_bin_length)
  have b: "loop_bin = store_bytes STW (encode (AluI ADD_I 2 0 1000)) @ store_bytes STW (encode (AluI ADD_I 2 2 (-1))) @
      store_bytes STW (encode (Branch BNE 2 0 (-1))) @ store_bytes STW (encode (Syscall 0x90d))"
    by (simp add: loop_bin_def loop_code_def)
  show "le32 f 0x80000000 = encode (AluI ADD_I 2 0 1000)"
    using f [of 0] f [of 1] f [of 2] f [of 3] unfolding b by (simp add: le32_def bytes_word32 del: encode.simps One_nat_def)
  show "le32 f 0x80000004 = encode (AluI ADD_I 2 2 (-1))"
    using f [of 4] f [of 5] f [of 6] f [of 7] unfolding b by (simp add: le32_def bytes_word32 del: encode.simps One_nat_def)
  show "le32 f 0x80000008 = encode (Branch BNE 2 0 (-1))"
    using f [of 8] f [of 9] f [of 10] f [of 11] unfolding b by (simp add: le32_def bytes_word32 del: encode.simps One_nat_def)
  show "le32 f 0x8000000c = encode (Syscall 0x90d)"
    using f [of 12] f [of 13] f [of 14] f [of 15] unfolding b by (simp add: le32_def bytes_word32 del: encode.simps One_nat_def)
qed

lemma small_args_ram:
  "ram_range (args_ram small_args) 0x80000000 4" "ram_range (args_ram small_args) 0x80000004 4"
  "ram_range (args_ram small_args) 0x80000008 4" "ram_range (args_ram small_args) 0x8000000c 4"
  by (simp_all add: ram_range_def args_ram_def small_args_def Args_new_def all_less)

lemma loop_ends:
  assumes "started small_args loop_bin m"
  shows "\<exists>n. isa_run (args_env small_args) n m (Stop 0)"
proof -
  let ?E = "args_env small_args" and ?m = "goto 0x80000004 (put 2 1000 m)"
  have s: "m_pc m = 0x80000000" "m_reg m = (\<lambda>r. 0)" "\<forall>k < length loop_bin. m_mem m (0x80000000 + of_nat k) = loop_bin ! k"
    using assms by (simp_all add: started_def small_args_def Args_new_def)
  note w = loop_words [OF s(3)]
  have "sem ?E (AluI ADD_I 2 0 1000) m = Next ?m"
    by (simp add: s(1,2) alu_spec_def imm_operand_def adv_def put_def)
  then have 1: "isa_step ?E m (Next ?m)"
    using execute [of m ?E "AluI ADD_I 2 0 1000"] small_args_ram(1) w(1) by (simp add: s(1) args_env_def)
  have "countdown 0x80000004 ?E ?m"
    using small_args_ram w s(2) by (simp add: countdown_def goto_def put_def args_env_def)
  then have "isa_run ?E (2 * 999 + 3) ?m (Stop 0)" by (rule countdown_ends) (simp_all add: goto_def put_def)
  then show ?thesis using isa_run.step [OF 1] by blast
qed

theorem program_exit_code_witness:
  "parse_args (getopt_long Map.empty (tl loop_argv)) Args_new = Inr (Some small_args) \<and>
   emu_program Map.empty idle_design dram_instant axi_idle () () small_fresh loop_files vu0 undefined loop_argv = Some (Inl (Panic 0))"
proof -
  have a: "ar_mode small_args = ModeStandalone" "unat (ar_bin_load_addr small_args) + length loop_bin \<le> 2 ^ 32"
    "0 \<le> ar_IRQ_TSC small_args" "ar_IRQ_TSC small_args < 32" "ar_IRQ_TSC small_args \<noteq> 1"
    by (simp_all add: small_args_def Args_new_def loop_bin_length)
  have e: "\<forall>m. started small_args loop_bin m \<longrightarrow> (\<exists>n. isa_run (args_env small_args) n m (Stop 0))" using loop_ends by blast
  show ?thesis
    by (rule conjI [OF loop_argv_parse program_exit_code [OF loop_argv_parse a(1) small_options(1) loop_files_ok a(2-5) e]])
qed


end
