(* ===== verification/Spec2Isabelle.thy ===== *)
theory Spec2Isabelle
  imports EmuProgram
begin

text \<open>
  A model of the NCPU32K emulator and its co-simulation harness, \<open>src/em/csrc\<close>, with the theorems that make it correct.

  \<^bold>\<open>The program.\<close> A \<open>CPU\<close> interprets instructions of a 32-bit architecture. It reaches memory through two translation look-aside buffers, two
  write-back caches and the physical memory, which dispatches a window of addresses to device handlers (a serial port and a flash memory). A timer and an
  interrupt controller are registers of the processor. Beside it the harness drives a simulated hardware design:
  its AXI4 memory port is served by a crossbar over a memory and devices of its own. In differential testing the design reports the instructions it commits, the interpreter executes the
  same and the two are compared. The program runs the machine alone, the design alone, or both together.

  \<^bold>\<open>Theories.\<close>
  \<^item> \<open>Prelude\<close>: machine types, the ways to stop (\<open>halt\<close>: \<open>panic\<close>, failing \<open>assert\<close>, undefined behaviour), checked arrays, words and bytes, the
    contracts of steps (\<open>step_invariant\<close>, \<open>total_step\<close>).
  \<^item> \<open>Isa\<close>: \<open>isa.hh\<close> and the field extraction of \<open>CPU::step\<close>. Decoding inverts the instruction formats.
  \<^item> \<open>MsrState\<close>, \<open>Tsc\<close>, \<open>Msr\<close>: \<open>cpu.hh\<close> (\<open>msr_s\<close>), \<open>irqc.cc\<close>, \<open>tsc.cc\<close>, \<open>msr.cc\<close>. When the timer fires, what registers read back and which cannot be read, protection of user mode, software refill of the
    look-aside buffer.
  \<^item> \<open>Traces\<close>: \<open>pc-queue.cc\<close>, \<open>ras.cc\<close>, \<open>symtable.cc\<close>.
  \<^item> \<open>Memory\<close>: \<open>memory.cc\<close>, \<open>memory.hh\<close>. Stores are read back, images are loaded, the outcome of every access at the bounds of the DRAM; the contract \<open>mmio_device\<close> of a handler and the safety of
    every access to a memory whose handlers meet it.
  \<^item> \<open>Cache\<close>, \<open>CacheProps\<close>, \<open>CachePort\<close>, \<open>CacheSafe\<close>: \<open>cache.cc\<close>. The locale \<open>cached_port\<close> proves, over any byte-addressed port, that a cache refines a flat memory, that a flush makes
    memory current, that replacement is least recently used and what a miss evicts; it is interpreted on the physical memory. \<open>safe_port\<close> proves that no access leaves the arrays.
  \<^item> \<open>Mmu\<close>: \<open>mmu.cc\<close>, equal to a lookup specification; where the uncached segment lies, against the comment in the code.
  \<^item> \<open>CpuState\<close>, \<open>Cpu\<close>, \<open>CpuProps\<close>, \<open>CpuSafe\<close>: \<open>cpu.cc\<close>. Every instruction; exceptions and their return; fetch, decode, execute; arithmetic against an integer specification; stores
    loaded back; and that a step of a well-formed machine is well-formed again, for any devices that meet the contract and in particular those of the program.
  \<^item> \<open>IsaSpec\<close>, \<open>CpuExec\<close>, \<open>CpuRefine\<close>: the abstract specification of \<open>CPU::run_step\<close>. The instruction set is a machine with registers, a flat memory and the registers of exception handling, instructions as a
    data type with an injective encoding, values in the integers, steps as a deterministic inductive relation. \<open>CpuExec\<close> proves the cases of the interpreter against it. The locale \<open>implements_isa\<close> lifts a one-step simulation to runs; it is interpreted on the interpreter, so that every run of the specification
    is a run of the interpreter from the configuration that reset leaves.
  \<^item> \<open>Uart\<close>, \<open>Flash\<close>, \<open>DeviceTree\<close>: \<open>peripheral/pb-uart.cc\<close>, \<open>virt-uart.cc\<close>, \<open>flash.cc\<close>, \<open>device-tree.cc\<close>, and the interpretation of \<open>mmio_device\<close> on them. The serial
    protocol, exact flash accesses, and that the only undefined accesses of the constructed bus are those of 64 bits in the MMIO window.
  \<^item> \<open>Axi4\<close>, \<open>Axi4Crossbar\<close>, \<open>Axi4CrossbarProps\<close>: \<open>peripheral/axi4.hh\<close>, \<open>axi4.cc\<close>, \<open>axi4-crossbar.cc\<close>. Write beats, read bursts, and that undefined behaviour comes only from the two kinds of bursts the code does not handle.
  \<^item> \<open>Difftest\<close>: \<open>dpi-c.cc\<close>. A cycle passes exactly when it is a lock-step of design and interpreter, an inductive relation, that leaves the registers equal.
  \<^item> \<open>Emu\<close>: \<open>emu.cc\<close>. The generated design is a record of functions; the locale \<open>clocked_invariant\<close> says what a clock keeps, and is interpreted on the agreement of the registers.
  \<^item> \<open>EmuMain\<close>: \<open>main.cc\<close>. Options, construction of the machine, the three loops. The standalone program is safe from its construction on, differential testing goes on only
    while the registers agree and ends when the design hangs.
  \<^item> \<open>EmuProgram\<close>: \<open>main.cc\<close> and everything below it. The standalone loop, with its devices, interprets \<open>implements_isa\<close> again: the process ends with the exit code that the instruction
    set gives the binary on its command line. A counting loop is worked through as an example.

  \<^bold>\<open>Conventions.\<close> A C++ object is a record, a virtual class a record of functions, a pointer that may be null or uninitialised an option, an object with aliases an entry of an
  explicit store. Operations return \<open>halt + result\<close>. Integers have the width of the source; signed arithmetic wraps as compiled. All loops are structural
  recursions over their bounds except the chunked image load, which has a measure, and the endless loops of \<open>main\<close>, a partial function whose value is \<open>None\<close> when it never returns;
  there is no fuel. Contents that the program leaves uninitialised are arguments.

  The abstract machine covers every instruction; of the model-specific registers it has those of exception handling, and what touches another one, a device or a status with interrupts, translation or
  caches enabled leaves the specification. The refinement starts from the configuration of reset. Enabled caches and translation are covered by the theorems on single steps and accesses.

  \<^bold>\<open>Not modelled.\<close> Output on stderr, destructors (\<open>main\<close> destroys nothing), the Windows serial port (the only source of serial input: elsewhere \<open>virt_uart_poll_read\<close> never receives a byte), statistics of the caches, the tokenisation of \<open>fscanf\<close>, which option an abbreviated name stands for (a parameter); DRAMsim3 (third-party; a record of functions
  here); the hardware description and the generated simulation of it, build and test scripts.
\<close>

end
